(* ===== verification/Prelude.thy ===== *)
theory Prelude
  imports Main "HOL-Library.Word"
begin

text \<open>
  Shared vocabulary of the development: the unsigned 64-bit arithmetic of \<^verbatim>\<open>size_t\<close>
  and \<^verbatim>\<open>uintptr_t\<close>, the \<^verbatim>\<open>ALIGN\<close> macro of \<^verbatim>\<open>include/common.h\<close>, the byte-addressed
  memory in which the C structures live, and the outcomes of a call that may abort.
  Addresses and sizes are natural numbers below \<open>2 ^ 64\<close>; the places where the C
  arithmetic can wrap use \<open>add64\<close>, \<open>sub64\<close> and \<open>mul64\<close>, and a store of \<open>n\<close> bytes
  keeps the low \<open>n\<close> bytes of the value.
\<close>

unbundle bit_operations_syntax

named_theorems u64_simps \<open>unsigned 64-bit operations that do not wrap\<close>
named_theorems mem_simps \<open>reads from an updated byte memory\<close>

subsection \<open>Outcomes\<close>

text \<open>
  A call returns, or it ends the process with \<^verbatim>\<open>abort()\<close> after writing a message, or it
  waits for a mutex its own thread holds, or it never leaves a loop.
\<close>

datatype fault = Abort string | Deadlock | Diverge

type_synonym 'a outcome = "fault + 'a"

subsection \<open>Unsigned 64-bit arithmetic\<close>

type_synonym addr = nat
type_synonym byte = "8 word"
type_synonym mem = "addr \<Rightarrow> byte"

definition SIZE_MAX :: nat where
  "SIZE_MAX = 2 ^ 64 - 1"

definition add64 :: "nat \<Rightarrow> nat \<Rightarrow> nat" where
  "add64 a b = (a + b) mod 2 ^ 64"

definition sub64 :: "nat \<Rightarrow> nat \<Rightarrow> nat" where
  "sub64 a b = (a + (2 ^ 64 - b mod 2 ^ 64)) mod 2 ^ 64"

definition mul64 :: "nat \<Rightarrow> nat \<Rightarrow> nat" where
  "mul64 a b = (a * b) mod 2 ^ 64"

lemma add64_no_wrap [u64_simps]: "a + b < 2 ^ 64 \<Longrightarrow> add64 a b = a + b"
  by (simp add: add64_def)

lemma sub64_no_wrap [u64_simps]:
  assumes "b \<le> a" "a < 2 ^ 64"
  shows "sub64 a b = a - b"
proof -
  have "a + (2 ^ 64 - b mod 2 ^ 64) = (a - b) + 2 ^ 64" using assms by simp
  then show ?thesis using assms unfolding sub64_def by (simp only: mod_add_self2) simp
qed

lemma mul64_no_wrap [u64_simps]: "a * b < 2 ^ 64 \<Longrightarrow> mul64 a b = a * b"
  by (simp add: mul64_def)

lemma add64_bound [simp]: "add64 a b < 2 ^ 64"
  by (simp add: add64_def)

lemma add64_cong_mod: "add64 a b mod 2 ^ 64 = (a + b) mod 2 ^ 64"
  by (simp add: add64_def)

subsection \<open>The alignment macro\<close>

text \<open>
  \<^verbatim>\<open>ALIGN(size)\<close> is \<open>(size + 15) & ~15\<close> at the width of \<^verbatim>\<open>size_t\<close>: the addition wraps,
  the mask is the 64-bit complement.
\<close>

definition ALIGNMENT :: nat where
  "ALIGNMENT = 16"

definition ALIGN :: "nat \<Rightarrow> nat" where
  "ALIGN sz = unat ((word_of_nat sz + (word_of_nat ALIGNMENT - 1)) AND NOT (word_of_nat ALIGNMENT - 1 :: 64 word))"

text \<open>Masking with the complement of \<open>2 ^ k - 1\<close> rounds down to a multiple of \<open>2 ^ k\<close>.\<close>

lemma unat_and_not_mask:
  "unat (w AND NOT (mask k :: 'a::len word)) = unat w div 2 ^ k * 2 ^ k"
proof -
  have "w AND NOT (mask k) = push_bit k (drop_bit k w)"
    by (rule bit_eqI) (auto simp: bit_simps bit_mask_iff)
  also have "unat \<dots> = take_bit LENGTH('a) (push_bit k (drop_bit k (unat w)))"
    by (simp add: unsigned_push_bit_eq unsigned_drop_bit_eq take_bit_nat_eq_self)
  also have "\<dots> = push_bit k (drop_bit k (unat w))"
  proof (rule take_bit_nat_eq_self)
    have "push_bit k (drop_bit k (unat w)) \<le> unat w"
      by (simp add: push_bit_eq_mult drop_bit_eq_div)
    also have "\<dots> < 2 ^ LENGTH('a)" by (rule unsigned_less)
    finally show "push_bit k (drop_bit k (unat w)) < 2 ^ LENGTH('a)" .
  qed
  finally show ?thesis by (simp add: push_bit_eq_mult drop_bit_eq_div)
qed

lemma ALIGNMENT_mask: "(word_of_nat ALIGNMENT - 1 :: 64 word) = mask 4"
  by (simp add: ALIGNMENT_def mask_eq_decr_exp)

lemma ALIGN_eq:
  assumes "sz + 15 < 2 ^ 64"
  shows "ALIGN sz = (sz + 15) div 16 * 16"
proof -
  have "unat (word_of_nat sz + mask 4 :: 64 word) = sz + 15"
    using assms by (simp add: mask_eq_decr_exp unat_word_ariths unat_of_nat take_bit_eq_mod unsigned_of_nat)
  then show ?thesis
    by (simp add: ALIGN_def ALIGNMENT_mask unat_and_not_mask)
qed

lemma ALIGN_bounds:
  assumes "sz + 15 < 2 ^ 64"
  shows "sz \<le> ALIGN sz" "ALIGN sz < sz + 16" "ALIGN sz mod 16 = 0"
  using assms by (simp_all add: ALIGN_eq)

subsection \<open>Byte memory\<close>

text \<open>
  Little-endian reads and writes of \<open>n\<close> bytes; \<^verbatim>\<open>uint32_t\<close> fields use \<open>n = 4\<close>,
  \<^verbatim>\<open>size_t\<close> and pointers \<open>n = 8\<close>.
\<close>

primrec rd :: "nat \<Rightarrow> mem \<Rightarrow> addr \<Rightarrow> nat" where
  "rd 0 m a = 0"
| "rd (Suc n) m a = unat (m a) + 256 * rd n m (Suc a)"

primrec wr :: "nat \<Rightarrow> addr \<Rightarrow> nat \<Rightarrow> mem \<Rightarrow> mem" where
  "wr 0 a v m = m"
| "wr (Suc n) a v m = wr n (Suc a) (v div 256) (m(a := word_of_nat v))"

text \<open>\<^verbatim>\<open>memcpy\<close> of disjoint ranges and \<^verbatim>\<open>memset\<close> with zero.\<close>

definition memcpy :: "addr \<Rightarrow> addr \<Rightarrow> nat \<Rightarrow> mem \<Rightarrow> mem" where
  "memcpy dst src n m = (\<lambda>x. if dst \<le> x \<and> x < dst + n then m (src + (x - dst)) else m x)"

definition memset0 :: "addr \<Rightarrow> nat \<Rightarrow> mem \<Rightarrow> mem" where
  "memset0 dst n m = (\<lambda>x. if dst \<le> x \<and> x < dst + n then 0 else m x)"

definition same_on :: "addr set \<Rightarrow> mem \<Rightarrow> mem \<Rightarrow> bool" where
  "same_on A m m' \<longleftrightarrow> (\<forall>x\<in>A. m' x = m x)"

lemma wr_outside: "x < a \<or> a + n \<le> x \<Longrightarrow> wr n a v m x = m x"
  by (induction n arbitrary: a v m) auto

lemma rd_cong: "\<forall>x\<in>{a..<a + n}. m' x = m x \<Longrightarrow> rd n m' a = rd n m a"
  by (induction n arbitrary: a) auto

lemma rd_same_on: "same_on A m m' \<Longrightarrow> {a..<a + n} \<subseteq> A \<Longrightarrow> rd n m' a = rd n m a"
  by (rule rd_cong) (auto simp: same_on_def)

lemma rd_wr_disjoint [mem_simps]:
  "a + n \<le> b \<or> b + k \<le> a \<Longrightarrow> rd k (wr n a v m) b = rd k m b"
  by (rule rd_cong) (auto simp: wr_outside)

lemma rd_bound: "rd n m a < 256 ^ n"
proof (induction n arbitrary: a)
  case (Suc n)
  have "unat (m a) < 256" using unsigned_less [of "m a"] by simp
  with Suc [of "Suc a"] show ?case by simp
qed simp

lemma rd_wr_mod [mem_simps]: "rd n (wr n a v m) a = v mod 256 ^ n"
proof (induction n arbitrary: a v m)
  case (Suc n)
  have "wr n (Suc a) (v div 256) (m(a := word_of_nat v)) a = word_of_nat v"
    by (simp add: wr_outside)
  then show ?case using Suc
    by (simp add: unsigned_of_nat take_bit_eq_mod mod_mult2_eq)
qed simp

end
