(* ===== verification/Block_Layout.thy ===== *)
theory Block_Layout
  imports Prelude
begin

text \<open>
  The data of the allocator: \<^verbatim>\<open>block_header_t\<close>, \<^verbatim>\<open>block_footer_t\<close> and
  \<^verbatim>\<open>allocator_stats_t\<close> of \<^verbatim>\<open>include/allocator.h\<close> with the x86-64 offsets of their
  fields, the kernel services the allocator calls, and the global variables of
  \<^verbatim>\<open>allocator.c\<close> and \<^verbatim>\<open>free_list.c\<close> as one state record.
\<close>

subsection \<open>Structures in memory\<close>

definition ALLOC_MAGIC_HEADER :: nat where
  "ALLOC_MAGIC_HEADER = 0xDEADBEEF"

definition ALLOC_MAGIC_FOOTER :: nat where
  "ALLOC_MAGIC_FOOTER = 0xBEEFDEAD"

definition MMAP_THRESHOLD :: nat where
  "MMAP_THRESHOLD = 128 * 1024"

definition NUM_SIZE_CLASSES :: nat where
  "NUM_SIZE_CLASSES = 8"

text \<open>\<^verbatim>\<open>sizeof(block_header_t)\<close> and \<^verbatim>\<open>sizeof(block_footer_t)\<close>.\<close>

abbreviation HDR :: nat where
  "HDR \<equiv> 48"

abbreviation FTR :: nat where
  "FTR \<equiv> 16"

record block_header_t =
  magic_header :: nat
  is_free :: nat
  requested_size :: nat
  block_size :: nat
  is_mmap :: nat
  next_ptr :: addr
  prev_ptr :: addr

record block_footer_t =
  magic_footer :: nat
  f_block_size :: nat

text \<open>What dereferencing a \<^verbatim>\<open>block_header_t *\<close> or a \<^verbatim>\<open>block_footer_t *\<close> reads.\<close>

definition hdr :: "mem \<Rightarrow> addr \<Rightarrow> block_header_t" where
  "hdr m b = \<lparr>magic_header = rd 4 m b, is_free = rd 4 m (b + 4),
     requested_size = rd 8 m (b + 8), block_size = rd 8 m (b + 16),
     is_mmap = rd 4 m (b + 24), next_ptr = rd 8 m (b + 32), prev_ptr = rd 8 m (b + 40)\<rparr>"

definition ftr :: "mem \<Rightarrow> addr \<Rightarrow> block_footer_t" where
  "ftr m f = \<lparr>magic_footer = rd 4 m f, f_block_size = rd 8 m (f + 8)\<rparr>"

definition set_magic_header :: "addr \<Rightarrow> nat \<Rightarrow> mem \<Rightarrow> mem" where
  "set_magic_header b v = wr 4 b v"

definition set_is_free :: "addr \<Rightarrow> nat \<Rightarrow> mem \<Rightarrow> mem" where
  "set_is_free b v = wr 4 (b + 4) v"

definition set_requested_size :: "addr \<Rightarrow> nat \<Rightarrow> mem \<Rightarrow> mem" where
  "set_requested_size b v = wr 8 (b + 8) v"

definition set_block_size :: "addr \<Rightarrow> nat \<Rightarrow> mem \<Rightarrow> mem" where
  "set_block_size b v = wr 8 (b + 16) v"

definition set_is_mmap :: "addr \<Rightarrow> nat \<Rightarrow> mem \<Rightarrow> mem" where
  "set_is_mmap b v = wr 4 (b + 24) v"

definition set_next :: "addr \<Rightarrow> addr \<Rightarrow> mem \<Rightarrow> mem" where
  "set_next b v = wr 8 (b + 32) v"

definition set_prev :: "addr \<Rightarrow> addr \<Rightarrow> mem \<Rightarrow> mem" where
  "set_prev b v = wr 8 (b + 40) v"

text \<open>The footer of a block of \<open>sz\<close> bytes at \<open>b\<close> lies in its last sixteen bytes.\<close>

abbreviation footer_of :: "addr \<Rightarrow> nat \<Rightarrow> addr" where
  "footer_of b sz \<equiv> b + sz - FTR"

definition put_footer_at :: "addr \<Rightarrow> nat \<Rightarrow> mem \<Rightarrow> mem" where
  "put_footer_at f sz m = wr 8 (f + 8) sz (wr 4 f ALLOC_MAGIC_FOOTER m)"

definition put_footer :: "addr \<Rightarrow> nat \<Rightarrow> mem \<Rightarrow> mem" where
  "put_footer b sz = put_footer_at (footer_of b sz) sz"

text \<open>The header written for the free remainder of a split block; \<^verbatim>\<open>requested_size\<close> keeps
  whatever bytes were there.\<close>

definition put_free_header :: "addr \<Rightarrow> nat \<Rightarrow> mem \<Rightarrow> mem" where
  "put_free_header b sz m =
     set_prev b 0 (set_next b 0 (set_is_mmap b 0 (set_is_free b 1
       (set_block_size b sz (set_magic_header b ALLOC_MAGIC_HEADER m)))))"

lemmas field_defs = hdr_def ftr_def set_magic_header_def set_is_free_def
  set_requested_size_def set_block_size_def set_is_mmap_def set_next_def set_prev_def
  put_footer_at_def

lemmas magic_defs = ALLOC_MAGIC_HEADER_def ALLOC_MAGIC_FOOTER_def

text \<open>
  A store to a field of the header at \<open>a\<close> is a record update there and leaves headers
  and footers that do not overlap it alone.
\<close>

lemma hdr_set_same [mem_simps]:
  "hdr (set_magic_header a v m) a = (hdr m a)\<lparr>magic_header := v mod 2 ^ 32\<rparr>"
  "hdr (set_is_free a v m) a = (hdr m a)\<lparr>is_free := v mod 2 ^ 32\<rparr>"
  "hdr (set_requested_size a v m) a = (hdr m a)\<lparr>requested_size := v mod 2 ^ 64\<rparr>"
  "hdr (set_block_size a v m) a = (hdr m a)\<lparr>block_size := v mod 2 ^ 64\<rparr>"
  "hdr (set_is_mmap a v m) a = (hdr m a)\<lparr>is_mmap := v mod 2 ^ 32\<rparr>"
  "hdr (set_next a v m) a = (hdr m a)\<lparr>next_ptr := v mod 2 ^ 64\<rparr>"
  "hdr (set_prev a v m) a = (hdr m a)\<lparr>prev_ptr := v mod 2 ^ 64\<rparr>"
  by (simp_all add: field_defs mem_simps)

lemma hdr_set_other [mem_simps]:
  assumes "a + 48 \<le> b \<or> b + 48 \<le> a"
  shows "hdr (set_magic_header a v m) b = hdr m b" "hdr (set_is_free a v m) b = hdr m b"
    "hdr (set_requested_size a v m) b = hdr m b" "hdr (set_block_size a v m) b = hdr m b"
    "hdr (set_is_mmap a v m) b = hdr m b" "hdr (set_next a v m) b = hdr m b"
    "hdr (set_prev a v m) b = hdr m b"
  using assms by (auto simp: field_defs mem_simps)

lemma ftr_set [mem_simps]:
  assumes "a + 48 \<le> f \<or> f + 16 \<le> a"
  shows "ftr (set_magic_header a v m) f = ftr m f" "ftr (set_is_free a v m) f = ftr m f"
    "ftr (set_requested_size a v m) f = ftr m f" "ftr (set_block_size a v m) f = ftr m f"
    "ftr (set_is_mmap a v m) f = ftr m f" "ftr (set_next a v m) f = ftr m f"
    "ftr (set_prev a v m) f = ftr m f"
  using assms by (auto simp: field_defs mem_simps)

lemma put_footer_at_simps:
  "ftr (put_footer_at f n m) f = \<lparr>magic_footer = ALLOC_MAGIC_FOOTER, f_block_size = n mod 2 ^ 64\<rparr>"
  "f + 16 \<le> b \<or> b + 48 \<le> f \<Longrightarrow> hdr (put_footer_at f n m) b = hdr m b"
  "f + 16 \<le> g \<or> g + 16 \<le> f \<Longrightarrow> ftr (put_footer_at f n m) g = ftr m g"
  "x < f \<or> f + 16 \<le> x \<Longrightarrow> put_footer_at f n m x = m x"
  by (auto simp: field_defs mem_simps magic_defs wr_outside)

lemma put_footer_simps [mem_simps]:
  "ftr (put_footer a n m) (footer_of a n) =
     \<lparr>magic_footer = ALLOC_MAGIC_FOOTER, f_block_size = n mod 2 ^ 64\<rparr>"
  "footer_of a n + 16 \<le> b \<or> b + 48 \<le> footer_of a n \<Longrightarrow> hdr (put_footer a n m) b = hdr m b"
  "footer_of a n + 16 \<le> f \<or> f + 16 \<le> footer_of a n \<Longrightarrow> ftr (put_footer a n m) f = ftr m f"
  "x < footer_of a n \<or> footer_of a n + 16 \<le> x \<Longrightarrow> put_footer a n m x = m x"
  unfolding put_footer_def by (rule put_footer_at_simps; assumption?)+

lemma hdr_put_free_header [mem_simps]:
  "hdr (put_free_header a n m) a =
     \<lparr>magic_header = ALLOC_MAGIC_HEADER, is_free = 1, requested_size = requested_size (hdr m a),
      block_size = n mod 2 ^ 64, is_mmap = 0, next_ptr = 0, prev_ptr = 0\<rparr>"
  by (simp add: put_free_header_def mem_simps magic_defs)

lemma hdr_put_free_header_other [mem_simps]:
  "a + 48 \<le> b \<or> b + 48 \<le> a \<Longrightarrow> hdr (put_free_header a n m) b = hdr m b"
  by (simp add: put_free_header_def mem_simps)

lemma ftr_put_free_header [mem_simps]:
  "a + 48 \<le> f \<or> f + 16 \<le> a \<Longrightarrow> ftr (put_free_header a n m) f = ftr m f"
  by (simp add: put_free_header_def mem_simps)

text \<open>Which bytes a store can change.\<close>

lemma set_outside [mem_simps]:
  assumes "x < a \<or> a + 48 \<le> x"
  shows "set_magic_header a v m x = m x" "set_is_free a v m x = m x"
    "set_requested_size a v m x = m x" "set_block_size a v m x = m x"
    "set_is_mmap a v m x = m x" "set_next a v m x = m x" "set_prev a v m x = m x"
    "put_free_header a n m x = m x"
  using assms by (auto simp: field_defs wr_outside put_free_header_def)

lemma hdr_cong: "\<forall>x\<in>{a..<a + 48}. m' x = m x \<Longrightarrow> hdr m' a = hdr m a"
  unfolding hdr_def by (intro block_header_t.equality) (auto intro!: rd_cong)

lemma ftr_cong: "\<forall>x\<in>{f..<f + 16}. m' x = m x \<Longrightarrow> ftr m' f = ftr m f"
  unfolding ftr_def by (intro block_footer_t.equality) (auto intro!: rd_cong)

lemma hdr_bounds:
  "block_size (hdr m a) < 2 ^ 64" "requested_size (hdr m a) < 2 ^ 64"
  "next_ptr (hdr m a) < 2 ^ 64" "prev_ptr (hdr m a) < 2 ^ 64"
  using rd_bound [of 8 m] by (auto simp: hdr_def)

subsection \<open>Statistics\<close>

record allocator_stats_t =
  total_allocated :: nat
  total_freed :: nat
  current_heap_size :: nat
  mmap_allocations :: nat
  sbrk_allocations :: nat

definition zero_stats :: allocator_stats_t where
  "zero_stats = \<lparr>total_allocated = 0, total_freed = 0, current_heap_size = 0,
     mmap_allocations = 0, sbrk_allocations = 0\<rparr>"

subsection \<open>Kernel services\<close>

text \<open>
  The part of the address space the kernel manages for the process: the data segment
  from \<open>start_brk\<close> to the program break \<open>cur_brk\<close>, and the anonymous mappings.
\<close>

record kstate =
  start_brk :: addr
  cur_brk :: addr
  mappings :: "(addr \<times> nat) list"

text \<open>
  The kernel's answers are a parameter of every operation that makes a system call:
  whether the break may move by an increment or to an address, where a mapping is
  placed, whether an unmapping succeeds, where a mapping is moved, and the \<^verbatim>\<open>errno\<close> a
  failing call leaves.
\<close>

record kernel =
  k_sbrk :: "kstate \<Rightarrow> nat \<Rightarrow> bool"
  k_brk :: "kstate \<Rightarrow> addr \<Rightarrow> bool"
  k_mmap :: "kstate \<Rightarrow> nat \<Rightarrow> addr option"
  k_munmap :: "kstate \<Rightarrow> addr \<Rightarrow> nat \<Rightarrow> bool"
  k_mremap :: "kstate \<Rightarrow> addr \<Rightarrow> nat \<Rightarrow> nat \<Rightarrow> addr option"
  k_errno :: "kstate \<Rightarrow> nat"

subsection \<open>The state\<close>

record alloc_state =
  mem :: mem
  os :: kstate
  segregated_heads :: "addr list"
  global_stats :: allocator_stats_t
  heap_start :: addr
  initial_break :: addr
  last_allocator_break :: addr
  alloc_mutex :: bool
  errno :: nat

definition ENOMEM :: nat where
  "ENOMEM = 12"

text \<open>The error value \<^verbatim>\<open>(void *)-1\<close> of \<^verbatim>\<open>sbrk\<close>.\<close>

definition BRK_FAILED :: addr where
  "BRK_FAILED = SIZE_MAX"

definition upd_mem :: "(mem \<Rightarrow> mem) \<Rightarrow> alloc_state \<Rightarrow> alloc_state" where
  "upd_mem f s = s\<lparr>mem := f (mem s)\<rparr>"

definition upd_stats :: "(allocator_stats_t \<Rightarrow> allocator_stats_t) \<Rightarrow> alloc_state \<Rightarrow> alloc_state" where
  "upd_stats f s = s\<lparr>global_stats := f (global_stats s)\<rparr>"

text \<open>\<^verbatim>\<open>sbrk(0)\<close>, \<^verbatim>\<open>sbrk(inc)\<close> with a positive increment, and \<^verbatim>\<open>brk(addr)\<close>.\<close>

definition sbrk0 :: "kernel \<Rightarrow> alloc_state \<Rightarrow> addr" where
  "sbrk0 K s = (if k_sbrk K (os s) 0 then cur_brk (os s) else BRK_FAILED)"

definition sbrk :: "kernel \<Rightarrow> nat \<Rightarrow> alloc_state \<Rightarrow> addr \<times> alloc_state" where
  "sbrk K inc s =
     (if k_sbrk K (os s) inc
      then (cur_brk (os s), s\<lparr>os := (os s)\<lparr>cur_brk := cur_brk (os s) + inc\<rparr>\<rparr>)
      else (BRK_FAILED, s\<lparr>errno := k_errno K (os s)\<rparr>))"

definition brk :: "kernel \<Rightarrow> addr \<Rightarrow> alloc_state \<Rightarrow> bool \<times> alloc_state" where
  "brk K a s =
     (if k_brk K (os s) a then (True, s\<lparr>os := (os s)\<lparr>cur_brk := a\<rparr>\<rparr>)
      else (False, s\<lparr>errno := k_errno K (os s)\<rparr>))"

definition mmap :: "kernel \<Rightarrow> nat \<Rightarrow> alloc_state \<Rightarrow> addr option \<times> alloc_state" where
  "mmap K len s =
     (case k_mmap K (os s) len of
        None \<Rightarrow> (None, s\<lparr>errno := k_errno K (os s)\<rparr>)
      | Some a \<Rightarrow> (Some a, s\<lparr>os := (os s)\<lparr>mappings := (a, len) # mappings (os s)\<rparr>\<rparr>))"

definition munmap :: "kernel \<Rightarrow> addr \<Rightarrow> nat \<Rightarrow> alloc_state \<Rightarrow> bool \<times> alloc_state" where
  "munmap K a len s =
     (if k_munmap K (os s) a len
      then (True, s\<lparr>os := (os s)\<lparr>mappings := removeAll (a, len) (mappings (os s))\<rparr>\<rparr>)
      else (False, s\<lparr>errno := k_errno K (os s)\<rparr>))"

text \<open>\<^verbatim>\<open>mremap(.., MREMAP_MAYMOVE)\<close>: the mapping moves with its contents.\<close>

definition mremap :: "kernel \<Rightarrow> addr \<Rightarrow> nat \<Rightarrow> nat \<Rightarrow> alloc_state \<Rightarrow> addr option \<times> alloc_state" where
  "mremap K a old new s =
     (case k_mremap K (os s) a old new of
        None \<Rightarrow> (None, s\<lparr>errno := k_errno K (os s)\<rparr>)
      | Some a' \<Rightarrow> (Some a',
          s\<lparr>os := (os s)\<lparr>mappings := (a', new) # removeAll (a, old) (mappings (os s))\<rparr>,
            mem := memcpy a' a (min old new) (mem s)\<rparr>))"

lemmas syscall_defs = sbrk0_def sbrk_def brk_def mmap_def munmap_def mremap_def

subsection \<open>The mutex\<close>

definition mutex_lock :: "alloc_state \<Rightarrow> alloc_state outcome" where
  "mutex_lock s = (if alloc_mutex s then Inl Deadlock else Inr (s\<lparr>alloc_mutex := True\<rparr>))"

definition mutex_unlock :: "alloc_state \<Rightarrow> alloc_state" where
  "mutex_unlock s = s\<lparr>alloc_mutex := False\<rparr>"

end
