(* ===== verification/Free_List.thy ===== *)
theory Free_List
  imports Block_Layout
begin

text \<open>
  The segregated free lists of \<^verbatim>\<open>src/allocator/free_list.c\<close>: eight doubly linked lists
  threaded through the headers of the free blocks. The definitions follow the C
  functions; the messages of \<^verbatim>\<open>fatal_abort\<close> are given without their final newline. A
  list traversal is a \<^theory_text>\<open>partial_function (option)\<close>, so that a cyclic list is the
  value \<open>None\<close>.
\<close>

subsection \<open>Operations\<close>

definition size_class_limits :: "nat list" where
  "size_class_limits = [128, 256, 512, 1024, 2048, 4096, 8192, MMAP_THRESHOLD]"

function size_class_from :: "nat \<Rightarrow> nat \<Rightarrow> nat" where
  "size_class_from i sz =
     (if i < NUM_SIZE_CLASSES - 1
      then if sz \<le> size_class_limits ! i then i else size_class_from (Suc i) sz
      else NUM_SIZE_CLASSES - 1)"
  by pat_completeness auto
termination
  by (relation "measure (\<lambda>(i, sz). NUM_SIZE_CLASSES - i)") (auto simp: NUM_SIZE_CLASSES_def)

declare size_class_from.simps [simp del]

definition get_size_class_index :: "nat \<Rightarrow> nat" where
  "get_size_class_index sz = size_class_from 0 sz"

definition free_list_reset :: "alloc_state \<Rightarrow> alloc_state" where
  "free_list_reset s = s\<lparr>segregated_heads := replicate NUM_SIZE_CLASSES 0\<rparr>"

definition free_list_insert :: "addr \<Rightarrow> alloc_state \<Rightarrow> alloc_state" where
  "free_list_insert block s =
     (if block = 0 then s
      else
        let idx = get_size_class_index (block_size (hdr (mem s) block));
            head = segregated_heads s ! idx;
            m1 = set_prev block 0 (set_next block head (mem s));
            m2 = (if head \<noteq> 0 then set_prev head block m1 else m1)
        in s\<lparr>segregated_heads := (segregated_heads s)[idx := block],
             mem := set_is_free block 1 m2\<rparr>)"

text \<open>The unlinking at the end of \<^verbatim>\<open>free_list_remove\<close>, after its checks have passed.\<close>

definition unlink :: "addr \<Rightarrow> alloc_state \<Rightarrow> alloc_state" where
  "unlink block s =
     (let m = mem s; h = hdr m block; idx = get_size_class_index (block_size h);
          s1 = (if prev_ptr h \<noteq> 0
                then s\<lparr>mem := set_next (prev_ptr h) (next_ptr h) m\<rparr>
                else s\<lparr>segregated_heads := (segregated_heads s)[idx := next_ptr h]\<rparr>);
          m1 = (if next_ptr h \<noteq> 0 then set_prev (next_ptr h) (prev_ptr h) (mem s1) else mem s1)
      in s1\<lparr>mem := set_is_free block 0 (set_prev block 0 (set_next block 0 m1))\<rparr>)"

definition free_list_remove :: "kernel \<Rightarrow> addr \<Rightarrow> alloc_state \<Rightarrow> alloc_state outcome" where
  "free_list_remove K block s =
     (let m = mem s; h = hdr m block; heap_end = sbrk0 K s;
          idx = get_size_class_index (block_size h);
          footer = ftr m (footer_of block (block_size h))
      in
      if block = 0 then Inr s
      else if block_size h < HDR + FTR then
        Inl (Abort ''[FATAL] Invalid block size while unlinking free-list block'')
      else if is_free h = 0 then
        Inl (Abort ''[FATAL] Attempt to unlink an allocated block'')
      else if heap_end \<noteq> BRK_FAILED \<and>
              (block \<ge> heap_end \<or> heap_end - block < block_size h) then
        Inl (Abort ''[FATAL] Free-list block size exceeds heap break'')
      else if prev_ptr h = 0 \<and> segregated_heads s ! idx \<noteq> block then
        Inl (Abort ''[FATAL] Free-list head linkage corruption detected'')
      else if prev_ptr h \<noteq> 0 \<and> next_ptr (hdr m (prev_ptr h)) \<noteq> block then
        Inl (Abort ''[FATAL] Free-list previous linkage corruption detected'')
      else if next_ptr h \<noteq> 0 \<and> prev_ptr (hdr m (next_ptr h)) \<noteq> block then
        Inl (Abort ''[FATAL] Free-list next linkage corruption detected'')
      else if magic_footer footer \<noteq> ALLOC_MAGIC_FOOTER \<or> f_block_size footer \<noteq> block_size h then
        Inl (Abort ''[FATAL] Free-list footer corruption detected'')
      else Inr (unlink block s))"

text \<open>
  The inner loop of \<^verbatim>\<open>free_list_find_fit\<close>: the best fit of one class so far is \<open>best_fit\<close>,
  at distance \<open>min_diff\<close>.
\<close>

partial_function (option) scan_class ::
  "mem \<Rightarrow> nat \<Rightarrow> addr \<Rightarrow> addr \<Rightarrow> nat \<Rightarrow> addr outcome option" where
  "scan_class m total_size cur best_fit min_diff =
     (if cur = 0 then Some (Inr best_fit)
      else if magic_header (hdr m cur) \<noteq> ALLOC_MAGIC_HEADER then
        Some (Inl (Abort ''[FATAL] Heap canary corruption detected in free_list_find_fit''))
      else if total_size \<le> block_size (hdr m cur) \<and>
              block_size (hdr m cur) - total_size < min_diff then
        if block_size (hdr m cur) - total_size = 0 then Some (Inr cur)
        else scan_class m total_size (next_ptr (hdr m cur)) cur
               (block_size (hdr m cur) - total_size)
      else scan_class m total_size (next_ptr (hdr m cur)) best_fit min_diff)"

function find_fit_from ::
  "kernel \<Rightarrow> nat \<Rightarrow> nat \<Rightarrow> alloc_state \<Rightarrow> (addr \<times> alloc_state) outcome" where
  "find_fit_from K total_size i s =
     (if i < NUM_SIZE_CLASSES then
        case scan_class (mem s) total_size (segregated_heads s ! i) 0 SIZE_MAX of
          None \<Rightarrow> Inl Diverge
        | Some (Inl e) \<Rightarrow> Inl e
        | Some (Inr best_fit) \<Rightarrow>
            if best_fit \<noteq> 0 then
              case free_list_remove K best_fit s of
                Inl e \<Rightarrow> Inl e
              | Inr s' \<Rightarrow> Inr (best_fit, s')
            else find_fit_from K total_size (Suc i) s
      else Inr (0, s))"
  by pat_completeness auto
termination
  by (relation "measure (\<lambda>(K, t, i, s). NUM_SIZE_CLASSES - i)") auto

declare find_fit_from.simps [simp del]

definition free_list_find_fit :: "kernel \<Rightarrow> nat \<Rightarrow> alloc_state \<Rightarrow> (addr \<times> alloc_state) outcome" where
  "free_list_find_fit K total_size s =
     find_fit_from K total_size (get_size_class_index total_size) s"

text \<open>
  \<^verbatim>\<open>free_list_verify_integrity\<close>: one node of class \<open>i\<close>, one list, all lists. The result
  is the C return value, \<open>0\<close> or \<open>-1\<close>.
\<close>

definition verify_node :: "kernel \<Rightarrow> alloc_state \<Rightarrow> nat \<Rightarrow> addr \<Rightarrow> bool" where
  "verify_node K s i cur =
     (let m = mem s; h = hdr m cur; heap_end = sbrk0 K s;
          footer = ftr m (footer_of cur (block_size h))
      in
      if magic_header h \<noteq> ALLOC_MAGIC_HEADER \<or> is_free h = 0 \<or> block_size h < HDR + FTR then False
      else if heap_end \<noteq> BRK_FAILED \<and>
              (cur \<ge> heap_end \<or> heap_end - cur < block_size h) then False
      else if (prev_ptr h = 0 \<and> segregated_heads s ! i \<noteq> cur) \<or>
              (prev_ptr h \<noteq> 0 \<and> next_ptr (hdr m (prev_ptr h)) \<noteq> cur) \<or>
              (next_ptr h \<noteq> 0 \<and> prev_ptr (hdr m (next_ptr h)) \<noteq> cur) then False
      else \<not> (magic_footer footer \<noteq> ALLOC_MAGIC_FOOTER \<or> f_block_size footer \<noteq> block_size h))"

partial_function (option) verify_list ::
  "kernel \<Rightarrow> alloc_state \<Rightarrow> nat \<Rightarrow> addr \<Rightarrow> int option" where
  "verify_list K s i cur =
     (if cur = 0 then Some 0
      else if \<not> verify_node K s i cur then Some (-1)
      else verify_list K s i (next_ptr (hdr (mem s) cur)))"

function verify_from :: "kernel \<Rightarrow> alloc_state \<Rightarrow> nat \<Rightarrow> int outcome" where
  "verify_from K s i =
     (if i < NUM_SIZE_CLASSES then
        case verify_list K s i (segregated_heads s ! i) of
          None \<Rightarrow> Inl Diverge
        | Some r \<Rightarrow> if r \<noteq> 0 then Inr r else verify_from K s (Suc i)
      else Inr 0)"
  by pat_completeness auto
termination
  by (relation "measure (\<lambda>(K, s, i). NUM_SIZE_CLASSES - i)") auto

declare verify_from.simps [simp del]

definition free_list_verify_integrity :: "kernel \<Rightarrow> alloc_state \<Rightarrow> int outcome" where
  "free_list_verify_integrity K s = verify_from K s 0"

end
