(* ===== verification/Allocator.thy ===== *)
theory Allocator
  imports Free_List
begin

text \<open>
  The operations of \<^verbatim>\<open>src/allocator/allocator.c\<close>. Logging is left out; its only effect on
  the modelled state is that it preserves \<^verbatim>\<open>errno\<close>. A long C function is cut at its own
  comments and branches into several definitions that are composed in the same order.
\<close>

subsection \<open>Initialisation and teardown\<close>

definition ensure_break_aligned :: "kernel \<Rightarrow> alloc_state \<Rightarrow> bool \<times> alloc_state" where
  "ensure_break_aligned K s =
     (let cur_brk = sbrk0 K s in
      if cur_brk = BRK_FAILED then (False, s)
      else if cur_brk mod ALIGNMENT \<noteq> 0 then
        let pad = ALIGNMENT - cur_brk mod ALIGNMENT; (r, s') = sbrk K pad s
        in if r = BRK_FAILED then (False, s') else (True, s')
      else (True, s))"

definition allocator_init :: "kernel \<Rightarrow> alloc_state \<Rightarrow> alloc_state outcome" where
  "allocator_init K s =
     (case mutex_lock s of
        Inl e \<Rightarrow> Inl e
      | Inr s1 \<Rightarrow>
          let s2 = free_list_reset (s1\<lparr>global_stats := zero_stats\<rparr>);
              (ok, s3) = ensure_break_aligned K s2
          in if \<not> ok then Inr (mutex_unlock s3)
             else
               let cur = sbrk0 K s3;
                   ib = (if initial_break s3 = 0 then cur else initial_break s3)
               in Inr (mutex_unlock
                    (if cur \<noteq> BRK_FAILED
                     then s3\<lparr>initial_break := ib, heap_start := ib, last_allocator_break := cur\<rparr>
                     else s3)))"

definition allocator_destroy :: "kernel \<Rightarrow> alloc_state \<Rightarrow> alloc_state outcome" where
  "allocator_destroy K s =
     (case mutex_lock s of
        Inl e \<Rightarrow> Inl e
      | Inr s1 \<Rightarrow>
          let s2 = free_list_reset (s1\<lparr>global_stats := zero_stats\<rparr>) in
          Inr (mutex_unlock
            (if initial_break s2 \<noteq> 0 then
               if sbrk0 K s2 = last_allocator_break s2 then
                 let (ok, s3) = brk K (initial_break s2) s2
                 in if ok then s3\<lparr>initial_break := 0, heap_start := 0, last_allocator_break := 0\<rparr>
                    else s3\<lparr>heap_start := initial_break s3\<rparr>
               else s2\<lparr>initial_break := 0, heap_start := 0, last_allocator_break := 0\<rparr>
             else s2\<lparr>heap_start := 0, last_allocator_break := 0\<rparr>)))"

definition allocator_get_stats :: "alloc_state \<Rightarrow> (allocator_stats_t \<times> alloc_state) outcome" where
  "allocator_get_stats s =
     (case mutex_lock s of
        Inl e \<Rightarrow> Inl e
      | Inr s1 \<Rightarrow> Inr (global_stats s1, mutex_unlock s1))"

subsection \<open>Integrity check\<close>

text \<open>The walk over the blocks from \<open>cur\<close> to the break.\<close>

function walk_heap :: "mem \<Rightarrow> addr \<Rightarrow> addr \<Rightarrow> int" where
  "walk_heap m heap_end cur =
     (if cur < heap_end then
        if heap_end - cur < HDR + FTR then -1
        else if cur mod ALIGNMENT \<noteq> 0 then -1
        else if magic_header (hdr m cur) \<noteq> ALLOC_MAGIC_HEADER \<or> block_size (hdr m cur) < HDR + FTR \<or>
                block_size (hdr m cur) mod ALIGNMENT \<noteq> 0 \<or>
                heap_end - cur < block_size (hdr m cur) then -1
        else if magic_footer (ftr m (footer_of cur (block_size (hdr m cur)))) \<noteq> ALLOC_MAGIC_FOOTER \<or>
                f_block_size (ftr m (footer_of cur (block_size (hdr m cur)))) \<noteq> block_size (hdr m cur) then -1
        else walk_heap m heap_end (cur + block_size (hdr m cur))
      else 0)"
  by pat_completeness auto
termination
  by (relation "measure (\<lambda>(m, heap_end, cur). heap_end - cur)") auto

declare walk_heap.simps [simp del]

definition allocator_verify_integrity :: "kernel \<Rightarrow> alloc_state \<Rightarrow> (int \<times> alloc_state) outcome" where
  "allocator_verify_integrity K s =
     (case mutex_lock s of
        Inl e \<Rightarrow> Inl e
      | Inr s1 \<Rightarrow>
          (case free_list_verify_integrity K s1 of
             Inl e \<Rightarrow> Inl e
           | Inr res \<Rightarrow>
               if res \<noteq> 0 then Inr (res, mutex_unlock s1)
               else
                 let heap_end = sbrk0 K s1 in
                 if heap_start s1 \<noteq> 0 \<and> heap_start s1 \<noteq> BRK_FAILED \<and> heap_end \<noteq> 0 \<and>
                    heap_end \<noteq> BRK_FAILED \<and> heap_end \<ge> heap_start s1
                 then Inr (walk_heap (mem s1) heap_end (heap_start s1), mutex_unlock s1)
                 else Inr (0, mutex_unlock s1)))"

definition is_adjacent_free_block :: "alloc_state \<Rightarrow> addr \<Rightarrow> addr \<Rightarrow> bool" where
  "is_adjacent_free_block s block heap_end =
     (let m = mem s; h = hdr m block; footer = ftr m (footer_of block (block_size h)) in
      if block = 0 \<or> heap_end = BRK_FAILED \<or> heap_start s = 0 then False
      else if block < heap_start s \<or> block \<ge> heap_end then False
      else if heap_end - block < HDR + FTR then False
      else if block mod ALIGNMENT \<noteq> 0 then False
      else if magic_header h \<noteq> ALLOC_MAGIC_HEADER \<or> is_mmap h \<noteq> 0 \<or> is_free h = 0 then False
      else if block_size h < HDR + FTR then False
      else if block_size h mod ALIGNMENT \<noteq> 0 then False
      else if heap_end - block < block_size h then False
      else \<not> (magic_footer footer \<noteq> ALLOC_MAGIC_FOOTER \<or> f_block_size footer \<noteq> block_size h))"

subsection \<open>Allocation\<close>

text \<open>\<^verbatim>\<open>sizeof(block_header_t) + ALIGN(size) + sizeof(block_footer_t)\<close> at the width of \<^verbatim>\<open>size_t\<close>,
  and the least size worth splitting off.\<close>

definition total_size_of :: "nat \<Rightarrow> nat" where
  "total_size_of sz = add64 (add64 HDR (ALIGN sz)) FTR"

definition min_split :: nat where
  "min_split = HDR + FTR + 16"

definition stats_allocated :: "nat \<Rightarrow> alloc_state \<Rightarrow> alloc_state" where
  "stats_allocated n = upd_stats (\<lambda>g. g\<lparr>total_allocated := add64 (total_allocated g) n\<rparr>)"

definition stats_freed :: "nat \<Rightarrow> alloc_state \<Rightarrow> alloc_state" where
  "stats_freed n = upd_stats (\<lambda>g. g\<lparr>total_freed := add64 (total_freed g) n\<rparr>)"

definition malloc_mmap :: "kernel \<Rightarrow> nat \<Rightarrow> nat \<Rightarrow> alloc_state \<Rightarrow> addr \<times> alloc_state" where
  "malloc_mmap K sz total_size s =
     (case mmap K total_size s of
        (None, s1) \<Rightarrow> (0, (mutex_unlock s1)\<lparr>errno := ENOMEM\<rparr>)
      | (Some header, s1) \<Rightarrow>
          let m = set_prev header 0 (set_next header 0 (set_is_mmap header 1
                    (set_block_size header total_size (set_requested_size header sz
                      (set_is_free header 0 (set_magic_header header ALLOC_MAGIC_HEADER (mem s1)))))));
              s2 = s1\<lparr>mem := put_footer header total_size m\<rparr>;
              s3 = upd_stats (\<lambda>g. g\<lparr>mmap_allocations := add64 (mmap_allocations g) 1\<rparr>)
                     (stats_allocated sz s2)
          in (header + HDR, mutex_unlock s3))"

text \<open>The part of \<^verbatim>\<open>my_malloc\<close> that prepares the break before it grows the heap.\<close>

definition malloc_prepare :: "kernel \<Rightarrow> alloc_state \<Rightarrow> bool \<times> alloc_state" where
  "malloc_prepare K s =
     (let (ok, s1) = (if initial_break s = 0 then ensure_break_aligned K s else (True, s)) in
      if \<not> ok then (False, s1)
      else
        let cur = sbrk0 K s1;
            s2 = (if initial_break s1 = 0 \<and> cur \<noteq> BRK_FAILED
                  then s1\<lparr>initial_break := cur\<rparr> else s1);
            s3 = (if heap_start s2 = 0 then s2\<lparr>heap_start := initial_break s2\<rparr> else s2)
        in ensure_break_aligned K s3)"

definition malloc_grow :: "kernel \<Rightarrow> nat \<Rightarrow> alloc_state \<Rightarrow> addr option \<times> alloc_state" where
  "malloc_grow K total_size s =
     (let (ok, s1) = malloc_prepare K s in
      if \<not> ok then (None, (mutex_unlock s1)\<lparr>errno := ENOMEM\<rparr>)
      else
        let (heap_break, s2) = sbrk K total_size s1 in
        if heap_break = BRK_FAILED then (None, (mutex_unlock s2)\<lparr>errno := ENOMEM\<rparr>)
        else
          let m = set_prev heap_break 0 (set_next heap_break 0 (set_is_mmap heap_break 0
                    (set_block_size heap_break total_size
                      (set_magic_header heap_break ALLOC_MAGIC_HEADER (mem s2)))));
              s3 = s2\<lparr>mem := m, last_allocator_break := sbrk0 K s2\<rparr>
          in (Some heap_break,
              upd_stats (\<lambda>g. g\<lparr>current_heap_size := add64 (current_heap_size g) total_size,
                               sbrk_allocations := add64 (sbrk_allocations g) 1\<rparr>) s3))"

definition malloc_split :: "addr \<Rightarrow> nat \<Rightarrow> alloc_state \<Rightarrow> alloc_state" where
  "malloc_split block total_size s =
     (let bsz = block_size (hdr (mem s) block) in
      if bsz \<ge> add64 total_size min_split then
        let remainder_size = bsz - total_size;
            remainder = block + total_size;
            m = put_footer remainder remainder_size (put_free_header remainder remainder_size
                  (set_block_size block total_size (mem s)))
        in free_list_insert remainder (s\<lparr>mem := m\<rparr>)
      else s)"

definition malloc_finish :: "addr \<Rightarrow> nat \<Rightarrow> alloc_state \<Rightarrow> addr \<times> alloc_state" where
  "malloc_finish block sz s =
     (let m = set_requested_size block sz (set_is_free block 0 (mem s));
          s1 = s\<lparr>mem := put_footer block (block_size (hdr m block)) m\<rparr>
      in (block + HDR, mutex_unlock (stats_allocated sz s1)))"

definition my_malloc :: "kernel \<Rightarrow> nat \<Rightarrow> alloc_state \<Rightarrow> (addr \<times> alloc_state) outcome" where
  "my_malloc K sz s =
     (if sz = 0 then Inr (0, s)
      else if sz > SIZE_MAX - 1024 then Inr (0, s\<lparr>errno := ENOMEM\<rparr>)
      else
        let total_size = total_size_of sz in
        case mutex_lock s of
          Inl e \<Rightarrow> Inl e
        | Inr s1 \<Rightarrow>
            if total_size \<ge> MMAP_THRESHOLD then Inr (malloc_mmap K sz total_size s1)
            else
              (case free_list_find_fit K total_size s1 of
                 Inl e \<Rightarrow> Inl e
               | Inr (block, s2) \<Rightarrow>
                   if block = 0 then
                     case malloc_grow K total_size s2 of
                       (None, s3) \<Rightarrow> Inr (0, s3)
                     | (Some nblock, s3) \<Rightarrow> Inr (malloc_finish nblock sz s3)
                   else Inr (malloc_finish block sz (malloc_split block total_size s2))))"

definition my_calloc :: "kernel \<Rightarrow> nat \<Rightarrow> nat \<Rightarrow> alloc_state \<Rightarrow> (addr \<times> alloc_state) outcome" where
  "my_calloc K nmemb sz s =
     (if nmemb = 0 \<or> sz = 0 then Inr (0, s)
      else if nmemb \<noteq> 0 \<and> sz > SIZE_MAX div nmemb then Inr (0, s\<lparr>errno := ENOMEM\<rparr>)
      else
        let total = mul64 nmemb sz in
        case my_malloc K total s of
          Inl e \<Rightarrow> Inl e
        | Inr (ptr, s1) \<Rightarrow>
            if ptr \<noteq> 0 then Inr (ptr, upd_mem (memset0 ptr total) s1) else Inr (ptr, s1))"

subsection \<open>Deallocation\<close>

text \<open>
  The validation that \<^verbatim>\<open>my_free\<close> and \<^verbatim>\<open>my_realloc\<close> both begin with; \<open>fn\<close> is the function's
  name in the messages. The mutex is released before the abort, which ends the process.
\<close>

definition block_checks :: "string \<Rightarrow> kernel \<Rightarrow> addr \<Rightarrow> alloc_state \<Rightarrow> fault option" where
  "block_checks fn K header s =
     (let m = mem s; h = hdr m header; heap_end = sbrk0 K s;
          footer = ftr m (footer_of header (block_size h)) in
      if magic_header h \<noteq> ALLOC_MAGIC_HEADER then
        Some (Abort (''[FATAL] Heap corruption: Invalid magic header canary in '' @ fn))
      else if block_size h < HDR + FTR then
        Some (Abort (''[FATAL] Heap corruption: Invalid block size in '' @ fn))
      else if is_mmap h = 0 \<and>
              (heap_start s = 0 \<or> heap_end = BRK_FAILED \<or> header < heap_start s \<or>
               header \<ge> heap_end \<or> heap_end - header < block_size h) then
        Some (Abort (''[FATAL] Heap corruption: Block bounds exceed heap limit in '' @ fn))
      else if is_mmap h \<noteq> 0 \<and>
              (header > SIZE_MAX - block_size h \<or> block_size h < MMAP_THRESHOLD) then
        Some (Abort (''[FATAL] Heap corruption: Invalid mmap block size in '' @ fn))
      else if magic_footer footer \<noteq> ALLOC_MAGIC_FOOTER \<or> f_block_size footer \<noteq> block_size h then
        Some (Abort (''[FATAL] Heap corruption: Invalid magic footer canary in '' @ fn))
      else if is_free h \<noteq> 0 then
        Some (Abort (''[FATAL] Double free or use after free detected in '' @ fn))
      else None)"

definition my_free_checks :: "kernel \<Rightarrow> addr \<Rightarrow> alloc_state \<Rightarrow> fault option" where
  "my_free_checks = block_checks ''my_free''"

definition my_realloc_checks :: "kernel \<Rightarrow> addr \<Rightarrow> alloc_state \<Rightarrow> fault option" where
  "my_realloc_checks = block_checks ''my_realloc''"

definition coalesce_next :: "kernel \<Rightarrow> addr \<Rightarrow> alloc_state \<Rightarrow> alloc_state outcome" where
  "coalesce_next K header s =
     (let heap_end = sbrk0 K s; next_header = header + block_size (hdr (mem s) header) in
      if is_adjacent_free_block s next_header heap_end then
        case free_list_remove K next_header s of
          Inl e \<Rightarrow> Inl e
        | Inr s1 \<Rightarrow>
            let m1 = mem s1;
                m2 = set_block_size header
                       (add64 (block_size (hdr m1 header)) (block_size (hdr m1 next_header))) m1
            in Inr (s1\<lparr>mem := put_footer header (block_size (hdr m2 header)) m2\<rparr>)
      else Inr s)"

definition coalesce_prev :: "kernel \<Rightarrow> addr \<Rightarrow> alloc_state \<Rightarrow> (addr \<times> alloc_state) outcome" where
  "coalesce_prev K header s =
     (let m = mem s; prev_footer = ftr m (header - FTR); psz = f_block_size prev_footer;
          prev_header = header - psz; ph = hdr m prev_header in
      if heap_start s \<noteq> 0 \<and> header \<ge> heap_start s + HDR + FTR \<and>
         magic_footer prev_footer = ALLOC_MAGIC_FOOTER \<and> psz \<ge> HDR + FTR \<and>
         psz \<le> header - heap_start s \<and> psz mod ALIGNMENT = 0 \<and>
         prev_header \<ge> heap_start s \<and> prev_header mod ALIGNMENT = 0 \<and>
         magic_header ph = ALLOC_MAGIC_HEADER \<and> block_size ph = psz \<and> is_mmap ph = 0 \<and> is_free ph \<noteq> 0
      then
        case free_list_remove K prev_header s of
          Inl e \<Rightarrow> Inl e
        | Inr s1 \<Rightarrow>
            let m1 = mem s1;
                m2 = set_block_size prev_header
                       (add64 (block_size (hdr m1 prev_header)) (block_size (hdr m1 header))) m1
            in Inr (prev_header, s1\<lparr>mem := put_footer prev_header (block_size (hdr m2 prev_header)) m2\<rparr>)
      else Inr (header, s))"

definition my_free :: "kernel \<Rightarrow> addr \<Rightarrow> alloc_state \<Rightarrow> alloc_state outcome" where
  "my_free K ptr s =
     (if ptr = 0 then Inr s
      else
        case mutex_lock s of
          Inl e \<Rightarrow> Inl e
        | Inr s1 \<Rightarrow>
            let header = sub64 ptr HDR in
            case my_free_checks K header s1 of
              Some e \<Rightarrow> Inl e
            | None \<Rightarrow>
                if is_mmap (hdr (mem s1) header) \<noteq> 0 then
                  let s2 = mutex_unlock (stats_freed (requested_size (hdr (mem s1) header)) s1)
                  in Inr (snd (munmap K header (block_size (hdr (mem s1) header)) s2))
                else
                  let s2 = stats_freed (requested_size (hdr (mem s1) header))
                             (upd_mem (set_is_free header 1) s1)
                  in case coalesce_next K header s2 of
                       Inl e \<Rightarrow> Inl e
                     | Inr s3 \<Rightarrow>
                         (case coalesce_prev K header s3 of
                            Inl e \<Rightarrow> Inl e
                          | Inr (header', s4) \<Rightarrow>
                              Inr (mutex_unlock (free_list_insert header' s4))))"

subsection \<open>Reallocation\<close>

text \<open>
  The critical section of \<^verbatim>\<open>my_realloc\<close> either finishes the call with a pointer or
  releases the mutex and asks for a relocation of \<open>old_requested_size\<close> bytes.
\<close>

datatype realloc_step = Done addr | Relocate nat

definition stats_resized :: "nat \<Rightarrow> nat \<Rightarrow> alloc_state \<Rightarrow> alloc_state" where
  "stats_resized old sz s =
     (if sz < old then stats_freed (old - sz) s
      else if sz > old then stats_allocated (sz - old) s
      else s)"

definition realloc_mmap ::
  "kernel \<Rightarrow> addr \<Rightarrow> nat \<Rightarrow> alloc_state \<Rightarrow> realloc_step \<times> alloc_state" where
  "realloc_mmap K header sz s =
     (let old = requested_size (hdr (mem s) header); total_size = total_size_of sz in
      if total_size \<ge> MMAP_THRESHOLD then
        case mremap K header (block_size (hdr (mem s) header)) total_size s of
          (Some new_header, s1) \<Rightarrow>
            let m = put_footer new_header total_size (set_block_size new_header total_size
                      (set_requested_size new_header sz (mem s1)))
            in (Done (new_header + HDR),
                mutex_unlock (stats_freed old (stats_allocated sz (s1\<lparr>mem := m\<rparr>))))
        | (None, s1) \<Rightarrow> (Relocate old, mutex_unlock s1)
      else (Relocate old, mutex_unlock s))"

text \<open>Path 1: the block is large enough; a remainder worth splitting off is merged with a free
  successor and inserted.\<close>

definition realloc_in_block ::
  "kernel \<Rightarrow> addr \<Rightarrow> nat \<Rightarrow> addr \<Rightarrow> alloc_state \<Rightarrow> alloc_state outcome" where
  "realloc_in_block K header total_needed heap_end s =
     (let bsz = block_size (hdr (mem s) header) in
      if bsz \<ge> add64 total_needed min_split then
        let rem_size = bsz - total_needed;
            remainder = header + total_needed;
            m = put_free_header remainder rem_size
                  (put_footer header total_needed (set_block_size header total_needed (mem s)));
            s1 = s\<lparr>mem := m\<rparr>;
            after = remainder + rem_size;
            merged = (if is_adjacent_free_block s1 after heap_end then
                        case free_list_remove K after s1 of
                          Inl e \<Rightarrow> Inl e
                        | Inr s2 \<Rightarrow>
                            let rs = add64 rem_size (block_size (hdr (mem s2) after))
                            in Inr (rs, upd_mem (set_block_size remainder rs) s2)
                      else Inr (rem_size, s1))
        in case merged of
             Inl e \<Rightarrow> Inl e
           | Inr (rs, s3) \<Rightarrow> Inr (free_list_insert remainder (upd_mem (put_footer remainder rs) s3))
      else Inr s)"

text \<open>Path 2: the block is extended into its free successor.\<close>

definition realloc_expand ::
  "kernel \<Rightarrow> addr \<Rightarrow> nat \<Rightarrow> alloc_state \<Rightarrow> alloc_state outcome" where
  "realloc_expand K header total_needed s =
     (let next_block = header + block_size (hdr (mem s) header) in
      case free_list_remove K next_block s of
        Inl e \<Rightarrow> Inl e
      | Inr s1 \<Rightarrow>
          let m = mem s1;
              combined_size = add64 (block_size (hdr m header)) (block_size (hdr m next_block))
          in if combined_size \<ge> add64 total_needed min_split then
               let rem_size = combined_size - total_needed;
                   remainder = header + total_needed;
                   m1 = put_footer header total_needed (set_block_size header total_needed m);
                   m2 = put_footer remainder rem_size (put_free_header remainder rem_size m1)
               in Inr (free_list_insert remainder (s1\<lparr>mem := m2\<rparr>))
             else Inr (s1\<lparr>mem := put_footer header combined_size
                                  (set_block_size header combined_size m)\<rparr>))"

definition realloc_heap ::
  "kernel \<Rightarrow> addr \<Rightarrow> nat \<Rightarrow> alloc_state \<Rightarrow> (realloc_step \<times> alloc_state) outcome" where
  "realloc_heap K ptr sz s =
     (let header = sub64 ptr HDR;
          total_needed = total_size_of sz;
          old = requested_size (hdr (mem s) header);
          heap_end = sbrk0 K s;
          bsz = block_size (hdr (mem s) header);
          next_block = header + bsz;
          finish = (\<lambda>s'. (Done ptr, mutex_unlock (upd_mem (set_requested_size header sz)
                       (stats_resized old sz s'))))
      in
      if bsz \<ge> total_needed then
        case realloc_in_block K header total_needed heap_end s of
          Inl e \<Rightarrow> Inl e
        | Inr s1 \<Rightarrow> Inr (finish s1)
      else if total_needed < MMAP_THRESHOLD \<and> is_adjacent_free_block s next_block heap_end \<and>
              add64 bsz (block_size (hdr (mem s) next_block)) \<ge> total_needed then
        case realloc_expand K header total_needed s of
          Inl e \<Rightarrow> Inl e
        | Inr s1 \<Rightarrow> Inr (finish s1)
      else Inr (Relocate old, mutex_unlock s))"

definition my_realloc_locked ::
  "kernel \<Rightarrow> addr \<Rightarrow> nat \<Rightarrow> alloc_state \<Rightarrow> (realloc_step \<times> alloc_state) outcome" where
  "my_realloc_locked K ptr sz s =
     (case mutex_lock s of
        Inl e \<Rightarrow> Inl e
      | Inr s1 \<Rightarrow>
          let header = sub64 ptr HDR in
          case my_realloc_checks K header s1 of
            Some e \<Rightarrow> Inl e
          | None \<Rightarrow>
              if is_mmap (hdr (mem s1) header) \<noteq> 0 then Inr (realloc_mmap K header sz s1)
              else realloc_heap K ptr sz s1)"

text \<open>Path 3, outside the mutex: allocate, copy, free.\<close>

definition my_realloc_move ::
  "kernel \<Rightarrow> addr \<Rightarrow> nat \<Rightarrow> nat \<Rightarrow> alloc_state \<Rightarrow> (addr \<times> alloc_state) outcome" where
  "my_realloc_move K ptr sz old s =
     (case my_malloc K sz s of
        Inl e \<Rightarrow> Inl e
      | Inr (new_ptr, s1) \<Rightarrow>
          if new_ptr = 0 then Inr (0, s1)
          else
            let copy_size = (if old < sz then old else sz) in
            case my_free K ptr (upd_mem (memcpy new_ptr ptr copy_size) s1) of
              Inl e \<Rightarrow> Inl e
            | Inr s2 \<Rightarrow> Inr (new_ptr, s2))"

definition my_realloc :: "kernel \<Rightarrow> addr \<Rightarrow> nat \<Rightarrow> alloc_state \<Rightarrow> (addr \<times> alloc_state) outcome" where
  "my_realloc K ptr sz s =
     (if ptr = 0 then my_malloc K sz s
      else if sz = 0 then
        case my_free K ptr s of Inl e \<Rightarrow> Inl e | Inr s1 \<Rightarrow> Inr (0, s1)
      else if sz > SIZE_MAX - 1024 then Inr (0, s\<lparr>errno := ENOMEM\<rparr>)
      else
        case my_realloc_locked K ptr sz s of
          Inl e \<Rightarrow> Inl e
        | Inr (Done p, s1) \<Rightarrow> Inr (p, s1)
        | Inr (Relocate old, s1) \<Rightarrow> my_realloc_move K ptr sz old s1)"

end
