(* ===== verification/Heap_Invariant.thy ===== *)
theory Heap_Invariant
  imports Free_List
begin

text \<open>
  The well-formedness invariant of the allocator. The heap from \<^verbatim>\<open>heap_start\<close> to the
  program break is tiled by blocks with intact boundary tags; the free blocks are exactly
  the nodes of the free list of their size class; no two neighbouring blocks are both
  free; the mappings carry intact tags of their own. The predicate \<open>wfd\<close> has a set of
  \<^emph>\<open>holes\<close>: blocks the running operation owns, whose memory it may change at will. An
  operation opens holes, splits and merges them, and closes them again.
\<close>

subsection \<open>Tilings\<close>

fun tiles :: "addr \<Rightarrow> (addr \<times> nat) list \<Rightarrow> addr \<Rightarrow> bool" where
  "tiles lo [] hi = (lo = hi)"
| "tiles lo ((a, n) # bs) hi = (a = lo \<and> HDR + FTR \<le> n \<and> n mod 16 = 0 \<and> tiles (lo + n) bs hi)"

lemma tiles_append:
  "tiles lo (xs @ ys) hi \<longleftrightarrow> (\<exists>mid. tiles lo xs mid \<and> tiles mid ys hi)"
  by (induction xs arbitrary: lo) auto

lemma tiles_le: "tiles lo bs hi \<Longrightarrow> lo \<le> hi"
  by (induction bs arbitrary: lo) (auto, fastforce)

lemma tiles_mem:
  "tiles lo bs hi \<Longrightarrow> (a, n) \<in> set bs \<Longrightarrow> lo \<le> a \<and> a + n \<le> hi \<and> 64 \<le> n \<and> n mod 16 = 0"
proof (induction bs arbitrary: lo)
  case (Cons b bs)
  then show ?case by (cases b) (fastforce dest: tiles_le)
qed simp

lemma tiles_sep:
  "tiles lo bs hi \<Longrightarrow> (a, n) \<in> set bs \<Longrightarrow> (b, k) \<in> set bs \<Longrightarrow>
     (a = b \<and> n = k) \<or> a + n \<le> b \<or> b + k \<le> a"
proof (induction bs arbitrary: lo)
  case (Cons x xs)
  then show ?case by (cases x) (auto dest: tiles_mem)
qed simp

lemma tiles_aligned:
  "tiles lo bs hi \<Longrightarrow> lo mod 16 = 0 \<Longrightarrow> (\<forall>(a, n)\<in>set bs. a mod 16 = 0) \<and> hi mod 16 = 0"
proof (induction bs arbitrary: lo)
  case (Cons x xs)
  then show ?case by (cases x) fastforce
qed simp

lemma tiles_distinct: "tiles lo bs hi \<Longrightarrow> distinct (map fst bs)"
proof (induction bs arbitrary: lo)
  case (Cons x xs)
  obtain a n where x: "x = (a, n)" by (cases x)
  with Cons have t: "tiles (lo + n) xs hi" and n: "64 \<le> n" "a = lo" by auto
  have "a \<notin> fst ` set xs" using tiles_mem [OF t] n by fastforce
  with Cons t x show ?case by auto
qed simp

lemma tiles_split:
  "tiles lo (xs @ (a, t + r) # ys) hi \<Longrightarrow> 64 \<le> t \<Longrightarrow> 64 \<le> r \<Longrightarrow> t mod 16 = 0 \<Longrightarrow>
     tiles lo (xs @ (a, t) # (a + t, r) # ys) hi"
  by (auto simp: tiles_append add.assoc) presburger

lemma tiles_merge:
  "tiles lo (xs @ (a, n) # (b, k) # ys) hi \<Longrightarrow> tiles lo (xs @ (a, n + k) # ys) hi"
  by (auto simp: tiles_append add.assoc mod_add_eq intro!: exI)

subsection \<open>Neighbours\<close>

fun no_adj :: "(addr \<Rightarrow> bool) \<Rightarrow> (addr \<times> nat) list \<Rightarrow> bool" where
  "no_adj F (x # y # bs) = (\<not> (F (fst x) \<and> F (fst y)) \<and> no_adj F (y # bs))"
| "no_adj F bs = True"

lemma no_adj_Cons:
  "no_adj F (x # ys) \<longleftrightarrow> no_adj F ys \<and> (ys \<noteq> [] \<longrightarrow> \<not> (F (fst x) \<and> F (fst (hd ys))))"
  by (cases ys) auto

lemma no_adj_append:
  "no_adj F (xs @ ys) \<longleftrightarrow> no_adj F xs \<and> no_adj F ys \<and>
     (xs \<noteq> [] \<longrightarrow> ys \<noteq> [] \<longrightarrow> \<not> (F (fst (last xs)) \<and> F (fst (hd ys))))"
proof (induction xs)
  case (Cons x xs)
  then show ?case by (cases xs) (auto simp: no_adj_Cons)
qed simp

lemma no_adj_mono:
  "no_adj F bs \<Longrightarrow> \<forall>x\<in>set bs. G (fst x) \<longrightarrow> F (fst x) \<Longrightarrow> no_adj G bs"
proof (induction bs)
  case (Cons x bs)
  then have "no_adj G bs" by (simp add: no_adj_Cons)
  with Cons.prems show ?case by (cases bs) (auto simp: no_adj_Cons)
qed simp

subsection \<open>Doubly linked lists in memory\<close>

text \<open>
  \<open>dls m p x as q y\<close>: from the pointer \<open>x\<close>, whose predecessor is \<open>p\<close>, the links lead through
  exactly the nodes \<open>as\<close>; the last node (or \<open>p\<close>) is \<open>q\<close> and the pointer after it is \<open>y\<close>.
\<close>

fun dls :: "mem \<Rightarrow> addr \<Rightarrow> addr \<Rightarrow> addr list \<Rightarrow> addr \<Rightarrow> addr \<Rightarrow> bool" where
  "dls m p x [] q y = (q = p \<and> y = x)"
| "dls m p x (a # as) q y =
     (x = a \<and> a \<noteq> 0 \<and> prev_ptr (hdr m a) = p \<and> dls m a (next_ptr (hdr m a)) as q y)"

definition dll :: "mem \<Rightarrow> addr \<Rightarrow> addr list \<Rightarrow> bool" where
  "dll m x as \<longleftrightarrow> (\<exists>q. dls m 0 x as q 0)"

lemma dls_append:
  "dls m p x (us @ vs) q y \<longleftrightarrow> (\<exists>q' y'. dls m p x us q' y' \<and> dls m q' y' vs q y)"
  by (induction us arbitrary: p x) auto

lemma dls_cong:
  "dls m p x as q y \<Longrightarrow>
   \<forall>b\<in>set as. next_ptr (hdr m' b) = next_ptr (hdr m b) \<and> prev_ptr (hdr m' b) = prev_ptr (hdr m b) \<Longrightarrow>
   dls m' p x as q y"
  by (induction as arbitrary: p x) auto

lemma dll_cong:
  "dll m x as \<Longrightarrow>
   \<forall>b\<in>set as. next_ptr (hdr m' b) = next_ptr (hdr m b) \<and> prev_ptr (hdr m' b) = prev_ptr (hdr m b) \<Longrightarrow>
   dll m' x as"
  unfolding dll_def using dls_cong by blast

lemma dls_last: "dls m p x as q y \<Longrightarrow> q = (if as = [] then p else last as)"
  by (induction as arbitrary: p x) (auto split: if_splits)

lemma dls_first: "dls m p x as q y \<Longrightarrow> x = (if as = [] then y else hd as)"
  by (cases as) auto

lemma dls_nonzero: "dls m p x as q y \<Longrightarrow> 0 \<notin> set as"
  by (induction as arbitrary: p x) auto

text \<open>Changing the predecessor of the first node.\<close>

lemma dls_set_first:
  assumes "dls m p x (a # as) q y" and "a \<notin> set as" and "prev_ptr (hdr m' a) = p'"
    and "next_ptr (hdr m' a) = next_ptr (hdr m a)"
    and "\<forall>b\<in>set as. next_ptr (hdr m' b) = next_ptr (hdr m b) \<and> prev_ptr (hdr m' b) = prev_ptr (hdr m b)"
  shows "dls m' p' x (a # as) q y"
  using assms by (auto intro: dls_cong)

text \<open>Changing the successor of the last node.\<close>

lemma dls_set_last:
  assumes "dls m p x (as @ [a]) q y" and "a \<notin> set as" and "next_ptr (hdr m' a) = y'"
    and "prev_ptr (hdr m' a) = prev_ptr (hdr m a)"
    and "\<forall>b\<in>set as. next_ptr (hdr m' b) = next_ptr (hdr m b) \<and> prev_ptr (hdr m' b) = prev_ptr (hdr m b)"
  shows "dls m' p x (as @ [a]) q y'"
  using assms by (auto simp: dls_append intro: dls_cong)

subsection \<open>The invariant\<close>

text \<open>User-space addresses stay below \<open>USER_TOP\<close>, so that pointer sums do not wrap.\<close>

definition USER_TOP :: nat where
  "USER_TOP = 2 ^ 63"

definition tags_ok :: "mem \<Rightarrow> addr \<Rightarrow> nat \<Rightarrow> bool" where
  "tags_ok m a n \<longleftrightarrow>
     magic_header (hdr m a) = ALLOC_MAGIC_HEADER \<and> block_size (hdr m a) = n \<and>
     magic_footer (ftr m (footer_of a n)) = ALLOC_MAGIC_FOOTER \<and>
     f_block_size (ftr m (footer_of a n)) = n"

definition blk_ok :: "mem \<Rightarrow> addr \<Rightarrow> nat \<Rightarrow> bool" where
  "blk_ok m a n \<longleftrightarrow> tags_ok m a n \<and> is_mmap (hdr m a) = 0 \<and>
     (is_free (hdr m a) = 1 \<or>
      is_free (hdr m a) = 0 \<and> requested_size (hdr m a) + (HDR + FTR) \<le> n)"

definition map_ok :: "mem \<Rightarrow> addr \<Rightarrow> nat \<Rightarrow> bool" where
  "map_ok m a n \<longleftrightarrow> tags_ok m a n \<and> is_mmap (hdr m a) = 1 \<and> is_free (hdr m a) = 0 \<and>
     requested_size (hdr m a) + (HDR + FTR) \<le> n"

definition region_ok :: "alloc_state \<Rightarrow> (addr \<times> nat) list \<Rightarrow> bool" where
  "region_ok s bs \<longleftrightarrow>
     0 < start_brk (os s) \<and> start_brk (os s) \<le> cur_brk (os s) \<and> cur_brk (os s) \<le> USER_TOP \<and>
     initial_break s = heap_start s \<and>
     (if heap_start s = 0 then bs = []
      else start_brk (os s) \<le> heap_start s \<and> heap_start s mod 16 = 0 \<and>
           tiles (heap_start s) bs (cur_brk (os s)))"

text \<open>Where the kernel may place a mapping: apart from the data segment and the others.\<close>

definition placed :: "kstate \<Rightarrow> addr \<Rightarrow> nat \<Rightarrow> bool" where
  "placed k a n \<longleftrightarrow> 0 < a \<and> a mod 16 = 0 \<and> a + n \<le> USER_TOP \<and>
     (a + n \<le> start_brk k \<or> cur_brk k \<le> a)"

definition apart :: "addr \<times> nat \<Rightarrow> addr \<times> nat \<Rightarrow> bool" where
  "apart x y \<longleftrightarrow> fst x + snd x \<le> fst y \<or> fst y + snd y \<le> fst x"

definition mappings_ok :: "alloc_state \<Rightarrow> bool" where
  "mappings_ok s \<longleftrightarrow>
     distinct (mappings (os s)) \<and>
     (\<forall>(a, n)\<in>set (mappings (os s)). MMAP_THRESHOLD \<le> n \<and> placed (os s) a n \<and> map_ok (mem s) a n) \<and>
     (\<forall>x\<in>set (mappings (os s)). \<forall>y\<in>set (mappings (os s)). x \<noteq> y \<longrightarrow> apart x y)"

definition free_at :: "mem \<Rightarrow> addr set \<Rightarrow> addr \<Rightarrow> bool" where
  "free_at m H a \<longleftrightarrow> a \<notin> H \<and> is_free (hdr m a) = 1"

definition lists_ok ::
  "alloc_state \<Rightarrow> (addr \<times> nat) list \<Rightarrow> addr list list \<Rightarrow> addr set \<Rightarrow> bool" where
  "lists_ok s bs fs H \<longleftrightarrow>
     length (segregated_heads s) = NUM_SIZE_CLASSES \<and> length fs = NUM_SIZE_CLASSES \<and>
     (\<forall>i < NUM_SIZE_CLASSES. dll (mem s) (segregated_heads s ! i) (fs ! i) \<and> distinct (fs ! i) \<and>
        set (fs ! i) = {a. \<exists>n. (a, n) \<in> set bs \<and> free_at (mem s) H a \<and> get_size_class_index n = i})"

definition wfd ::
  "alloc_state \<Rightarrow> (addr \<times> nat) list \<Rightarrow> addr list list \<Rightarrow> addr set \<Rightarrow> bool" where
  "wfd s bs fs H \<longleftrightarrow> region_ok s bs \<and> mappings_ok s \<and> lists_ok s bs fs H \<and>
     (\<forall>(a, n)\<in>set bs. a \<notin> H \<longrightarrow> blk_ok (mem s) a n) \<and> no_adj (free_at (mem s) H) bs"

text \<open>
  What the allocator relies on of the kernel: \<^verbatim>\<open>sbrk(0)\<close> answers; the break grows within
  user space and not into a mapping; mappings are placed 16-byte aligned in unused user
  space; a mapping can be unmapped as a whole; a moved mapping is placed likewise.
\<close>

definition kernel_ok :: "kernel \<Rightarrow> bool" where
  "kernel_ok K \<longleftrightarrow>
     (\<forall>k. k_sbrk K k 0) \<and>
     (\<forall>k n. 0 < n \<longrightarrow> k_sbrk K k n \<longrightarrow> cur_brk k + n \<le> USER_TOP \<and>
        (\<forall>a l. (a, l) \<in> set (mappings k) \<longrightarrow> cur_brk k \<le> a \<longrightarrow> cur_brk k + n \<le> a)) \<and>
     (\<forall>k n a. k_mmap K k n = Some a \<longrightarrow> placed k a n \<and> (\<forall>x\<in>set (mappings k). apart (a, n) x)) \<and>
     (\<forall>k a n. (a, n) \<in> set (mappings k) \<longrightarrow> k_munmap K k a n) \<and>
     (\<forall>k a n n' a'. k_mremap K k a n n' = Some a' \<longrightarrow> placed k a' n' \<and>
        (a' = a \<or> apart (a', n') (a, n)) \<and>
        (\<forall>x\<in>set (mappings k). x \<noteq> (a, n) \<longrightarrow> apart (a', n') x))"

lemma kernel_okD:
  assumes "kernel_ok K"
  shows "sbrk0 K s = cur_brk (os s)"
    and "k_sbrk K k n \<Longrightarrow> 0 < n \<Longrightarrow> cur_brk k + n \<le> USER_TOP"
    and "k_sbrk K k n \<Longrightarrow> 0 < n \<Longrightarrow> (a, l) \<in> set (mappings k) \<Longrightarrow> cur_brk k \<le> a \<Longrightarrow> cur_brk k + n \<le> a"
    and "k_mmap K k n = Some a \<Longrightarrow> placed k a n"
    and "k_mmap K k n = Some a \<Longrightarrow> x \<in> set (mappings k) \<Longrightarrow> apart (a, n) x"
    and "(a, n) \<in> set (mappings k) \<Longrightarrow> k_munmap K k a n"
    and "k_mremap K k a n n' = Some a' \<Longrightarrow> placed k a' n'"
    and "k_mremap K k a n n' = Some a' \<Longrightarrow> a' = a \<or> apart (a', n') (a, n)"
    and "k_mremap K k a n n' = Some a' \<Longrightarrow> x \<in> set (mappings k) \<Longrightarrow> x \<noteq> (a, n) \<Longrightarrow> apart (a', n') x"
  using assms unfolding kernel_ok_def sbrk0_def by (simp, blast+)

text \<open>Holes cover these bytes.\<close>

definition hole_bytes :: "(addr \<times> nat) list \<Rightarrow> addr set \<Rightarrow> addr set" where
  "hole_bytes bs H = (\<Union>(a, n)\<in>{b\<in>set bs. fst b \<in> H}. {a..<a + n})"

lemma hole_bytes_iff:
  "x \<in> hole_bytes bs H \<longleftrightarrow> (\<exists>a n. (a, n) \<in> set bs \<and> a \<in> H \<and> a \<le> x \<and> x < a + n)"
  by (auto simp: hole_bytes_def)

subsection \<open>What the invariant says of a block\<close>

lemma region_block:
  assumes "region_ok s bs" "(a, n) \<in> set bs"
  shows "0 < heap_start s" "heap_start s \<le> a" "start_brk (os s) \<le> a" "a + n \<le> cur_brk (os s)"
    "64 \<le> n" "n mod 16 = 0" "a mod 16 = 0" "0 < a" "a + n \<le> 2 ^ 63"
proof -
  from assms have h: "heap_start s \<noteq> 0" and t: "tiles (heap_start s) bs (cur_brk (os s))"
    and g: "start_brk (os s) \<le> heap_start s" "heap_start s mod 16 = 0" "cur_brk (os s) \<le> 2 ^ 63"
    by (auto simp: region_ok_def USER_TOP_def split: if_splits)
  from h show "0 < heap_start s" by simp
  from tiles_mem [OF t assms(2)] g h
  show "heap_start s \<le> a" "start_brk (os s) \<le> a" "a + n \<le> cur_brk (os s)" "64 \<le> n" "n mod 16 = 0"
    "0 < a" "a + n \<le> 2 ^ 63" by auto
  from tiles_aligned [OF t g(2)] assms(2) show "a mod 16 = 0" by auto
qed

lemma region_sep:
  assumes "region_ok s bs" "(a, n) \<in> set bs" "(b, k) \<in> set bs"
  shows "(a = b \<and> n = k) \<or> a + n \<le> b \<or> b + k \<le> a"
  using assms region_block(1) [OF assms(1,2)] tiles_sep
  by (fastforce simp: region_ok_def split: if_splits)

lemma region_fun:
  "region_ok s bs \<Longrightarrow> (a, n) \<in> set bs \<Longrightarrow> (a, k) \<in> set bs \<Longrightarrow> n = k"
  using region_sep [of s bs a n a k] region_block(5) [of s bs] by fastforce

lemma region_distinct: "region_ok s bs \<Longrightarrow> distinct (map fst bs)"
  by (auto simp: region_ok_def dest: tiles_distinct split: if_splits)

lemma wfdD:
  assumes "wfd s bs fs H"
  shows "region_ok s bs" "mappings_ok s" "lists_ok s bs fs H" "no_adj (free_at (mem s) H) bs"
    "\<And>a n. (a, n) \<in> set bs \<Longrightarrow> a \<notin> H \<Longrightarrow> blk_ok (mem s) a n"
  using assms by (auto simp: wfd_def)

lemma mapping_block:
  assumes "wfd s bs fs H" "(a, n) \<in> set (mappings (os s))"
  shows "MMAP_THRESHOLD \<le> n" "placed (os s) a n" "map_ok (mem s) a n"
    "(b, k) \<in> set bs \<Longrightarrow> a + n \<le> b \<or> b + k \<le> a"
  using assms region_block [of s bs b k] by (auto simp: wfd_def mappings_ok_def placed_def)

lemma same_blk:
  assumes "hdr m' a = hdr m a" "ftr m' (footer_of a n) = ftr m (footer_of a n)"
  shows "tags_ok m' a n = tags_ok m a n" "blk_ok m' a n = blk_ok m a n" "map_ok m' a n = map_ok m a n"
  using assms by (simp_all add: tags_ok_def blk_ok_def map_ok_def)

lemma same_hdr_ftr:
  assumes "\<forall>x\<in>{a..<a + n}. m' x = m x" "64 \<le> n"
  shows "hdr m' a = hdr m a" "ftr m' (footer_of a n) = ftr m (footer_of a n)"
  using assms by (auto intro!: hdr_cong ftr_cong)

lemma mappings_ok_same:
  assumes "mappings_ok s" "os s' = os s"
    and "\<And>a n x. (a, n) \<in> set (mappings (os s)) \<Longrightarrow> a \<le> x \<Longrightarrow> x < a + n \<Longrightarrow> mem s' x = mem s x"
  shows "mappings_ok s'"
proof -
  have "map_ok (mem s') a n" if "(a, n) \<in> set (mappings (os s))" for a n
  proof -
    have "map_ok (mem s) a n" "64 \<le> n"
      using that assms(1) by (auto simp: mappings_ok_def MMAP_THRESHOLD_def)
    moreover have "\<forall>x\<in>{a..<a + n}. mem s' x = mem s x" using assms(3) that by auto
    ultimately show ?thesis using same_blk(3) same_hdr_ftr by metis
  qed
  with assms(1,2) show ?thesis by (auto simp: mappings_ok_def)
qed

subsection \<open>Working on holes\<close>

lemma wfd_state_simps [simp]:
  "wfd (s\<lparr>global_stats := g\<rparr>) bs fs H = wfd s bs fs H"
  "wfd (s\<lparr>errno := e\<rparr>) bs fs H = wfd s bs fs H"
  "wfd (s\<lparr>alloc_mutex := l\<rparr>) bs fs H = wfd s bs fs H"
  "wfd (s\<lparr>last_allocator_break := b\<rparr>) bs fs H = wfd s bs fs H"
  by (simp_all add: wfd_def region_ok_def mappings_ok_def lists_ok_def)

text \<open>The bytes of a hole are the operation's own.\<close>

lemma wfd_write:
  assumes wf: "wfd s bs fs H" and same: "\<And>x. x \<notin> hole_bytes bs H \<Longrightarrow> m' x = mem s x"
  shows "wfd (s\<lparr>mem := m'\<rparr>) bs fs H"
proof -
  note D = wfdD [OF wf]
  have blk: "\<forall>x\<in>{b..<b + k}. m' x = mem s x" if "(b, k) \<in> set bs" "b \<notin> H" for b k
  proof
    fix x assume x: "x \<in> {b..<b + k}"
    have "x \<notin> hole_bytes bs H"
      using region_sep [OF D(1) that(1)] that(2) x by (fastforce simp: hole_bytes_iff)
    then show "m' x = mem s x" by (rule same)
  qed
  have h: "hdr m' b = hdr (mem s) b" "ftr m' (footer_of b k) = ftr (mem s) (footer_of b k)"
    if "(b, k) \<in> set bs" "b \<notin> H" for b k
    using same_hdr_ftr [OF blk [OF that]] region_block(5) [OF D(1) that(1)] by auto
  have fr: "free_at m' H b = free_at (mem s) H b" if "(b, k) \<in> set bs" for b k
    using h(1) [OF that] by (auto simp: free_at_def)
  have "dll m' (segregated_heads s ! i) (fs ! i)" if "i < NUM_SIZE_CLASSES" for i
  proof -
    have "\<forall>b\<in>set (fs ! i). hdr m' b = hdr (mem s) b"
      using D(3) that h(1) by (auto simp: lists_ok_def free_at_def)
    moreover have "dll (mem s) (segregated_heads s ! i) (fs ! i)"
      using D(3) that by (simp add: lists_ok_def)
    ultimately show ?thesis by (auto elim!: dll_cong)
  qed
  then have "lists_ok (s\<lparr>mem := m'\<rparr>) bs fs H"
    using D(3) fr by (auto simp: lists_ok_def)
  moreover have "mappings_ok (s\<lparr>mem := m'\<rparr>)"
  proof (rule mappings_ok_same [OF D(2)])
    fix a n x assume x: "(a, n) \<in> set (mappings (os s))" "a \<le> x" "x < a + n"
    have "x \<notin> hole_bytes bs H"
      using mapping_block(4) [OF wf x(1)] x(2,3) by (fastforce simp: hole_bytes_iff)
    then show "mem (s\<lparr>mem := m'\<rparr>) x = mem s x" by (simp add: same)
  qed simp
  moreover have "no_adj (free_at m' H) bs"
    using D(4) by (rule no_adj_mono) (auto simp: fr)
  moreover have "\<forall>(b, k)\<in>set bs. b \<notin> H \<longrightarrow> blk_ok m' b k"
    using D(5) h same_blk(2) by blast
  ultimately show ?thesis using D(1) by (simp add: wfd_def region_ok_def)
qed

lemma wfd_write_block:
  assumes "wfd s bs fs H" "(a, n) \<in> set bs" "a \<in> H"
    and "\<And>x. x < a \<or> a + n \<le> x \<Longrightarrow> m' x = mem s x"
  shows "wfd (s\<lparr>mem := m'\<rparr>) bs fs H"
proof (rule wfd_write [OF assms(1)])
  fix x assume "x \<notin> hole_bytes bs H"
  with assms(2,3) have "x < a \<or> a + n \<le> x"
    by (auto simp: hole_bytes_iff not_less not_le)
  then show "m' x = mem s x" by (rule assms(4))
qed

text \<open>Opening an allocated block, and closing a hole as an allocated block.\<close>

lemma wfd_open:
  assumes wf: "wfd s bs fs H" and free: "is_free (hdr (mem s) a) = 0"
  shows "wfd s bs fs (insert a H)"
proof -
  have fr: "free_at (mem s) (insert a H) b = free_at (mem s) H b" for b
    using free by (auto simp: free_at_def)
  then have "free_at (mem s) (insert a H) = free_at (mem s) H" by blast
  with wf show ?thesis by (auto simp: wfd_def lists_ok_def)
qed

lemma wfd_close:
  assumes wf: "wfd s bs fs H" and blk: "(a, n) \<in> set bs" "blk_ok (mem s) a n"
    and free: "is_free (hdr (mem s) a) = 0"
  shows "wfd s bs fs (H - {a})"
proof -
  have "free_at (mem s) (H - {a}) b = free_at (mem s) H b" for b
    using free by (auto simp: free_at_def)
  then have eq: "free_at (mem s) (H - {a}) = free_at (mem s) H" by blast
  have "blk_ok (mem s) b k" if "(b, k) \<in> set bs" "b \<notin> H - {a}" for b k
    using that blk wfdD(5) [OF wf] region_fun [OF wfdD(1) [OF wf]] by blast
  with wf eq show ?thesis by (auto simp: wfd_def lists_ok_def)
qed

text \<open>Splitting a hole and merging neighbouring holes changes the bookkeeping only.\<close>

lemma wfd_split:
  assumes wf: "wfd s (xs @ (a, t + r) # ys) fs H" and "a \<in> H"
    and t: "64 \<le> t" "64 \<le> r" "t mod 16 = 0"
  shows "wfd s (xs @ (a, t) # (a + t, r) # ys) fs (insert (a + t) H)"
proof -
  let ?bs = "xs @ (a, t + r) # ys" and ?bs' = "xs @ (a, t) # (a + t, r) # ys"
  note D = wfdD [OF wf]
  have rg: "region_ok s ?bs'"
    using D(1) tiles_split t by (fastforce simp: region_ok_def split: if_splits)
  from region_distinct [OF rg] have new: "\<forall>x\<in>set xs \<union> set ys. fst x \<noteq> a + t"
    by (auto simp: image_iff)
  have fr: "\<forall>x\<in>set xs \<union> set ys. free_at (mem s) (insert (a + t) H) (fst x) = free_at (mem s) H (fst x)"
    using new by (auto simp: free_at_def)
  have set_eq: "{b. \<exists>n. (b, n) \<in> set ?bs' \<and> free_at (mem s) (insert (a + t) H) b \<and> get_size_class_index n = i}
      = {b. \<exists>n. (b, n) \<in> set ?bs \<and> free_at (mem s) H b \<and> get_size_class_index n = i}" for i
    using new \<open>a \<in> H\<close> by (auto simp: free_at_def) (metis UnCI fst_conv)+
  have "no_adj (free_at (mem s) H) xs" "no_adj (free_at (mem s) H) ys"
    using D(4) by (auto simp: no_adj_append no_adj_Cons)
  then have "no_adj (free_at (mem s) (insert (a + t) H)) xs"
    "no_adj (free_at (mem s) (insert (a + t) H)) ys"
    using fr by (auto elim!: no_adj_mono)
  then have "no_adj (free_at (mem s) (insert (a + t) H)) ?bs'"
    using \<open>a \<in> H\<close> by (auto simp: no_adj_append no_adj_Cons free_at_def)
  with D rg set_eq \<open>a \<in> H\<close> show ?thesis
    unfolding wfd_def lists_ok_def by auto
qed

lemma wfd_merge:
  assumes wf: "wfd s (xs @ (a, n) # (b, k) # ys) fs H" and H: "a \<in> H" "b \<in> H"
  shows "wfd s (xs @ (a, n + k) # ys) fs (H - {b})"
proof -
  let ?bs = "xs @ (a, n) # (b, k) # ys" and ?bs' = "xs @ (a, n + k) # ys"
  note D = wfdD [OF wf]
  have rg: "region_ok s ?bs'"
    using D(1) tiles_merge by (fastforce simp: region_ok_def split: if_splits)
  from region_distinct [OF D(1)] have ab: "a \<noteq> b" by simp
  from region_distinct [OF D(1)] have new: "\<forall>x\<in>set xs \<union> set ys. fst x \<noteq> b" by auto
  then have fr: "\<forall>x\<in>set xs \<union> set ys. free_at (mem s) (H - {b}) (fst x) = free_at (mem s) H (fst x)"
    by (simp add: free_at_def)
  have set_eq: "{c. \<exists>n. (c, n) \<in> set ?bs' \<and> free_at (mem s) (H - {b}) c \<and> get_size_class_index n = i}
      = {c. \<exists>n. (c, n) \<in> set ?bs \<and> free_at (mem s) H c \<and> get_size_class_index n = i}" for i
    using new H ab by (auto simp: free_at_def) (metis UnCI fst_conv)+
  have "no_adj (free_at (mem s) H) xs" "no_adj (free_at (mem s) H) ys"
    using D(4) by (auto simp: no_adj_append no_adj_Cons)
  then have "no_adj (free_at (mem s) (H - {b})) xs" "no_adj (free_at (mem s) (H - {b})) ys"
    using fr by (auto elim!: no_adj_mono)
  then have "no_adj (free_at (mem s) (H - {b})) ?bs'"
    using H ab by (auto simp: no_adj_append no_adj_Cons free_at_def)
  moreover have "\<forall>(c, l)\<in>set ?bs'. c \<notin> H - {b} \<longrightarrow> blk_ok (mem s) c l"
    using D(5) new H ab by auto (metis UnCI fst_conv)+
  ultimately show ?thesis using D rg set_eq
    unfolding wfd_def lists_ok_def by simp
qed

end
