(* ===== verification/Free_List_Correct.thy ===== *)
theory Free_List_Correct
  imports Heap_Invariant
begin

text \<open>
  Correctness of the free-list operations on a well-formed heap: insertion closes a hole
  as a free block, removal turns a free block into a hole, and the search returns the
  smallest free block that is large enough.
\<close>

subsection \<open>Size classes\<close>

lemma size_class_eq:
  "get_size_class_index n =
     (if n \<le> 128 then 0 else if n \<le> 256 then 1 else if n \<le> 512 then 2 else if n \<le> 1024 then 3
      else if n \<le> 2048 then 4 else if n \<le> 4096 then 5 else if n \<le> 8192 then 6 else 7)"
  by (simp add: get_size_class_index_def size_class_from.simps size_class_limits_def
      NUM_SIZE_CLASSES_def)

lemma size_class_less: "get_size_class_index n < NUM_SIZE_CLASSES"
  by (simp add: size_class_eq NUM_SIZE_CLASSES_def)

lemma size_class_mono: "n \<le> k \<Longrightarrow> get_size_class_index n \<le> get_size_class_index k"
  by (simp add: size_class_eq)

subsection \<open>Facts about the lists\<close>

lemma lists_okD:
  assumes "lists_ok s bs fs H"
  shows "length (segregated_heads s) = NUM_SIZE_CLASSES" "length fs = NUM_SIZE_CLASSES"
    and "\<And>i. i < NUM_SIZE_CLASSES \<Longrightarrow> dll (mem s) (segregated_heads s ! i) (fs ! i)"
    and "\<And>i. i < NUM_SIZE_CLASSES \<Longrightarrow> distinct (fs ! i)"
    and "\<And>i a. i < NUM_SIZE_CLASSES \<Longrightarrow> a \<in> set (fs ! i) \<longleftrightarrow>
          (\<exists>n. (a, n) \<in> set bs \<and> free_at (mem s) H a \<and> get_size_class_index n = i)"
  using assms by (auto simp: lists_ok_def)

text \<open>A store that changes headers only as given, and footers not at all.\<close>

lemma lists_headI:
  assumes "wfd s bs fs H" "i < NUM_SIZE_CLASSES" "segregated_heads s ! i \<noteq> 0"
  obtains k vs where "fs ! i = segregated_heads s ! i # vs" "(segregated_heads s ! i, k) \<in> set bs"
    "free_at (mem s) H (segregated_heads s ! i)" "get_size_class_index k = i"
proof -
  note L = lists_okD [OF wfdD(3) [OF assms(1)]]
  from L(3) [OF assms(2)] assms(3) obtain vs where vs: "fs ! i = segregated_heads s ! i # vs"
    by (cases "fs ! i") (auto simp: dll_def)
  then have "segregated_heads s ! i \<in> set (fs ! i)" by simp
  with L(5) [OF assms(2)] vs that show ?thesis by blast
qed

subsection \<open>Insertion\<close>

lemma free_list_insert_mem:
  assumes "a \<noteq> 0" "a < 2 ^ 64" "h < 2 ^ 64"
    and h: "h = segregated_heads s ! get_size_class_index (block_size (hdr (mem s) a))"
    and sep: "h = 0 \<or> a + 48 \<le> h \<or> h + 48 \<le> a"
  defines "s' \<equiv> free_list_insert a s"
  shows "hdr (mem s') a = (hdr (mem s) a)\<lparr>next_ptr := h, prev_ptr := 0, is_free := 1\<rparr>"
    and "h \<noteq> 0 \<Longrightarrow> hdr (mem s') h = (hdr (mem s) h)\<lparr>prev_ptr := a\<rparr>"
    and "\<And>b. a + 48 \<le> b \<or> b + 48 \<le> a \<Longrightarrow> h = 0 \<or> h + 48 \<le> b \<or> b + 48 \<le> h \<Longrightarrow>
           hdr (mem s') b = hdr (mem s) b"
    and "\<And>f. a + 48 \<le> f \<or> f + 16 \<le> a \<Longrightarrow> h = 0 \<or> h + 48 \<le> f \<or> f + 16 \<le> h \<Longrightarrow>
           ftr (mem s') f = ftr (mem s) f"
    and "\<And>x. x < a \<or> a + 48 \<le> x \<Longrightarrow> h = 0 \<or> x < h \<or> h + 48 \<le> x \<Longrightarrow> mem s' x = mem s x"
  using assms by (auto simp: free_list_insert_def Let_def mem_simps)

lemma free_list_insert_rest [simp]:
  "os (free_list_insert a s) = os s" "heap_start (free_list_insert a s) = heap_start s"
  "initial_break (free_list_insert a s) = initial_break s"
  "last_allocator_break (free_list_insert a s) = last_allocator_break s"
  "global_stats (free_list_insert a s) = global_stats s"
  "alloc_mutex (free_list_insert a s) = alloc_mutex s" "errno (free_list_insert a s) = errno s"
  by (simp_all add: free_list_insert_def Let_def)

lemma free_list_insert_heads:
  "a \<noteq> 0 \<Longrightarrow> segregated_heads (free_list_insert a s) =
     (segregated_heads s)[get_size_class_index (block_size (hdr (mem s) a)) := a]"
  by (simp add: free_list_insert_def Let_def)

text \<open>
  The effect of an insertion on the blocks of a well-formed heap, in terms of the old
  memory.
\<close>

lemma free_list_insert_blocks:
  assumes wf: "wfd s bs fs H" and a: "(a, n) \<in> set bs" "a \<in> H" "block_size (hdr (mem s) a) = n"
  defines "h \<equiv> segregated_heads s ! get_size_class_index n" and "s' \<equiv> free_list_insert a s"
  shows "hdr (mem s') a = (hdr (mem s) a)\<lparr>next_ptr := h, prev_ptr := 0, is_free := 1\<rparr>"
    and "h \<noteq> 0 \<Longrightarrow> hdr (mem s') h = (hdr (mem s) h)\<lparr>prev_ptr := a\<rparr>"
    and "\<And>b k. (b, k) \<in> set bs \<Longrightarrow> b \<noteq> a \<Longrightarrow> b \<noteq> h \<Longrightarrow> hdr (mem s') b = hdr (mem s) b"
    and "\<And>b k. (b, k) \<in> set bs \<Longrightarrow> ftr (mem s') (footer_of b k) = ftr (mem s) (footer_of b k)"
    and "\<And>b k. (b, k) \<in> set bs \<Longrightarrow> b \<noteq> a \<Longrightarrow> b \<notin> H \<Longrightarrow> is_free (hdr (mem s') b) = is_free (hdr (mem s) b)"
    and "\<And>b k x. (b, k) \<in> set bs \<union> set (mappings (os s)) \<Longrightarrow> b + 48 \<le> x \<or> \<not> free_at (mem s) H b \<and> b \<noteq> a
          \<Longrightarrow> b \<le> x \<Longrightarrow> x < b + k \<Longrightarrow> mem s' x = mem s x"
proof -
  note D = wfdD [OF wf] and L = lists_okD [OF wfdD(3) [OF wf]]
  note B = region_block [OF D(1) a(1)]
  have hb: "\<exists>l. (h, l) \<in> set bs \<and> free_at (mem s) H h" if "h \<noteq> 0"
    using lists_headI [OF wf size_class_less] that unfolding h_def by blast
  have ha: "h \<noteq> a" if "h \<noteq> 0" using hb [OF that] a(2) by (auto simp: free_at_def)
  have sepb: "b = c \<or> b + 64 \<le> c \<or> c + 64 \<le> b" if "(b, k) \<in> set bs" "(c, l) \<in> set bs" for b c k l
    using region_sep [OF D(1) that] region_block(5) [OF D(1) that(1)]
      region_block(5) [OF D(1) that(2)] by linarith
  have sep: "h = 0 \<or> a + 64 \<le> h \<or> h + 64 \<le> a" using hb ha sepb [OF a(1)] by metis
  have h64: "h < 2 ^ 64" using hb region_block(9) [OF D(1)] by (cases "h = 0") fastforce+
  have hh: "h = segregated_heads s ! get_size_class_index (block_size (hdr (mem s) a))"
    by (simp add: h_def a(3))
  have sep48: "h = 0 \<or> a + 48 \<le> h \<or> h + 48 \<le> a" using sep by linarith
  have a64: "a \<noteq> 0" "a < 2 ^ 64" using B by auto
  note M = free_list_insert_mem [OF a64 h64 hh sep48, folded s'_def]
  show "hdr (mem s') a = (hdr (mem s) a)\<lparr>next_ptr := h, prev_ptr := 0, is_free := 1\<rparr>"
    and "h \<noteq> 0 \<Longrightarrow> hdr (mem s') h = (hdr (mem s) h)\<lparr>prev_ptr := a\<rparr>" by (fact M)+
  show other: "hdr (mem s') b = hdr (mem s) b" if "(b, k) \<in> set bs" "b \<noteq> a" "b \<noteq> h" for b k
    using M(3) [of b] sepb [OF that(1) a(1)] that(2,3) hb sepb [OF that(1)] by fastforce
  show "ftr (mem s') (footer_of b k) = ftr (mem s) (footer_of b k)" if b: "(b, k) \<in> set bs" for b k
  proof (rule M(4))
    have k: "64 \<le> k" by (rule region_block(5) [OF D(1) b])
    show "a + 48 \<le> footer_of b k \<or> footer_of b k + 16 \<le> a"
      using region_sep [OF D(1) b a(1)] k B(5) by linarith
    show "h = 0 \<or> h + 48 \<le> footer_of b k \<or> footer_of b k + 16 \<le> h"
      using hb region_sep [OF D(1) b, of h] region_block(5) [OF D(1), of h] k by fastforce
  qed
  show "is_free (hdr (mem s') b) = is_free (hdr (mem s) b)"
    if "(b, k) \<in> set bs" "b \<noteq> a" "b \<notin> H" for b k
    using other [OF that(1,2)] M(2) hb region_block(8) [OF D(1) that(1)] by (cases "b = h") auto
  show "mem s' x = mem s x" if b: "(b, k) \<in> set bs \<union> set (mappings (os s))"
    and c: "b + 48 \<le> x \<or> \<not> free_at (mem s) H b \<and> b \<noteq> a" and x: "b \<le> x" "x < b + k" for b k x
  proof (rule M(5))
    have out: "x < d \<or> d + 48 \<le> x" if d: "(d, l) \<in> set bs" "d = a \<or> free_at (mem s) H d" for d l
    proof (cases "(b, k) \<in> set bs")
      case True
      show ?thesis using region_sep [OF D(1) True d(1)] d(2) c x region_block(5) [OF D(1) d(1)]
        by auto
    next
      case False
      with b have "b + k \<le> d \<or> d + l \<le> b" using mapping_block(4) [OF wf _ d(1)] by auto
      then show ?thesis using x region_block(5) [OF D(1) d(1)] by linarith
    qed
    show "x < a \<or> a + 48 \<le> x" using out [OF a(1)] by simp
    show "h = 0 \<or> x < h \<or> h + 48 \<le> x" using hb out by blast
  qed
qed

lemma free_list_insert_free_at:
  assumes "wfd s bs fs H" "(a, n) \<in> set bs" "a \<in> H" "block_size (hdr (mem s) a) = n"
    and "(b, k) \<in> set bs"
  shows "free_at (mem (free_list_insert a s)) (H - {a}) b \<longleftrightarrow> b = a \<or> free_at (mem s) H b"
  using free_list_insert_blocks(1) [OF assms(1-4)] free_list_insert_blocks(5) [OF assms] assms(3)
  by (cases "b = a") (auto simp: free_at_def)

text \<open>Insertion closes the hole \<open>a\<close> as the first free block of its class.\<close>

lemma free_list_insert_lists:
  assumes wf: "wfd s bs fs H" and a: "(a, n) \<in> set bs" "a \<in> H" "block_size (hdr (mem s) a) = n"
  defines "i \<equiv> get_size_class_index n" and "s' \<equiv> free_list_insert a s"
  shows "lists_ok s' bs (fs[i := a # fs ! i]) (H - {a})"
proof -
  note D = wfdD [OF wf] and L = lists_okD [OF wfdD(3) [OF wf]]
  define h where "h = segregated_heads s ! i"
  note I = free_list_insert_blocks [OF wf a, folded i_def, folded h_def s'_def]
  have i: "i < NUM_SIZE_CLASSES" by (simp add: i_def size_class_less)
  have a0: "a \<noteq> 0" using region_block(8) [OF D(1) a(1)] by simp
  have heads: "segregated_heads s' = (segregated_heads s)[i := a]"
    using free_list_insert_heads [OF a0, of s] by (simp add: s'_def i_def a(3))
  have node: "\<exists>k. (b, k) \<in> set bs \<and> b \<notin> H \<and> b \<noteq> a \<and> get_size_class_index k = j"
    if "j < NUM_SIZE_CLASSES" "b \<in> set (fs ! j)" for j b
    using L(5) [OF that(1)] that(2) a(2) by (auto simp: free_at_def)
  note fr = free_list_insert_free_at [OF wf a, folded s'_def]
  have "dll (mem s') (segregated_heads s' ! j) (fs[i := a # fs ! i] ! j) \<and>
        distinct (fs[i := a # fs ! i] ! j) \<and>
        set (fs[i := a # fs ! i] ! j) =
          {b. \<exists>k. (b, k) \<in> set bs \<and> free_at (mem s') (H - {a}) b \<and> get_size_class_index k = j}"
    if j: "j < NUM_SIZE_CLASSES" for j
  proof (cases "j = i")
    case True
    have nodes: "\<forall>b\<in>set (fs ! i). b \<noteq> a" using node [OF i] by blast
    obtain q where q: "dls (mem s) 0 h (fs ! i) q 0" using L(3) [OF i] by (auto simp: dll_def h_def)
    have "dls (mem s') a h (fs ! i) (if fs ! i = [] then a else q) 0"
    proof (cases "fs ! i")
      case (Cons b vs)
      with q have b: "b = h" "h \<noteq> 0" by auto
      have d: "h \<notin> set vs" using L(4) [OF i] Cons b by simp
      have "hdr (mem s') c = hdr (mem s) c" if "c \<in> set vs" for c
        using I(3) [of c] node [OF i, of c] d that Cons by auto
      moreover have "dls (mem s) 0 h (h # vs) q 0" using q Cons b by simp
      ultimately have "dls (mem s') a h (h # vs) q 0"
        using dls_set_first [of "mem s" 0 h h vs q 0 "mem s'" a] d I(2) [OF b(2)] by simp
      then show ?thesis using Cons b by simp
    qed (use q in simp)
    then have "dll (mem s') a (a # fs ! i)" using I(1) a0 by (auto simp: dll_def)
    moreover have "set (a # fs ! i) =
        {b. \<exists>k. (b, k) \<in> set bs \<and> free_at (mem s') (H - {a}) b \<and> get_size_class_index k = i}"
    proof (intro set_eqI)
      fix b show "b \<in> set (a # fs ! i) \<longleftrightarrow>
        b \<in> {b. \<exists>k. (b, k) \<in> set bs \<and> free_at (mem s') (H - {a}) b \<and> get_size_class_index k = i}"
      proof (cases "b = a")
        case True
        then show ?thesis using fr [OF a(1)] a(1) i_def by auto
      next
        case False
        then show ?thesis using L(5) [OF i, of b] fr [of b] by auto
      qed
    qed
    ultimately show ?thesis using True heads nodes L(1,2,4) i by auto
  next
    case False
    have "hdr (mem s') b = hdr (mem s) b" if b: "b \<in> set (fs ! j)" for b
    proof -
      obtain k where k: "(b, k) \<in> set bs" "b \<noteq> a" "get_size_class_index k = j" using node [OF j b] by auto
      moreover have "b \<noteq> h"
      proof
        assume bh: "b = h"
        then have "h \<noteq> 0" using region_block(8) [OF D(1) k(1)] by simp
        then obtain l where "(h, l) \<in> set bs" "get_size_class_index l = i"
          using lists_headI [OF wf i] by (auto simp: h_def)
        with k bh False region_fun [OF D(1)] show False by blast
      qed
      ultimately show ?thesis using I(3) by blast
    qed
    then have "dll (mem s') (segregated_heads s ! j) (fs ! j)"
      using dll_cong [OF L(3) [OF j]] by simp
    moreover have "set (fs ! j) =
        {b. \<exists>k. (b, k) \<in> set bs \<and> free_at (mem s') (H - {a}) b \<and> get_size_class_index k = j}"
    proof (intro set_eqI)
      fix b show "b \<in> set (fs ! j) \<longleftrightarrow>
        b \<in> {b. \<exists>k. (b, k) \<in> set bs \<and> free_at (mem s') (H - {a}) b \<and> get_size_class_index k = j}"
      proof (cases "b = a")
        case True
        have "\<nexists>k. (a, k) \<in> set bs \<and> get_size_class_index k = j"
          using \<open>j \<noteq> i\<close> region_fun [OF D(1) a(1)] i_def by blast
        then show ?thesis using L(5) [OF j, of a] True by blast
      next
        case False
        then show ?thesis using L(5) [OF j, of b] fr [of b] by auto
      qed
    qed
    ultimately show ?thesis using False heads L(4) [OF j] by simp
  qed
  then show ?thesis using L(1,2) heads by (simp add: lists_ok_def)
qed

lemma free_list_insert_wfd:
  assumes wf: "wfd s (xs @ (a, n) # ys) fs H" and a: "a \<in> H"
    and tags: "tags_ok (mem s) a n" "is_mmap (hdr (mem s) a) = 0"
    and left: "xs \<noteq> [] \<longrightarrow> \<not> free_at (mem s) H (fst (last xs))"
    and right: "ys \<noteq> [] \<longrightarrow> \<not> free_at (mem s) H (fst (hd ys))"
  shows "wfd (free_list_insert a s) (xs @ (a, n) # ys)
           (fs[get_size_class_index n := a # fs ! get_size_class_index n]) (H - {a})"
proof -
  let ?bs = "xs @ (a, n) # ys" and ?s' = "free_list_insert a s"
  note D = wfdD [OF wf]
  have m: "(a, n) \<in> set ?bs" by simp
  have sz: "block_size (hdr (mem s) a) = n" using tags(1) by (simp add: tags_ok_def)
  note I = free_list_insert_blocks [OF wf m a sz]
  note fr = free_list_insert_free_at [OF wf m a sz]
  have "blk_ok (mem ?s') b k" if b: "(b, k) \<in> set ?bs" "b \<notin> H - {a}" for b k
  proof (cases "b = a")
    case True
    then have "k = n" using region_fun [OF D(1) m, of k] b(1) by blast
    with True tags I(1) I(4) [OF m] show ?thesis by (auto simp: blk_ok_def tags_ok_def)
  next
    case False
    then have ok: "blk_ok (mem s) b k" using D(5) [OF b(1)] b(2) by simp
    show ?thesis
    proof (cases "b = segregated_heads s ! get_size_class_index n")
      case True
      with region_block(8) [OF D(1) b(1)] I(2)
      have "hdr (mem ?s') b = (hdr (mem s) b)\<lparr>prev_ptr := a\<rparr>" by simp
      with ok I(4) [OF b(1)] show ?thesis by (simp add: blk_ok_def tags_ok_def)
    next
      case False
      with \<open>b \<noteq> a\<close> show ?thesis using same_blk(2) [OF I(3) [OF b(1)] I(4) [OF b(1)]] ok by simp
    qed
  qed
  moreover have "no_adj (free_at (mem ?s') (H - {a})) ?bs"
  proof -
    have "no_adj (free_at (mem s) H) xs" "no_adj (free_at (mem s) H) ys"
      using D(4) by (auto simp: no_adj_append no_adj_Cons)
    moreover have "\<forall>x\<in>set xs \<union> set ys. fst x \<noteq> a"
      using region_distinct [OF D(1)] by (auto simp: image_iff)
    then have fr': "\<forall>x\<in>set xs \<union> set ys. free_at (mem ?s') (H - {a}) (fst x) \<longleftrightarrow> free_at (mem s) H (fst x)"
      using fr [of "fst x" "snd x" for x] by auto
    ultimately have "no_adj (free_at (mem ?s') (H - {a})) xs" "no_adj (free_at (mem ?s') (H - {a})) ys"
      by (auto elim!: no_adj_mono)
    then show ?thesis using left right fr' by (auto simp: no_adj_append no_adj_Cons)
  qed
  moreover have "mappings_ok ?s'"
  proof (rule mappings_ok_same [OF D(2)])
    fix b k x assume x: "(b, k) \<in> set (mappings (os s))" "b \<le> x" "x < b + k"
    have "\<not> free_at (mem s) H b" using mapping_block(3) [OF wf x(1)] by (simp add: free_at_def map_ok_def)
    moreover have "b \<noteq> a"
      using mapping_block(1) [OF wf x(1)] mapping_block(4) [OF wf x(1) m] region_block(5) [OF D(1) m]
      by (auto simp: MMAP_THRESHOLD_def)
    ultimately show "mem ?s' x = mem s x" using I(6) [of b k x] x by blast
  qed simp
  ultimately show ?thesis using D(1) free_list_insert_lists [OF wf m a sz]
    by (auto simp: wfd_def region_ok_def)
qed

subsection \<open>Removal\<close>

lemma unlink_mem:
  assumes "p = prev_ptr (hdr (mem s) a)" "q = next_ptr (hdr (mem s) a)"
    and sep: "p = 0 \<or> a + 48 \<le> p \<or> p + 48 \<le> a" "q = 0 \<or> a + 48 \<le> q \<or> q + 48 \<le> a"
      "p = 0 \<or> q = 0 \<or> p + 48 \<le> q \<or> q + 48 \<le> p"
  defines "s' \<equiv> unlink a s"
  shows "hdr (mem s') a = (hdr (mem s) a)\<lparr>next_ptr := 0, prev_ptr := 0, is_free := 0\<rparr>"
    and "p \<noteq> 0 \<Longrightarrow> hdr (mem s') p = (hdr (mem s) p)\<lparr>next_ptr := q\<rparr>"
    and "q \<noteq> 0 \<Longrightarrow> hdr (mem s') q = (hdr (mem s) q)\<lparr>prev_ptr := p\<rparr>"
    and "\<And>b. a + 48 \<le> b \<or> b + 48 \<le> a \<Longrightarrow> p = 0 \<or> p + 48 \<le> b \<or> b + 48 \<le> p \<Longrightarrow>
           q = 0 \<or> q + 48 \<le> b \<or> b + 48 \<le> q \<Longrightarrow> hdr (mem s') b = hdr (mem s) b"
    and "\<And>f. a + 48 \<le> f \<or> f + 16 \<le> a \<Longrightarrow> p = 0 \<or> p + 48 \<le> f \<or> f + 16 \<le> p \<Longrightarrow>
           q = 0 \<or> q + 48 \<le> f \<or> f + 16 \<le> q \<Longrightarrow> ftr (mem s') f = ftr (mem s) f"
    and "\<And>x. x < a \<or> a + 48 \<le> x \<Longrightarrow> p = 0 \<or> x < p \<or> p + 48 \<le> x \<Longrightarrow>
           q = 0 \<or> x < q \<or> q + 48 \<le> x \<Longrightarrow> mem s' x = mem s x"
proof -
  have pq: "p < 2 ^ 64" "q < 2 ^ 64" using assms hdr_bounds by simp_all
  then have h: "p mod 2 ^ 64 = p" "q mod 2 ^ 64 = q" by simp_all
  have sep': "p = 0 \<or> q = 0 \<or> q + 48 \<le> p \<or> p + 48 \<le> q" using sep(3) by blast
  define m1 where "m1 = (if p \<noteq> 0 then set_next p q (mem s) else mem s)"
  have m: "mem s' = set_is_free a 0 (set_prev a 0 (set_next a 0
      (if q \<noteq> 0 then set_prev q p m1 else m1)))"
    by (simp add: s'_def m1_def unlink_def Let_def assms(1,2))
  show "hdr (mem s') a = (hdr (mem s) a)\<lparr>next_ptr := 0, prev_ptr := 0, is_free := 0\<rparr>"
    using sep by (auto simp: m m1_def mem_simps)
  show "hdr (mem s') p = (hdr (mem s) p)\<lparr>next_ptr := q\<rparr>" if "p \<noteq> 0"
    using sep sep' that by (cases "q = 0") (simp_all add: m m1_def mem_simps h [simplified])
  show "hdr (mem s') q = (hdr (mem s) q)\<lparr>prev_ptr := p\<rparr>" if "q \<noteq> 0"
    using sep that by (cases "p = 0") (simp_all add: m m1_def mem_simps h [simplified])
  show "hdr (mem s') b = hdr (mem s) b" if "a + 48 \<le> b \<or> b + 48 \<le> a"
    "p = 0 \<or> p + 48 \<le> b \<or> b + 48 \<le> p" "q = 0 \<or> q + 48 \<le> b \<or> b + 48 \<le> q" for b
    using that by (cases "p = 0"; cases "q = 0") (simp_all add: m m1_def mem_simps)
  show "ftr (mem s') f = ftr (mem s) f" if "a + 48 \<le> f \<or> f + 16 \<le> a"
    "p = 0 \<or> p + 48 \<le> f \<or> f + 16 \<le> p" "q = 0 \<or> q + 48 \<le> f \<or> f + 16 \<le> q" for f
    using that by (cases "p = 0"; cases "q = 0") (simp_all add: m m1_def mem_simps)
  show "mem s' x = mem s x" if "x < a \<or> a + 48 \<le> x"
    "p = 0 \<or> x < p \<or> p + 48 \<le> x" "q = 0 \<or> x < q \<or> q + 48 \<le> x" for x
    using that by (cases "p = 0"; cases "q = 0") (simp_all add: m m1_def mem_simps)
qed

lemma unlink_rest [simp]:
  "os (unlink a s) = os s" "heap_start (unlink a s) = heap_start s"
  "initial_break (unlink a s) = initial_break s"
  "last_allocator_break (unlink a s) = last_allocator_break s"
  "global_stats (unlink a s) = global_stats s"
  "alloc_mutex (unlink a s) = alloc_mutex s" "errno (unlink a s) = errno s"
  by (simp_all add: unlink_def Let_def)

lemma unlink_heads:
  "segregated_heads (unlink a s) =
     (if prev_ptr (hdr (mem s) a) \<noteq> 0 then segregated_heads s
      else (segregated_heads s)[get_size_class_index (block_size (hdr (mem s) a)) :=
              next_ptr (hdr (mem s) a)])"
  by (simp add: unlink_def Let_def)

text \<open>A free block in the list of its class: what its links and its neighbours' links are.\<close>

lemma free_block_links:
  assumes wf: "wfd s bs fs H" and a: "(a, n) \<in> set bs" "free_at (mem s) H a"
  defines "i \<equiv> get_size_class_index n"
  obtains us vs where "fs ! i = us @ a # vs"
    "prev_ptr (hdr (mem s) a) = (if us = [] then 0 else last us)"
    "next_ptr (hdr (mem s) a) = (if vs = [] then 0 else hd vs)"
    "us = [] \<Longrightarrow> segregated_heads s ! i = a"
    "us \<noteq> [] \<Longrightarrow> next_ptr (hdr (mem s) (last us)) = a"
    "vs \<noteq> [] \<Longrightarrow> prev_ptr (hdr (mem s) (hd vs)) = a"
    "a \<notin> set us" "a \<notin> set vs" "set us \<inter> set vs = {}" "distinct us" "distinct vs"
    "0 \<notin> set us" "0 \<notin> set vs"
proof -
  note L = lists_okD [OF wfdD(3) [OF wf]]
  have i: "i < NUM_SIZE_CLASSES" by (simp add: i_def size_class_less)
  have "a \<in> set (fs ! i)" using L(5) [OF i] a i_def by blast
  then obtain us vs where uv: "fs ! i = us @ a # vs" by (auto simp: in_set_conv_decomp)
  obtain q q' y where q: "dls (mem s) 0 (segregated_heads s ! i) us q' a"
      "prev_ptr (hdr (mem s) a) = q'" "dls (mem s) a (next_ptr (hdr (mem s) a)) vs q 0"
    using L(3) [OF i] by (auto simp: dll_def uv dls_append)
  have next_last: "next_ptr (hdr (mem s) (last us)) = a" if "us \<noteq> []"
    using q(1) that by (cases us rule: rev_cases) (auto simp: dls_append)
  have "prev_ptr (hdr (mem s) (hd vs)) = a" if "vs \<noteq> []" using q(3) that by (cases vs) auto
  with that [OF uv] q dls_nonzero [OF q(1)] dls_nonzero [OF q(3)] dls_last [OF q(1)] dls_first [OF q(1)] dls_first [OF q(3)] next_last L(4) [OF i] uv
  show ?thesis by auto
qed

lemma free_list_remove_unlinks:
  assumes wf: "wfd s bs fs H" and K: "kernel_ok K" and a: "(a, n) \<in> set bs" "free_at (mem s) H a"
  shows "free_list_remove K a s = Inr (unlink a s)"
proof -
  note B = region_block [OF wfdD(1) [OF wf] a(1)]
  have ok: "blk_ok (mem s) a n" "is_free (hdr (mem s) a) = 1"
    using wfdD(5) [OF wf a(1)] a(2) by (auto simp: free_at_def)
  show ?thesis
  proof (rule free_block_links [OF wf a])
    fix us vs
    assume "prev_ptr (hdr (mem s) a) = (if us = [] then 0 else last us)"
      "next_ptr (hdr (mem s) a) = (if vs = [] then 0 else hd vs)"
      "us = [] \<Longrightarrow> segregated_heads s ! get_size_class_index n = a"
      "us \<noteq> [] \<Longrightarrow> next_ptr (hdr (mem s) (last us)) = a"
      "vs \<noteq> [] \<Longrightarrow> prev_ptr (hdr (mem s) (hd vs)) = a" "0 \<notin> set us"
    moreover have "us \<noteq> [] \<Longrightarrow> last us \<noteq> 0" using \<open>0 \<notin> set us\<close> last_in_set by metis
    moreover have "\<not> cur_brk (os s) - a < n" "\<not> cur_brk (os s) \<le> a" using B(4,5) by auto
    ultimately show ?thesis using ok(1) B(5,8)
      by (cases "us = []"; cases "vs = []")
        (simp_all add: free_list_remove_def Let_def blk_ok_def tags_ok_def ok(2) kernel_okD(1) [OF K])
  qed
qed

text \<open>The effect of an unlinking on the blocks of a well-formed heap.\<close>

lemma unlink_blocks:
  assumes wf: "wfd s bs fs H" and a: "(a, n) \<in> set bs" "free_at (mem s) H a"
  defines "p \<equiv> prev_ptr (hdr (mem s) a)" and "q \<equiv> next_ptr (hdr (mem s) a)" and "s' \<equiv> unlink a s"
  shows "hdr (mem s') a = (hdr (mem s) a)\<lparr>next_ptr := 0, prev_ptr := 0, is_free := 0\<rparr>"
    and "p \<noteq> 0 \<Longrightarrow> hdr (mem s') p = (hdr (mem s) p)\<lparr>next_ptr := q\<rparr>"
    and "q \<noteq> 0 \<Longrightarrow> hdr (mem s') q = (hdr (mem s) q)\<lparr>prev_ptr := p\<rparr>"
    and "\<And>b k. (b, k) \<in> set bs \<Longrightarrow> b \<noteq> a \<Longrightarrow> b \<noteq> p \<Longrightarrow> b \<noteq> q \<Longrightarrow> hdr (mem s') b = hdr (mem s) b"
    and "\<And>b k. (b, k) \<in> set bs \<Longrightarrow> ftr (mem s') (footer_of b k) = ftr (mem s) (footer_of b k)"
    and "\<And>b k. (b, k) \<in> set bs \<Longrightarrow> b \<noteq> a \<Longrightarrow>
           \<exists>v w. hdr (mem s') b = (hdr (mem s) b)\<lparr>next_ptr := v, prev_ptr := w\<rparr>"
    and "\<And>b k x. (b, k) \<in> set bs \<union> set (mappings (os s)) \<Longrightarrow> b + 48 \<le> x \<or> \<not> free_at (mem s) H b
          \<Longrightarrow> b \<le> x \<Longrightarrow> x < b + k \<Longrightarrow> mem s' x = mem s x"
proof -
  note D = wfdD [OF wf] and L = lists_okD [OF wfdD(3) [OF wf]]
  define i where "i = get_size_class_index n"
  have i: "i < NUM_SIZE_CLASSES" by (simp add: i_def size_class_less)
  obtain us vs where uv: "fs ! i = us @ a # vs" "p = (if us = [] then 0 else last us)"
      "q = (if vs = [] then 0 else hd vs)" "a \<notin> set us" "a \<notin> set vs" "set us \<inter> set vs = {}"
    by (rule free_block_links [OF wf a]) (use that in \<open>auto simp: i_def p_def q_def\<close>)
  have p: "p = 0 \<or> p \<in> set us" and q: "q = 0 \<or> q \<in> set vs" using uv(2,3) by auto
  have node: "\<exists>l. (b, l) \<in> set bs \<and> free_at (mem s) H b" if "b \<in> set us \<union> set vs" for b
    using L(5) [OF i, of b] uv(1) that by auto
  have pb: "\<exists>l. (p, l) \<in> set bs \<and> free_at (mem s) H p" if "p \<noteq> 0" using p node that by blast
  have qb: "\<exists>l. (q, l) \<in> set bs \<and> free_at (mem s) H q" if "q \<noteq> 0" using q node that by blast
  have sepb: "b = c \<or> b + 64 \<le> c \<or> c + 64 \<le> b" if "(b, k) \<in> set bs" "(c, l) \<in> set bs" for b c k l
    using region_sep [OF D(1) that] region_block(5) [OF D(1) that(1)]
      region_block(5) [OF D(1) that(2)] by linarith
  have neq: "p \<noteq> 0 \<Longrightarrow> p \<noteq> a" "q \<noteq> 0 \<Longrightarrow> q \<noteq> a" "p \<noteq> 0 \<Longrightarrow> q \<noteq> 0 \<Longrightarrow> p \<noteq> q"
    using p q uv(4-6) by auto
  have sp: "p = 0 \<or> a + 48 \<le> p \<or> p + 48 \<le> a" using pb neq(1) sepb [OF a(1)] by fastforce
  have sq: "q = 0 \<or> a + 48 \<le> q \<or> q + 48 \<le> a" using qb neq(2) sepb [OF a(1)] by fastforce
  have spq: "p = 0 \<or> q = 0 \<or> p + 48 \<le> q \<or> q + 48 \<le> p" using pb qb neq(3) sepb by fastforce
  note M = unlink_mem [OF p_def [THEN meta_eq_to_obj_eq] q_def [THEN meta_eq_to_obj_eq] sp sq spq, folded s'_def]
  show Ma: "hdr (mem s') a = (hdr (mem s) a)\<lparr>next_ptr := 0, prev_ptr := 0, is_free := 0\<rparr>"
    and Mp: "p \<noteq> 0 \<Longrightarrow> hdr (mem s') p = (hdr (mem s) p)\<lparr>next_ptr := q\<rparr>"
    and Mq: "q \<noteq> 0 \<Longrightarrow> hdr (mem s') q = (hdr (mem s) q)\<lparr>prev_ptr := p\<rparr>" by (fact M(1-3))+
  show other: "hdr (mem s') b = hdr (mem s) b" if b: "(b, k) \<in> set bs" "b \<noteq> a" "b \<noteq> p" "b \<noteq> q" for b k
  proof (rule M(4))
    show "a + 48 \<le> b \<or> b + 48 \<le> a" using sepb [OF a(1) b(1)] b(2) by linarith
    show "p = 0 \<or> p + 48 \<le> b \<or> b + 48 \<le> p" using pb sepb [OF b(1)] b(3) by fastforce
    show "q = 0 \<or> q + 48 \<le> b \<or> b + 48 \<le> q" using qb sepb [OF b(1)] b(4) by fastforce
  qed
  have foot: "c + 48 \<le> footer_of b k \<or> footer_of b k + 16 \<le> c"
    if "(b, k) \<in> set bs" "(c, l) \<in> set bs" for b k c l
    using region_sep [OF D(1) that] region_block(5) [OF D(1) that(1)]
      region_block(5) [OF D(1) that(2)] by linarith
  show "ftr (mem s') (footer_of b k) = ftr (mem s) (footer_of b k)" if b: "(b, k) \<in> set bs" for b k
    by (rule M(5)) (use foot [OF b] a(1) pb qb in blast)+
  show "\<exists>v w. hdr (mem s') b = (hdr (mem s) b)\<lparr>next_ptr := v, prev_ptr := w\<rparr>"
    if b: "(b, k) \<in> set bs" "b \<noteq> a" for b k
  proof -
    have b0: "b \<noteq> 0" using region_block(8) [OF D(1) b(1)] by simp
    consider "b = p" | "b = q" | "b \<noteq> p" "b \<noteq> q" by blast
    then show ?thesis
    proof cases
      case 1
      then have "hdr (mem s') b = (hdr (mem s) b)\<lparr>next_ptr := q, prev_ptr := prev_ptr (hdr (mem s) b)\<rparr>"
        using Mp b0 by simp
      then show ?thesis by blast
    next
      case 2
      then have "hdr (mem s') b = (hdr (mem s) b)\<lparr>next_ptr := next_ptr (hdr (mem s) b), prev_ptr := p\<rparr>"
        using Mq b0 by simp
      then show ?thesis by blast
    next
      case 3
      then have "hdr (mem s') b =
          (hdr (mem s) b)\<lparr>next_ptr := next_ptr (hdr (mem s) b), prev_ptr := prev_ptr (hdr (mem s) b)\<rparr>"
        using other [OF b] by simp
      then show ?thesis by blast
    qed
  qed
  show "mem s' x = mem s x" if b: "(b, k) \<in> set bs \<union> set (mappings (os s))"
    and c: "b + 48 \<le> x \<or> \<not> free_at (mem s) H b" and x: "b \<le> x" "x < b + k" for b k x
  proof (rule M(6))
    have out: "x < d \<or> d + 48 \<le> x" if d: "(d, l) \<in> set bs" "free_at (mem s) H d" for d l
    proof (cases "(b, k) \<in> set bs")
      case True
      show ?thesis using region_sep [OF D(1) True d(1)] d(2) c x region_block(5) [OF D(1) d(1)]
        by auto
    next
      case False
      with b have "b + k \<le> d \<or> d + l \<le> b" using mapping_block(4) [OF wf _ d(1)] by auto
      then show ?thesis using x region_block(5) [OF D(1) d(1)] by linarith
    qed
    show "x < a \<or> a + 48 \<le> x" using out [OF a] .
    show "p = 0 \<or> x < p \<or> p + 48 \<le> x" "q = 0 \<or> x < q \<or> q + 48 \<le> x" using pb qb out by blast+
  qed
qed

lemma unlink_free_at:
  assumes "wfd s bs fs H" "(a, n) \<in> set bs" "free_at (mem s) H a" "(b, k) \<in> set bs"
  shows "free_at (mem (unlink a s)) (insert a H) b \<longleftrightarrow> b \<noteq> a \<and> free_at (mem s) H b"
  using unlink_blocks(6) [OF assms(1-4)] by (cases "b = a") (auto simp: free_at_def)

lemma unlink_lists:
  assumes wf: "wfd s bs fs H" and a: "(a, n) \<in> set bs" "free_at (mem s) H a"
  defines "i \<equiv> get_size_class_index n" and "s' \<equiv> unlink a s"
  shows "lists_ok s' bs (fs[i := remove1 a (fs ! i)]) (insert a H)"
proof -
  note D = wfdD [OF wf] and L = lists_okD [OF wfdD(3) [OF wf]]
  define p q where "p = prev_ptr (hdr (mem s) a)" and "q = next_ptr (hdr (mem s) a)"
  note U = unlink_blocks [OF wf a, folded p_def q_def s'_def]
  note fr = unlink_free_at [OF wf a, folded s'_def]
  have i: "i < NUM_SIZE_CLASSES" by (simp add: i_def size_class_less)
  have sz: "block_size (hdr (mem s) a) = n"
    using D(5) [OF a(1)] a(2) by (auto simp: free_at_def blk_ok_def tags_ok_def)
  obtain us vs where uv: "fs ! i = us @ a # vs" "p = (if us = [] then 0 else last us)"
      "q = (if vs = [] then 0 else hd vs)" "us = [] \<Longrightarrow> segregated_heads s ! i = a"
      "a \<notin> set us" "a \<notin> set vs" "set us \<inter> set vs = {}" "distinct us" "distinct vs"
      "0 \<notin> set us" "0 \<notin> set vs"
    by (rule free_block_links [OF wf a]) (use that in \<open>auto simp: i_def p_def q_def\<close>)
  have rem: "remove1 a (fs ! i) = us @ vs" using uv(1,5) by (simp add: remove1_append)
  have heads: "segregated_heads s' = (if us = [] then (segregated_heads s)[i := q] else segregated_heads s)"
    using uv(2,10) by (cases us rule: rev_cases) (simp_all add: s'_def unlink_heads sz i_def flip: p_def q_def)
  have same: "hdr (mem s') b = hdr (mem s) b"
    if "j < NUM_SIZE_CLASSES" "b \<in> set (fs ! j)" "b \<noteq> a" "b \<noteq> p" "b \<noteq> q" for b j
    using U(4) [of b] L(5) [OF that(1)] that(2-) by blast
  have nxt: "dls (mem s') p q vs (if vs = [] then p else last vs) 0"
  proof (cases vs)
    case (Cons v ws)
    have q: "q = v" "q \<noteq> 0" using uv(3,11) Cons by auto
    obtain e where "dls (mem s) a q vs e 0"
      using L(3) [OF i] by (auto simp: dll_def uv(1) dls_append q_def)
    moreover have "p \<notin> set vs" using uv(2,7,11) by (cases us rule: rev_cases) auto
    then have "hdr (mem s') b = hdr (mem s) b" if "b \<in> set ws" for b
      using same [OF i, of b] that uv(1,6,9) Cons q by auto
    ultimately have "dls (mem s') p q (v # ws) e 0"
      using dls_set_first [of "mem s" a q v ws e 0 "mem s'" p] U(3) [OF q(2)] q uv(9) Cons by simp
    then show ?thesis using Cons dls_last by fastforce
  qed (use uv(3) in simp)
  have prv: "dls (mem s') 0 (segregated_heads s' ! i) us p q"
  proof (cases us rule: rev_cases)
    case (snoc ws u)
    have p: "p = u" "p \<noteq> 0" using uv(2,10) snoc by auto
    have "dls (mem s) 0 (segregated_heads s ! i) us p a"
      using L(3) [OF i] by (auto simp: dll_def uv(1) dls_append p_def)
    moreover have "q \<notin> set us" using uv(3,7,10) by (cases vs) auto
    then have "hdr (mem s') b = hdr (mem s) b" if "b \<in> set ws" for b
      using same [OF i, of b] that uv(1,5,8) snoc p by auto
    ultimately have "dls (mem s') 0 (segregated_heads s ! i) (ws @ [u]) p q"
      using dls_set_last [of "mem s" 0 _ ws u p a "mem s'" q] U(2) [OF p(2)] p uv(8) snoc by simp
    then show ?thesis using heads snoc by simp
  qed (use uv heads i L(1) in simp)
  have "dll (mem s') (segregated_heads s' ! j) (fs[i := us @ vs] ! j) \<and>
        distinct (fs[i := us @ vs] ! j) \<and>
        set (fs[i := us @ vs] ! j) =
          {b. \<exists>k. (b, k) \<in> set bs \<and> free_at (mem s') (insert a H) b \<and> get_size_class_index k = j}"
    if j: "j < NUM_SIZE_CLASSES" for j
  proof (cases "j = i")
    case True
    have "dll (mem s') (segregated_heads s' ! i) (us @ vs)"
      using prv nxt by (auto simp: dll_def dls_append)
    moreover have "b \<in> set (us @ vs) \<longleftrightarrow>
        (\<exists>k. (b, k) \<in> set bs \<and> free_at (mem s') (insert a H) b \<and> get_size_class_index k = i)" for b
      using L(5) [OF i, of b] fr [of b] uv(1,5,6) by auto
    ultimately show ?thesis using True uv L(2) i by auto
  next
    case False
    have other: "hdr (mem s') b = hdr (mem s) b" if b: "b \<in> set (fs ! j)" for b
    proof (rule same [OF j b])
      obtain k where k: "(b, k) \<in> set bs" "get_size_class_index k = j" using L(5) [OF j] b by blast
      have "b \<notin> set (fs ! i)" using L(5) [OF i, of b] region_fun [OF D(1) k(1)] k(2) False by blast
      moreover have "b \<noteq> 0" using region_block(8) [OF D(1) k(1)] by simp
      ultimately show "b \<noteq> a" "b \<noteq> p" "b \<noteq> q" using uv(1-3) by (auto split: if_splits)
    qed
    have "dll (mem s') (segregated_heads s ! j) (fs ! j)"
      using dll_cong [OF L(3) [OF j]] other by simp
    moreover have "a \<notin> set (fs ! j)" using L(5) [OF j, of a] region_fun [OF D(1) a(1)] False i_def by blast
    then have "b \<in> set (fs ! j) \<longleftrightarrow>
        (\<exists>k. (b, k) \<in> set bs \<and> free_at (mem s') (insert a H) b \<and> get_size_class_index k = j)" for b
      using L(5) [OF j, of b] fr [of b] by blast
    ultimately show ?thesis using False heads L(4) [OF j] by auto
  qed
  then show ?thesis using L(1,2) heads rem by (simp add: lists_ok_def)
qed

text \<open>Removal turns the free block \<open>a\<close> into a hole marked as allocated.\<close>

lemma unlink_wfd:
  assumes wf: "wfd s bs fs H" and a: "(a, n) \<in> set bs" "free_at (mem s) H a"
  defines "i \<equiv> get_size_class_index n"
  shows "wfd (unlink a s) bs (fs[i := remove1 a (fs ! i)]) (insert a H)"
proof -
  let ?s' = "unlink a s"
  note D = wfdD [OF wf] and U = unlink_blocks [OF wf a]
  have "blk_ok (mem ?s') b k" if b: "(b, k) \<in> set bs" "b \<notin> insert a H" for b k
    using D(5) [OF b(1)] U(5,6) [OF b(1)] b(2) by (auto simp: blk_ok_def tags_ok_def)
  moreover have "no_adj (free_at (mem ?s') (insert a H)) bs"
    using D(4) by (rule no_adj_mono) (use unlink_free_at [OF wf a] in auto)
  moreover have "mappings_ok ?s'"
  proof (rule mappings_ok_same [OF D(2)])
    fix b k x assume x: "(b, k) \<in> set (mappings (os s))" "b \<le> x" "x < b + k"
    have "\<not> free_at (mem s) H b" using mapping_block(3) [OF wf x(1)] by (simp add: free_at_def map_ok_def)
    then show "mem ?s' x = mem s x" using U(7) [of b k x] x by blast
  qed simp
  ultimately show ?thesis using D(1) unlink_lists [OF wf a]
    by (auto simp: wfd_def region_ok_def i_def)
qed

subsection \<open>Search\<close>

text \<open>The scan of one class as a function of the list of its nodes.\<close>

fun best_of :: "mem \<Rightarrow> nat \<Rightarrow> addr list \<Rightarrow> addr \<Rightarrow> nat \<Rightarrow> addr" where
  "best_of m t [] best md = best"
| "best_of m t (a # as) best md =
     (if t \<le> block_size (hdr m a) \<and> block_size (hdr m a) - t < md then
        if block_size (hdr m a) - t = 0 then a
        else best_of m t as a (block_size (hdr m a) - t)
      else best_of m t as best md)"

lemma scan_class_best:
  "dls m p x as q 0 \<Longrightarrow> \<forall>a\<in>set as. magic_header (hdr m a) = ALLOC_MAGIC_HEADER \<Longrightarrow>
     scan_class m t x best md = Some (Inr (best_of m t as best md))"
proof (induction as arbitrary: p x best md)
  case Nil
  then show ?case by (subst scan_class.simps) simp
next
  case (Cons a as)
  then have "dls m a (next_ptr (hdr m a)) as q 0" and "x = a" "a \<noteq> 0"
    "magic_header (hdr m a) = ALLOC_MAGIC_HEADER" by auto
  with Cons.IH [of a "next_ptr (hdr m a)"] Cons.prems(2) show ?case
    by (subst scan_class.simps) simp
qed

lemma best_of_cases: "best_of m t as best md \<in> insert best (set as)"
proof (induction as arbitrary: best md)
  case (Cons a as)
  show ?case using Cons [of a "block_size (hdr m a) - t"] Cons [of best md] by auto
qed simp

lemma best_of_fit:
  "best_of m t as best md = best \<or> t \<le> block_size (hdr m (best_of m t as best md))"
proof (induction as arbitrary: best md)
  case (Cons a as)
  show ?case using Cons [of a "block_size (hdr m a) - t"] Cons [of best md] by auto
qed simp

text \<open>
  If the current best is at distance \<open>md\<close> (or there is none), the result is at most as far
  as every fitting node.
\<close>

lemma best_of_least:
  assumes "best = 0 \<or> t \<le> block_size (hdr m best) \<and> md = block_size (hdr m best) - t"
    and "0 \<notin> set as"
  shows "(\<forall>a\<in>set as. t \<le> block_size (hdr m a) \<longrightarrow> block_size (hdr m a) - t < md \<or> best \<noteq> 0 \<longrightarrow>
           best_of m t as best md \<noteq> 0 \<and> block_size (hdr m (best_of m t as best md)) \<le> block_size (hdr m a))
       \<and> (best \<noteq> 0 \<longrightarrow> best_of m t as best md \<noteq> 0 \<and>
           block_size (hdr m (best_of m t as best md)) \<le> block_size (hdr m best))"
  using assms
proof (induction as arbitrary: best md)
  case (Cons b as)
  show ?case
  proof (cases "t \<le> block_size (hdr m b) \<and> block_size (hdr m b) - t < md")
    case True
    show ?thesis
    proof (cases "block_size (hdr m b) - t = 0")
      case False
      have "b \<noteq> 0" using Cons.prems(2) by auto
      with Cons.IH [of b "block_size (hdr m b) - t"] Cons.prems True False show ?thesis
        by auto
    qed (use True Cons.prems in auto)
  next
    case False
    then show ?thesis using Cons.IH [of best md] Cons.prems by (auto; fastforce)
  qed
qed simp

text \<open>What scanning class \<open>i\<close> finds.\<close>

lemma scan_class_wfd:
  assumes wf: "wfd s bs fs H" and i: "i < NUM_SIZE_CLASSES"
  obtains a where "scan_class (mem s) t (segregated_heads s ! i) 0 SIZE_MAX = Some (Inr a)"
    "a \<noteq> 0 \<Longrightarrow> \<exists>n. (a, n) \<in> set bs \<and> free_at (mem s) H a \<and> t \<le> n \<and> get_size_class_index n = i"
    "\<And>b k. (b, k) \<in> set bs \<Longrightarrow> free_at (mem s) H b \<Longrightarrow> t \<le> k \<Longrightarrow> get_size_class_index k = i \<Longrightarrow>
       a \<noteq> 0 \<and> block_size (hdr (mem s) a) \<le> k"
proof -
  note D = wfdD [OF wf] and L = lists_okD [OF wfdD(3) [OF wf]]
  let ?m = "mem s" and ?as = "fs ! i"
  define a where "a = best_of ?m t ?as 0 SIZE_MAX"
  have ok: "block_size (hdr ?m b) = k \<and> magic_header (hdr ?m b) = ALLOC_MAGIC_HEADER"
    if "(b, k) \<in> set bs" "free_at ?m H b" for b k
    using D(5) that by (auto simp: free_at_def blk_ok_def tags_ok_def)
  obtain q where q: "dls ?m 0 (segregated_heads s ! i) ?as q 0" using L(3) [OF i] by (auto simp: dll_def)
  have nodes: "\<exists>k. (b, k) \<in> set bs \<and> free_at ?m H b \<and> get_size_class_index k = i" if "b \<in> set ?as" for b
    using L(5) [OF i] that by blast
  have "scan_class ?m t (segregated_heads s ! i) 0 SIZE_MAX = Some (Inr a)"
    unfolding a_def by (rule scan_class_best [OF q]) (use nodes ok in blast)
  moreover have "\<exists>n. (a, n) \<in> set bs \<and> free_at ?m H a \<and> t \<le> n \<and> get_size_class_index n = i" if "a \<noteq> 0"
  proof -
    have "a \<in> set ?as" using best_of_cases [of ?m t ?as 0 SIZE_MAX] that by (simp add: a_def)
    then obtain n where n: "(a, n) \<in> set bs" "free_at ?m H a" "get_size_class_index n = i"
      using nodes by blast
    moreover have "t \<le> block_size (hdr ?m a)"
      using best_of_fit [of ?m t ?as 0 SIZE_MAX] that by (simp add: a_def)
    ultimately show ?thesis using ok by blast
  qed
  moreover have "a \<noteq> 0 \<and> block_size (hdr ?m a) \<le> k"
    if b: "(b, k) \<in> set bs" "free_at ?m H b" "t \<le> k" "get_size_class_index k = i" for b k
  proof -
    have "b \<in> set ?as" using L(5) [OF i] b by blast
    moreover have "k - t < SIZE_MAX" using region_block(9) [OF D(1) b(1)] by (simp add: SIZE_MAX_def)
    ultimately show ?thesis
      using best_of_least [of 0 t ?m SIZE_MAX ?as] ok [OF b(1,2)] b(3) dls_nonzero [OF q]
      by (auto simp: a_def)
  qed
  ultimately show ?thesis by (rule that)
qed

lemma find_fit_from_spec:
  assumes wf: "wfd s bs fs H" and K: "kernel_ok K"
    and low: "\<And>b k. (b, k) \<in> set bs \<Longrightarrow> free_at (mem s) H b \<Longrightarrow> t \<le> k \<Longrightarrow> i \<le> get_size_class_index k"
  shows "(find_fit_from K t i s = Inr (0, s) \<and> (\<forall>(b, k)\<in>set bs. free_at (mem s) H b \<longrightarrow> k < t)) \<or>
     (\<exists>a n. find_fit_from K t i s = Inr (a, unlink a s) \<and> (a, n) \<in> set bs \<and> free_at (mem s) H a \<and>
        t \<le> n \<and> (\<forall>(b, k)\<in>set bs. free_at (mem s) H b \<longrightarrow> t \<le> k \<longrightarrow> n \<le> k))"
  using low
proof (induction "NUM_SIZE_CLASSES - i" arbitrary: i)
  case 0
  then have "\<not> i < NUM_SIZE_CLASSES" by simp
  moreover have "k < t" if "(b, k) \<in> set bs" "free_at (mem s) H b" for b k
  proof (rule ccontr)
    assume "\<not> k < t"
    with 0(2) [OF that] size_class_less [of k] \<open>\<not> i < NUM_SIZE_CLASSES\<close> show False by simp
  qed
  ultimately show ?case by (auto simp: find_fit_from.simps [of K t i s])
next
  case (Suc d)
  then have i: "i < NUM_SIZE_CLASSES" by simp
  show ?case
  proof (rule scan_class_wfd [OF wf i, of t])
    fix a
    assume sc: "scan_class (mem s) t (segregated_heads s ! i) 0 SIZE_MAX = Some (Inr a)"
      and fit: "a \<noteq> 0 \<Longrightarrow> \<exists>n. (a, n) \<in> set bs \<and> free_at (mem s) H a \<and> t \<le> n \<and> get_size_class_index n = i"
      and least: "\<And>b k. (b, k) \<in> set bs \<Longrightarrow> free_at (mem s) H b \<Longrightarrow> t \<le> k \<Longrightarrow> get_size_class_index k = i \<Longrightarrow>
         a \<noteq> 0 \<and> block_size (hdr (mem s) a) \<le> k"
    show ?thesis
    proof (cases "a = 0")
      case True
      have low': "Suc i \<le> get_size_class_index k"
        if "(b, k) \<in> set bs" "free_at (mem s) H b" "t \<le> k" for b k
      proof -
        have "get_size_class_index k \<noteq> i" using least [OF that] True by blast
        with Suc.prems [OF that] show ?thesis by simp
      qed
      have d: "d = NUM_SIZE_CLASSES - Suc i" using Suc.hyps(2) by simp
      have step: "find_fit_from K t i s = find_fit_from K t (Suc i) s"
        using i sc True by (simp add: find_fit_from.simps [of K t i s])
      show ?thesis unfolding step by (rule Suc.hyps(1) [OF d low'])
    next
      case False
      then obtain n where n: "(a, n) \<in> set bs" "free_at (mem s) H a" "t \<le> n" "get_size_class_index n = i"
        using fit by blast
      have sz: "block_size (hdr (mem s) a) = n"
        using wfdD(5) [OF wf n(1)] n(2) by (auto simp: free_at_def blk_ok_def tags_ok_def)
      have "n \<le> k" if b: "(b, k) \<in> set bs" "free_at (mem s) H b" "t \<le> k" for b k
      proof (cases "get_size_class_index k = i")
        case True
        then show ?thesis using least [OF b] sz by simp
      next
        case neq: False
        with Suc.prems [OF b] have "get_size_class_index n < get_size_class_index k" using n(4) by simp
        then show ?thesis using size_class_mono [of k n] by linarith
      qed
      moreover have "find_fit_from K t i s = Inr (a, unlink a s)"
        using i sc False free_list_remove_unlinks [OF wf K n(1,2)]
        by (simp add: find_fit_from.simps [of K t i s])
      ultimately show ?thesis using n by blast
    qed
  qed
qed

lemma find_fit_spec:
  assumes wf: "wfd s bs fs H" and K: "kernel_ok K"
  shows "(free_list_find_fit K t s = Inr (0, s) \<and> (\<forall>(b, k)\<in>set bs. free_at (mem s) H b \<longrightarrow> k < t)) \<or>
     (\<exists>a n. free_list_find_fit K t s = Inr (a, unlink a s) \<and> (a, n) \<in> set bs \<and> free_at (mem s) H a \<and>
        t \<le> n \<and> (\<forall>(b, k)\<in>set bs. free_at (mem s) H b \<longrightarrow> t \<le> k \<longrightarrow> n \<le> k))"
  unfolding free_list_find_fit_def
  by (rule find_fit_from_spec [OF assms]) (rule size_class_mono)

subsection \<open>Verification of the lists\<close>

lemma verify_list_ok:
  "dls (mem s) p x as q 0 \<Longrightarrow> \<forall>a\<in>set as. verify_node K s i a \<Longrightarrow> verify_list K s i x = Some 0"
proof (induction as arbitrary: p x)
  case Nil
  then show ?case by (subst verify_list.simps) simp
next
  case (Cons a as)
  then have "verify_list K s i (next_ptr (hdr (mem s) a)) = Some 0" by auto
  with Cons.prems show ?case by (subst verify_list.simps) simp
qed

lemma verify_node_wfd:
  assumes wf: "wfd s bs fs H" and K: "kernel_ok K" and a: "(a, n) \<in> set bs" "free_at (mem s) H a"
  shows "verify_node K s (get_size_class_index n) a"
proof -
  note B = region_block [OF wfdD(1) [OF wf] a(1)]
  have ok: "blk_ok (mem s) a n" "is_free (hdr (mem s) a) = 1"
    using wfdD(5) [OF wf a(1)] a(2) by (auto simp: free_at_def)
  show ?thesis
  proof (rule free_block_links [OF wf a])
    fix us vs
    assume "prev_ptr (hdr (mem s) a) = (if us = [] then 0 else last us)"
      "next_ptr (hdr (mem s) a) = (if vs = [] then 0 else hd vs)"
      "us = [] \<Longrightarrow> segregated_heads s ! get_size_class_index n = a"
      "us \<noteq> [] \<Longrightarrow> next_ptr (hdr (mem s) (last us)) = a"
      "vs \<noteq> [] \<Longrightarrow> prev_ptr (hdr (mem s) (hd vs)) = a" "0 \<notin> set us"
    moreover have "us \<noteq> [] \<Longrightarrow> last us \<noteq> 0" using \<open>0 \<notin> set us\<close> last_in_set by metis
    moreover have "\<not> cur_brk (os s) - a < n" "\<not> cur_brk (os s) \<le> a" using B(4,5) by auto
    ultimately show ?thesis using ok(1) B(5,8)
      by (cases "us = []"; cases "vs = []")
        (simp_all add: verify_node_def Let_def blk_ok_def tags_ok_def ok(2) kernel_okD(1) [OF K])
  qed
qed

lemma free_list_verify_ok:
  assumes wf: "wfd s bs fs H" and K: "kernel_ok K"
  shows "free_list_verify_integrity K s = Inr 0"
proof -
  note L = lists_okD [OF wfdD(3) [OF wf]]
  have one: "verify_list K s i (segregated_heads s ! i) = Some 0" if i: "i < NUM_SIZE_CLASSES" for i
  proof -
    have "verify_node K s i a" if "a \<in> set (fs ! i)" for a
      using L(5) [OF i, of a] that verify_node_wfd [OF wf K] by blast
    then show ?thesis using L(3) [OF i] verify_list_ok by (auto simp: dll_def)
  qed
  have "verify_from K s i = Inr 0" for i
  proof (induction "NUM_SIZE_CLASSES - i" arbitrary: i)
    case 0
    then show ?case by (simp add: verify_from.simps [of K s i])
  next
    case (Suc d)
    then have "verify_from K s (Suc i) = Inr 0" by simp
    with one [of i] show ?case by (simp add: verify_from.simps [of K s i])
  qed
  then show ?thesis by (simp add: free_list_verify_integrity_def)
qed

end
