(* ===== verification/Heap_Steps.thy ===== *)
theory Heap_Steps
  imports Free_List_Correct
begin

text \<open>
  The primitive steps the allocator's operations are made of, each as a lemma about the
  invariant with holes, the set of allocated blocks, and the bytes of those blocks. A
  step never changes a byte of an allocated block: the header, the payload and the footer
  of every block the operation does not own stay as they are.
\<close>

subsection \<open>Allocated blocks and their bytes\<close>

definition al :: "alloc_state \<Rightarrow> (addr \<times> nat) list \<Rightarrow> addr set \<Rightarrow> (addr \<times> nat) set" where
  "al s bs H = {b \<in> set bs. fst b \<notin> H \<and> is_free (hdr (mem s) (fst b)) = 0} \<union> set (mappings (os s))"

definition fixed :: "(addr \<times> nat) set \<Rightarrow> mem \<Rightarrow> mem \<Rightarrow> bool" where
  "fixed A m m' \<longleftrightarrow> (\<forall>(b, k)\<in>A. \<forall>x. b \<le> x \<longrightarrow> x < b + k \<longrightarrow> m' x = m x)"

definition tr ::
  "alloc_state \<Rightarrow> (addr \<times> nat) list \<Rightarrow> addr set \<Rightarrow> alloc_state \<Rightarrow> (addr \<times> nat) list \<Rightarrow> addr set \<Rightarrow> bool" where
  "tr s bs H s' bs' H' \<longleftrightarrow> fixed (al s bs H) (mem s) (mem s') \<and> al s' bs' H' = al s bs H"

lemma fixed_refl [simp]: "fixed A m m"
  by (auto simp: fixed_def)

lemma fixed_trans: "fixed A m m' \<Longrightarrow> fixed A m' m'' \<Longrightarrow> fixed A m m''"
  by (fastforce simp: fixed_def)

lemma fixed_mono: "fixed A m m' \<Longrightarrow> B \<subseteq> A \<Longrightarrow> fixed B m m'"
  by (auto simp: fixed_def)

lemma tr_refl [simp]: "tr s bs H s bs H"
  by (simp add: tr_def)

lemma tr_trans [trans]:
  "tr s bs H s' bs' H' \<Longrightarrow> tr s' bs' H' s'' bs'' H'' \<Longrightarrow> tr s bs H s'' bs'' H''"
  by (auto simp: tr_def intro: fixed_trans)

lemma al_cong: "mem s' = mem s \<Longrightarrow> mappings (os s') = mappings (os s) \<Longrightarrow> al s' bs H = al s bs H"
  by (simp add: al_def)

lemma tr_cong:
  "mem s' = mem s \<Longrightarrow> mappings (os s') = mappings (os s) \<Longrightarrow> tr s bs H s' bs H"
  using al_cong [of s' s bs H] by (simp add: tr_def)

lemma fixed_hdr:
  assumes "fixed A m m'" "(b, k) \<in> A" "64 \<le> k"
  shows "hdr m' b = hdr m b" "ftr m' (footer_of b k) = ftr m (footer_of b k)"
  using assms same_hdr_ftr [of b k m' m] by (auto simp: fixed_def)

text \<open>Allocated blocks are at least 64 bytes long and pairwise apart, mappings included.\<close>

lemma al_size: "wfd s bs fs H \<Longrightarrow> (b, k) \<in> al s bs H \<Longrightarrow> 64 \<le> k"
  using mapping_block(1) [of s bs fs H b k] region_block(5) [of s bs b k]
  by (auto simp: al_def wfd_def MMAP_THRESHOLD_def)

lemma al_apart_block:
  assumes wf: "wfd s bs fs H" and b: "(b, k) \<in> al s bs H" and a: "(a, n) \<in> set bs"
  shows "b = a \<and> k = n \<or> b + k \<le> a \<or> a + n \<le> b"
  using b mapping_block(4) [OF wf _ a] region_sep [OF wfdD(1) [OF wf] _ a] by (auto simp: al_def)

lemma al_apart:
  assumes wf: "wfd s bs fs H" and b: "(b, k) \<in> al s bs H" and a: "(a, n) \<in> al s bs H"
  shows "b = a \<and> k = n \<or> b + k \<le> a \<or> a + n \<le> b"
proof (cases "(a, n) \<in> set bs")
  case True
  then show ?thesis by (rule al_apart_block [OF wf b])
next
  case False
  with a have m: "(a, n) \<in> set (mappings (os s))" by (auto simp: al_def)
  show ?thesis
  proof (cases "(b, k) \<in> set bs")
    case True
    then show ?thesis using mapping_block(4) [OF wf m True] by blast
  next
    case False
    with b have "(b, k) \<in> set (mappings (os s))" by (auto simp: al_def)
    with m wfdD(2) [OF wf] show ?thesis by (fastforce simp: mappings_ok_def apart_def)
  qed
qed

lemma al_hole_bytes:
  assumes wf: "wfd s bs fs H" and b: "(b, k) \<in> al s bs H" and x: "b \<le> x" "x < b + k"
  shows "x \<notin> hole_bytes bs H"
proof
  assume "x \<in> hole_bytes bs H"
  then obtain a n where a: "(a, n) \<in> set bs" "a \<in> H" "a \<le> x" "x < a + n"
    by (auto simp: hole_bytes_iff)
  from al_apart_block [OF wf b a(1)] a x have ba: "b = a" "k = n" by auto
  have "(b, k) \<notin> set (mappings (os s))"
    using mapping_block(4) [OF wf _ a(1), of b k] ba region_block(5) [OF wfdD(1) [OF wf] a(1)] by auto
  with b ba a(2) show False by (auto simp: al_def)
qed

subsection \<open>Primitive steps\<close>

lemma write_hdr:
  assumes wf: "wfd s bs fs H" and a: "(a, n) \<in> set bs" "a \<in> H"
    and same: "\<And>x. x < a \<or> a + n \<le> x \<Longrightarrow> m' x = mem s x"
    and b: "(b, k) \<in> set bs" "b \<noteq> a"
  shows "hdr m' b = hdr (mem s) b" "free_at m' H b = free_at (mem s) H b"
proof -
  have "b + k \<le> a \<or> a + n \<le> b"
    using region_sep [OF wfdD(1) [OF wf] b(1) a(1)] b(2) by auto
  then have "\<forall>x\<in>{b..<b + 48}. m' x = mem s x"
    using same region_block(5) [OF wfdD(1) [OF wf] b(1)]
      region_block(5) [OF wfdD(1) [OF wf] a(1)] by auto
  then show "hdr m' b = hdr (mem s) b" by (rule hdr_cong)
  then show "free_at m' H b = free_at (mem s) H b" by (simp add: free_at_def)
qed

lemma step_write:
  assumes wf: "wfd s bs fs H" and a: "(a, n) \<in> set bs" "a \<in> H"
    and same: "\<And>x. x < a \<or> a + n \<le> x \<Longrightarrow> m' x = mem s x"
  shows "wfd (s\<lparr>mem := m'\<rparr>) bs fs H" "tr s bs H (s\<lparr>mem := m'\<rparr>) bs H"
proof -
  show wf': "wfd (s\<lparr>mem := m'\<rparr>) bs fs H" by (rule wfd_write_block [OF assms])
  have "x < a \<or> a + n \<le> x" if "(b, k) \<in> al s bs H" "b \<le> x" "x < b + k" for b k x
    using al_hole_bytes [OF wf that] a by (auto simp: hole_bytes_iff not_less not_le)
  then have fx: "fixed (al s bs H) (mem s) m'" using same by (auto simp: fixed_def)
  have "hdr m' b = hdr (mem s) b" if b: "(b, k) \<in> set bs" "b \<notin> H" for b k
    by (rule write_hdr(1) [OF wf a same b(1)]) (use a b in auto)
  then have "al (s\<lparr>mem := m'\<rparr>) bs H = al s bs H" by (force simp: al_def)
  with fx show "tr s bs H (s\<lparr>mem := m'\<rparr>) bs H" by (simp add: tr_def)
qed

lemma step_open:
  assumes wf: "wfd s bs fs {}" and a: "(a, n) \<in> set bs" "is_free (hdr (mem s) a) = 0"
  shows "wfd s bs fs {a}" "al s bs {a} = al s bs {} - {(a, n)}" "(a, n) \<in> al s bs {}"
proof -
  show "wfd s bs fs {a}" using wfd_open [OF wf a(2)] by simp
  have "(a, n) \<notin> set (mappings (os s))"
    using mapping_block(4) [OF wf _ a(1)] region_block(5) [OF wfdD(1) [OF wf] a(1)] by fastforce
  moreover have "\<forall>x\<in>set bs. fst x = a \<longrightarrow> x = (a, n)"
    using region_fun [OF wfdD(1) [OF wf] a(1)] by auto
  ultimately show "al s bs {a} = al s bs {} - {(a, n)}" by (auto simp: al_def)
  show "(a, n) \<in> al s bs {}" using a by (auto simp: al_def)
qed

lemma step_close:
  assumes wf: "wfd s bs fs H" and a: "(a, n) \<in> set bs" "a \<in> H"
    and blk: "blk_ok (mem s) a n" "is_free (hdr (mem s) a) = 0"
  shows "wfd s bs fs (H - {a})" "al s bs (H - {a}) = insert (a, n) (al s bs H)"
proof -
  show "wfd s bs fs (H - {a})" by (rule wfd_close [OF wf a(1) blk])
  have u: "\<forall>x\<in>set bs. fst x = a \<longrightarrow> x = (a, n)"
    using region_fun [OF wfdD(1) [OF wf] a(1)] by auto
  have "x \<in> al s bs (H - {a}) \<longleftrightarrow> x \<in> insert (a, n) (al s bs H)" for x
  proof (cases "x = (a, n)")
    case False
    then have "x \<in> set bs \<Longrightarrow> fst x \<noteq> a" using u by blast
    with False show ?thesis by (auto simp: al_def)
  qed (use a blk(2) in \<open>simp add: al_def\<close>)
  then show "al s bs (H - {a}) = insert (a, n) (al s bs H)" by blast
qed

lemma step_split:
  assumes wf: "wfd s (xs @ (a, t + r) # ys) fs H" and "a \<in> H"
    and t: "64 \<le> t" "64 \<le> r" "t mod 16 = 0"
  shows "wfd s (xs @ (a, t) # (a + t, r) # ys) fs (insert (a + t) H)"
    "tr s (xs @ (a, t + r) # ys) H s (xs @ (a, t) # (a + t, r) # ys) (insert (a + t) H)"
proof -
  show wf': "wfd s (xs @ (a, t) # (a + t, r) # ys) fs (insert (a + t) H)"
    by (rule wfd_split [OF assms])
  have "\<forall>x\<in>set xs \<union> set ys. fst x \<noteq> a + t"
    using region_distinct [OF wfdD(1) [OF wf']] by (auto simp: image_iff)
  then show "tr s (xs @ (a, t + r) # ys) H s (xs @ (a, t) # (a + t, r) # ys) (insert (a + t) H)"
    using \<open>a \<in> H\<close> by (auto simp: tr_def al_def)
qed

lemma step_merge:
  assumes wf: "wfd s (xs @ (a, n) # (b, k) # ys) fs H" and H: "a \<in> H" "b \<in> H"
  shows "wfd s (xs @ (a, n + k) # ys) fs (H - {b})"
    "tr s (xs @ (a, n) # (b, k) # ys) H s (xs @ (a, n + k) # ys) (H - {b})"
proof -
  show "wfd s (xs @ (a, n + k) # ys) fs (H - {b})" by (rule wfd_merge [OF assms])
  have "\<forall>x\<in>set xs \<union> set ys. fst x \<noteq> b" "a \<noteq> b"
    using region_distinct [OF wfdD(1) [OF wf]] by (auto simp: image_iff)
  then show "tr s (xs @ (a, n) # (b, k) # ys) H s (xs @ (a, n + k) # ys) (H - {b})"
    using H by (auto simp: tr_def al_def)
qed

lemma step_insert:
  assumes wf: "wfd s (xs @ (a, n) # ys) fs H" and a: "a \<in> H"
    and tags: "tags_ok (mem s) a n" "is_mmap (hdr (mem s) a) = 0"
    and left: "xs \<noteq> [] \<longrightarrow> \<not> free_at (mem s) H (fst (last xs))"
    and right: "ys \<noteq> [] \<longrightarrow> \<not> free_at (mem s) H (fst (hd ys))"
  shows "\<exists>fs'. wfd (free_list_insert a s) (xs @ (a, n) # ys) fs' (H - {a})"
    "tr s (xs @ (a, n) # ys) H (free_list_insert a s) (xs @ (a, n) # ys) (H - {a})"
proof -
  let ?bs = "xs @ (a, n) # ys" and ?s' = "free_list_insert a s"
  show "\<exists>fs'. wfd ?s' ?bs fs' (H - {a})" using free_list_insert_wfd [OF assms] by blast
  have m: "(a, n) \<in> set ?bs" by simp
  have sz: "block_size (hdr (mem s) a) = n" using tags(1) by (simp add: tags_ok_def)
  note I = free_list_insert_blocks [OF wf m a sz]
  have nf: "\<not> free_at (mem s) H b \<and> b \<noteq> a" if b: "(b, k) \<in> al s ?bs H" for b k
  proof -
    have "a \<in> hole_bytes ?bs H"
      using a m region_block(5) [OF wfdD(1) [OF wf] m] by (fastforce simp: hole_bytes_iff)
    then have "b \<noteq> a" using al_hole_bytes [OF wf b, of a] al_size [OF wf b] by auto
    moreover have "is_free (hdr (mem s) b) = 0"
      using b mapping_block(3) [OF wf, of b k] by (auto simp: al_def map_ok_def)
    ultimately show ?thesis by (simp add: free_at_def)
  qed
  have "mem ?s' x = mem s x" if "(b, k) \<in> al s ?bs H" "b \<le> x" "x < b + k" for b k x
  proof (rule I(6))
    show "(b, k) \<in> set ?bs \<union> set (mappings (os s))" using that(1) unfolding al_def by blast
  qed (use that nf [OF that(1)] in blast)+
  then have "fixed (al s ?bs H) (mem s) (mem ?s')" unfolding fixed_def by blast
  moreover have "al ?s' ?bs (H - {a}) = al s ?bs H"
  proof (rule set_eqI)
    fix x :: "addr \<times> nat"
    obtain b k where x: "x = (b, k)" by (cases x)
    have "is_free (hdr (mem ?s') a) = 1" using I(1) by simp
    then show "x \<in> al ?s' ?bs (H - {a}) \<longleftrightarrow> x \<in> al s ?bs H"
      using I(5) [of b k] a by (cases "b = a") (auto simp: al_def x)
  qed
  ultimately show "tr s ?bs H ?s' ?bs (H - {a})" by (simp add: tr_def)
qed

lemma step_unlink:
  assumes wf: "wfd s bs fs H" and a: "(a, n) \<in> set bs" "free_at (mem s) H a"
  shows "\<exists>fs'. wfd (unlink a s) bs fs' (insert a H)" "tr s bs H (unlink a s) bs (insert a H)"
    "block_size (hdr (mem (unlink a s)) a) = n"
    "magic_header (hdr (mem (unlink a s)) a) = ALLOC_MAGIC_HEADER"
    "is_mmap (hdr (mem (unlink a s)) a) = 0"
    "ftr (mem (unlink a s)) (footer_of a n) = ftr (mem s) (footer_of a n)"
proof -
  note U = unlink_blocks [OF wf a]
  show "\<exists>fs'. wfd (unlink a s) bs fs' (insert a H)" using unlink_wfd [OF assms] by blast
  have nf: "\<not> free_at (mem s) H b" if b: "(b, k) \<in> al s bs H" for b k
    using b mapping_block(3) [OF wf, of b k] by (auto simp: al_def map_ok_def free_at_def)
  have "mem (unlink a s) x = mem s x" if "(b, k) \<in> al s bs H" "b \<le> x" "x < b + k" for b k x
  proof (rule U(7))
    show "(b, k) \<in> set bs \<union> set (mappings (os s))" using that(1) unfolding al_def by blast
  qed (use that nf [OF that(1)] in blast)+
  then have "fixed (al s bs H) (mem s) (mem (unlink a s))" unfolding fixed_def by blast
  moreover have "al (unlink a s) bs (insert a H) = al s bs H"
    using U(6) a(2) by (force simp: al_def free_at_def)
  ultimately show "tr s bs H (unlink a s) bs (insert a H)" by (simp add: tr_def)
  show "block_size (hdr (mem (unlink a s)) a) = n"
    "magic_header (hdr (mem (unlink a s)) a) = ALLOC_MAGIC_HEADER"
    "is_mmap (hdr (mem (unlink a s)) a) = 0"
    using U(1) wfdD(5) [OF wf a(1)] a(2) by (auto simp: free_at_def blk_ok_def tags_ok_def)
  show "ftr (mem (unlink a s)) (footer_of a n) = ftr (mem s) (footer_of a n)" by (rule U(5) [OF a(1)])
qed

subsection \<open>Steps of the kernel\<close>

lemma lists_ok_cong:
  "mem s' = mem s \<Longrightarrow> segregated_heads s' = segregated_heads s \<Longrightarrow> lists_ok s' bs fs H = lists_ok s bs fs H"
  by (simp add: lists_ok_def)

lemma kernel_gap:
  assumes "kernel_ok K" "k_sbrk K k n" "0 < n"
  shows "\<forall>(a, l)\<in>set (mappings k). cur_brk k \<le> a \<longrightarrow> cur_brk k + n \<le> a"
  using kernel_okD(3) [OF assms] by blast

text \<open>The break grows by a new last block, which belongs to the operation.\<close>

lemma step_grow:
  assumes wf: "wfd s bs fs H" and n: "64 \<le> n" "n mod 16 = 0" and hs: "heap_start s \<noteq> 0"
    and top: "cur_brk (os s) + n \<le> USER_TOP"
    and maps: "\<forall>(a, l)\<in>set (mappings (os s)). cur_brk (os s) \<le> a \<longrightarrow> cur_brk (os s) + n \<le> a"
  defines "c \<equiv> cur_brk (os s)"
  defines "s' \<equiv> s\<lparr>os := (os s)\<lparr>cur_brk := c + n\<rparr>\<rparr>"
  shows "wfd s' (bs @ [(c, n)]) fs (insert c H)" "tr s bs H s' (bs @ [(c, n)]) (insert c H)"
proof -
  note D = wfdD [OF wf]
  have t: "tiles (heap_start s) bs c" and g: "start_brk (os s) \<le> c"
    using D(1) hs by (auto simp: region_ok_def c_def)
  have rg: "region_ok s' (bs @ [(c, n)])"
    using D(1) hs top n g by (auto simp: region_ok_def s'_def c_def tiles_append)
  have new: "\<forall>x\<in>set bs. fst x \<noteq> c"
    using tiles_mem [OF t] by fastforce
  have fr: "\<forall>x\<in>set bs. free_at (mem s) (insert c H) (fst x) = free_at (mem s) H (fst x)"
    using new by (auto simp: free_at_def)
  have set_eq: "{b. \<exists>k. (b, k) \<in> set (bs @ [(c, n)]) \<and> free_at (mem s) (insert c H) b \<and> get_size_class_index k = i}
      = {b. \<exists>k. (b, k) \<in> set bs \<and> free_at (mem s) H b \<and> get_size_class_index k = i}" for i
    using new by (auto simp: free_at_def) (metis fst_conv)
  have "no_adj (free_at (mem s) (insert c H)) bs"
    using D(4) by (rule no_adj_mono) (use fr in auto)
  then have "no_adj (free_at (mem s') (insert c H)) (bs @ [(c, n)])"
    by (auto simp: no_adj_append free_at_def s'_def)
  moreover have "mappings_ok s'"
    using D(2) maps g by (fastforce simp: mappings_ok_def s'_def placed_def c_def)
  moreover have "lists_ok s' (bs @ [(c, n)]) fs (insert c H)"
    using D(3) set_eq unfolding lists_ok_def s'_def by simp
  ultimately show "wfd s' (bs @ [(c, n)]) fs (insert c H)"
    using rg D(5) by (auto simp: wfd_def s'_def)
  show "tr s bs H s' (bs @ [(c, n)]) (insert c H)"
    using new by (auto simp: tr_def al_def s'_def)
qed

text \<open>The first allocation moves an unaligned break and makes it the start of the heap.\<close>

lemma step_pad:
  assumes wf: "wfd s bs fs H" and hs: "heap_start s = 0"
    and top: "cur_brk (os s) + n \<le> USER_TOP"
    and maps: "\<forall>(a, l)\<in>set (mappings (os s)). cur_brk (os s) \<le> a \<longrightarrow> cur_brk (os s) + n \<le> a"
  defines "s' \<equiv> s\<lparr>os := (os s)\<lparr>cur_brk := cur_brk (os s) + n\<rparr>\<rparr>"
  shows "wfd s' [] fs H" "bs = []"
proof -
  note D = wfdD [OF wf]
  show b: "bs = []" using D(1) hs by (simp add: region_ok_def)
  have "region_ok s' []" using D(1) hs top b by (auto simp: region_ok_def s'_def)
  moreover have "mappings_ok s'"
    using D(2) maps D(1) by (fastforce simp: mappings_ok_def s'_def placed_def region_ok_def)
  moreover have "lists_ok s' [] fs H" using D(3) lists_ok_cong [of s' s] unfolding b s'_def by simp
  ultimately show "wfd s' [] fs H" by (simp add: wfd_def)
qed

lemma step_start:
  assumes wf: "wfd s [] fs H" and hs: "heap_start s = 0" and al: "cur_brk (os s) mod 16 = 0"
  shows "wfd (s\<lparr>initial_break := cur_brk (os s), heap_start := cur_brk (os s)\<rparr>) [] fs H"
  using wfdD [OF wf] assms by (auto simp: wfd_def region_ok_def mappings_ok_def lists_ok_def)

text \<open>A new mapping with its tags written, and the removal of a mapping.\<close>

lemma step_map:
  assumes wf: "wfd s bs fs H" and pl: "placed (os s) a n" and n: "MMAP_THRESHOLD \<le> n"
    and apt: "\<And>x. x \<in> set (mappings (os s)) \<Longrightarrow> apart (a, n) x"
    and same: "\<And>x. x < a \<or> a + n \<le> x \<Longrightarrow> m' x = mem s x" and ok: "map_ok m' a n"
  defines "s' \<equiv> s\<lparr>os := (os s)\<lparr>mappings := (a, n) # mappings (os s)\<rparr>, mem := m'\<rparr>"
  shows "wfd s' bs fs H" "al s' bs H = insert (a, n) (al s bs H)" "fixed (al s bs H) (mem s) m'"
    "(a, n) \<notin> al s bs H"
proof -
  note D = wfdD [OF wf]
  have n64: "64 \<le> n" using n by (simp add: MMAP_THRESHOLD_def)
  have sep: "b + k \<le> a \<or> a + n \<le> b" if "(b, k) \<in> set bs \<union> set (mappings (os s))" for b k
    using that
  proof
    assume b: "(b, k) \<in> set bs"
    show ?thesis using region_block(3,4) [OF D(1) b] pl by (auto simp: placed_def)
  qed (use apt in \<open>fastforce simp: apart_def\<close>)
  have same': "m' x = mem s x" if "(b, k) \<in> set bs \<union> set (mappings (os s))" "b \<le> x" "x < b + k" for b k x
    using sep [OF that(1)] that(2,3) by (intro same) linarith
  have ub: "(b, k) \<in> set bs \<union> set (mappings (os s))" if "(b, k) \<in> al s bs H" for b k
    using that unfolding al_def by blast
  then show fx: "fixed (al s bs H) (mem s) m'" using same' unfolding fixed_def by blast
  show new: "(a, n) \<notin> al s bs H" using ub sep n64 by fastforce
  have hb: "hdr m' b = hdr (mem s) b" "ftr m' (footer_of b k) = ftr (mem s) (footer_of b k)"
    if "(b, k) \<in> set bs \<union> set (mappings (os s))" "64 \<le> k" for b k
    using same_hdr_ftr [of b k m' "mem s"] same' [OF that(1)] that(2) by auto
  have hbs: "hdr m' b = hdr (mem s) b" "ftr m' (footer_of b k) = ftr (mem s) (footer_of b k)"
    if "(b, k) \<in> set bs" for b k
    using hb [of b k] that region_block(5) [OF D(1) that] by auto
  have fr: "free_at m' H b = free_at (mem s) H b" if "(b, k) \<in> set bs" for b k
    using hbs(1) [OF that] by (simp add: free_at_def)
  have "dll m' (segregated_heads s ! i) (fs ! i)" if "i < NUM_SIZE_CLASSES" for i
    using dll_cong [OF lists_okD(3) [OF D(3) that]] lists_okD(5) [OF D(3) that] hbs(1) by metis
  then have "lists_ok s' bs fs H"
    using D(3) fr by (auto simp: lists_ok_def s'_def)
  moreover have "map_ok m' b k" if "(b, k) \<in> set (mappings (os s))" for b k
    using mapping_block(1,3) [OF wf that] hb [of b k] that same_blk(3) [of m' b "mem s" k]
    by (auto simp: MMAP_THRESHOLD_def)
  then have "mappings_ok s'"
    using D(2) pl n apt ok new
    by (fastforce simp: mappings_ok_def s'_def placed_def apart_def al_def)
  moreover have "no_adj (free_at m' H) bs"
    using D(4) by (rule no_adj_mono) (auto simp: fr)
  moreover have "\<forall>(b, k)\<in>set bs. b \<notin> H \<longrightarrow> blk_ok m' b k"
    using D(5) hbs same_blk(2) by blast
  ultimately show "wfd s' bs fs H" using D(1) by (simp add: wfd_def region_ok_def s'_def)
  show "al s' bs H = insert (a, n) (al s bs H)" using hbs(1) by (force simp: al_def s'_def)
qed

lemma step_unmap:
  assumes wf: "wfd s bs fs H" and a: "(a, n) \<in> set (mappings (os s))"
  defines "s' \<equiv> s\<lparr>os := (os s)\<lparr>mappings := removeAll (a, n) (mappings (os s))\<rparr>\<rparr>"
  shows "wfd s' bs fs H" "al s' bs H = al s bs H - {(a, n)}" "(a, n) \<in> al s bs H"
proof -
  note D = wfdD [OF wf]
  have "mappings_ok s'" using D(2)
    by (auto simp: mappings_ok_def s'_def placed_def intro: distinct_removeAll)
  with wf show "wfd s' bs fs H" by (simp add: wfd_def region_ok_def lists_ok_def s'_def)
  have "(a, n) \<notin> set bs"
    using mapping_block(4) [OF wf a] region_block(5) [OF D(1)] by fastforce
  then show "al s' bs H = al s bs H - {(a, n)}" by (auto simp: al_def s'_def)
  show "(a, n) \<in> al s bs H" using a by (simp add: al_def)
qed

end
