(* ===== verification/Heap_View.thy ===== *)
theory Heap_View
  imports Heap_Steps
begin

text \<open>
  What a caller sees of the allocator's state: a partial map from the live pointers to the
  bytes of their payloads. The map is computed from the memory by walking the blocks from
  \<^verbatim>\<open>heap_start\<close> to the break and adding the mappings. The invariant \<open>heap_inv\<close> of a state
  between two calls is \<open>wfd\<close> for that walk, with no holes, and a released mutex.
\<close>

subsection \<open>Definitions\<close>

function blocks_from :: "mem \<Rightarrow> addr \<Rightarrow> addr \<Rightarrow> (addr \<times> nat) list" where
  "blocks_from m hi a =
     (if a < hi \<and> 0 < block_size (hdr m a)
      then (a, block_size (hdr m a)) # blocks_from m hi (a + block_size (hdr m a)) else [])"
  by pat_completeness auto
termination
  by (relation "measure (\<lambda>(m, hi, a). hi - a)") auto

declare blocks_from.simps [simp del]

definition heap_blocks :: "alloc_state \<Rightarrow> (addr \<times> nat) list" where
  "heap_blocks s =
     (if heap_start s = 0 then [] else blocks_from (mem s) (cur_brk (os s)) (heap_start s))"

definition payload :: "mem \<Rightarrow> addr \<Rightarrow> byte list" where
  "payload m b = map m [b + HDR..<b + HDR + requested_size (hdr m b)]"

definition heap_view :: "alloc_state \<Rightarrow> addr \<rightharpoonup> byte list" where
  "heap_view s = map_of (map (\<lambda>(b, n). (b + HDR, payload (mem s) b))
     (filter (\<lambda>(b, n). is_free (hdr (mem s) b) = 0) (heap_blocks s) @ mappings (os s)))"

definition heap_inv :: "alloc_state \<Rightarrow> bool" where
  "heap_inv s \<longleftrightarrow> \<not> alloc_mutex s \<and> (\<exists>fs. wfd s (heap_blocks s) fs {})"

text \<open>The bytes the live payloads ask for, and the bytes the statistics count as in use.\<close>

definition live_bytes :: "alloc_state \<Rightarrow> nat" where
  "live_bytes s = (\<Sum>p\<in>dom (heap_view s). length (the (heap_view s p)))"

definition stats_balanced :: "alloc_state \<Rightarrow> bool" where
  "stats_balanced s \<longleftrightarrow>
     total_allocated (global_stats s) mod 2 ^ 64 =
       (total_freed (global_stats s) + live_bytes s) mod 2 ^ 64"

subsection \<open>The walk finds the tiling\<close>

lemma blocks_from_tiles:
  "tiles a bs hi \<Longrightarrow> \<forall>(b, n)\<in>set bs. block_size (hdr m b) = n \<Longrightarrow> blocks_from m hi a = bs"
proof (induction bs arbitrary: a)
  case (Cons x xs)
  obtain b n where x: "x = (b, n)" by (cases x)
  with Cons.prems have b: "b = a" "64 \<le> n" "block_size (hdr m a) = n" and t: "tiles (a + n) xs hi"
    by auto
  have "blocks_from m hi (a + n) = xs" using Cons t by simp
  moreover have "a < hi" using tiles_le [OF t] b by simp
  ultimately show ?case using x b by (simp add: blocks_from.simps [of m hi a])
qed (simp add: blocks_from.simps)

lemma heap_blocks_wfd:
  assumes "wfd s bs fs {}" shows "heap_blocks s = bs"
proof -
  have "\<forall>(b, n)\<in>set bs. block_size (hdr (mem s) b) = n"
    using wfdD(5) [OF assms] by (auto simp: blk_ok_def tags_ok_def)
  then show ?thesis using wfdD(1) [OF assms] blocks_from_tiles
    by (auto simp: heap_blocks_def region_ok_def)
qed

lemma heap_invI: "wfd s bs fs {} \<Longrightarrow> \<not> alloc_mutex s \<Longrightarrow> heap_inv s"
  using heap_blocks_wfd by (auto simp: heap_inv_def)

lemma heap_invE:
  assumes "heap_inv s"
  obtains bs fs where "wfd s bs fs {}" "\<not> alloc_mutex s" "heap_blocks s = bs"
  using assms that by (auto simp: heap_inv_def)

subsection \<open>The view in terms of the allocated blocks\<close>

lemma al_requested:
  assumes "wfd s bs fs H" "(b, n) \<in> al s bs H"
  shows "requested_size (hdr (mem s) b) + 64 \<le> n" "is_free (hdr (mem s) b) = 0" "tags_ok (mem s) b n"
proof -
  have "requested_size (hdr (mem s) b) + 64 \<le> n \<and> is_free (hdr (mem s) b) = 0 \<and> tags_ok (mem s) b n"
  proof (cases "(b, n) \<in> set (mappings (os s))")
    case True
    then show ?thesis using mapping_block(3) [OF assms(1)] by (auto simp: map_ok_def)
  next
    case False
    with assms(2) have "(b, n) \<in> set bs" "b \<notin> H" "is_free (hdr (mem s) b) = 0" by (auto simp: al_def)
    then show ?thesis using wfdD(5) [OF assms(1), of b n] by (auto simp: blk_ok_def)
  qed
  then show "requested_size (hdr (mem s) b) + 64 \<le> n" "is_free (hdr (mem s) b) = 0" "tags_ok (mem s) b n"
    by auto
qed

lemma al_fun: "wfd s bs fs H \<Longrightarrow> (b, n) \<in> al s bs H \<Longrightarrow> (b, k) \<in> al s bs H \<Longrightarrow> n = k"
  using al_apart [of s bs fs H b n b k] al_size [of s bs fs H b] by fastforce

lemma al_bounds:
  assumes "wfd s bs fs H" "(b, n) \<in> al s bs H"
  shows "0 < b" "b mod 16 = 0" "b + n \<le> 2 ^ 63" "64 \<le> n"
  using assms mapping_block(2) [OF assms(1), of b n] region_block [OF wfdD(1) [OF assms(1)], of b n]
    al_size [OF assms] by (auto simp: al_def placed_def USER_TOP_def)

lemma heap_view_iff:
  assumes wf: "wfd s bs fs {}"
  shows "heap_view s p = Some xs \<longleftrightarrow>
     (\<exists>b n. (b, n) \<in> al s bs {} \<and> p = b + HDR \<and> xs = payload (mem s) b)"
proof -
  let ?l = "filter (\<lambda>(b, n). is_free (hdr (mem s) b) = 0) bs @ mappings (os s)"
  let ?f = "\<lambda>(b, n). (b + HDR, payload (mem s) b)"
  have set_l: "set ?l = al s bs {}" by (auto simp: al_def)
  have "map_of (map ?f l) p = Some xs \<longleftrightarrow> (\<exists>b n. (b, n) \<in> set l \<and> p = b + HDR \<and> xs = payload (mem s) b)"
    for l by (induction l) auto
  from this [of ?l] show ?thesis unfolding heap_view_def heap_blocks_wfd [OF wf] set_l .
qed

lemma heap_view_at:
  assumes wf: "wfd s bs fs {}"
  shows "heap_view s p =
    (if HDR \<le> p \<and> p - HDR \<in> fst ` al s bs {} then Some (payload (mem s) (p - HDR)) else None)"
proof (cases "heap_view s p")
  case None
  then have "\<nexists>xs. heap_view s p = Some xs" by simp
  then have "\<not> (HDR \<le> p \<and> p - HDR \<in> fst ` al s bs {})" unfolding heap_view_iff [OF wf] by force
  with None show ?thesis by simp
next
  case (Some xs)
  then obtain b n where "(b, n) \<in> al s bs {}" "p = b + HDR" "xs = payload (mem s) b"
    unfolding heap_view_iff [OF wf] by blast
  then have "HDR \<le> p" "p - HDR \<in> fst ` al s bs {}" "xs = payload (mem s) (p - HDR)" by force+
  then show ?thesis using Some by simp
qed

lemma payload_fixed:
  assumes "fixed A m m'" "(b, n) \<in> A" "requested_size (hdr m b) + 64 \<le> n"
  shows "payload m' b = payload m b"
proof -
  have "hdr m' b = hdr m b" using fixed_hdr(1) [OF assms(1,2)] assms(3) by simp
  then show ?thesis using assms by (fastforce simp: payload_def fixed_def)
qed

text \<open>
  How a change of the set of allocated blocks shows in the view: one block goes, one comes.
\<close>

lemma view_cong:
  assumes wf: "wfd s bs fs {}" and wf': "wfd s' bs' fs' {}"
    and D: "fst ` al s' bs' {} = D" and E: "fst ` al s bs {} = E"
    and pl: "\<And>b. b \<in> X \<Longrightarrow> b \<in> E \<Longrightarrow> payload (mem s') b = payload (mem s) b"
    and b: "HDR \<le> p \<Longrightarrow> p - HDR \<in> X" "HDR \<le> p \<Longrightarrow> p - HDR \<in> D \<longleftrightarrow> p - HDR \<in> E"
  shows "heap_view s' p = heap_view s p"
  using b pl unfolding heap_view_at [OF wf] heap_view_at [OF wf'] D E by auto

lemma image_fst_remove:
  assumes "\<forall>x\<in>A. fst x = b \<longrightarrow> x = (b, n)"
  shows "fst ` (A - {(b, n)}) = fst ` A - {b}"
proof (intro equalityI subsetI)
  fix d assume "d \<in> fst ` A - {b}"
  then obtain k where "(d, k) \<in> A" "d \<noteq> b" by auto
  then show "d \<in> fst ` (A - {(b, n)})" by (force simp: image_iff)
next
  fix d assume "d \<in> fst ` (A - {(b, n)})"
  then obtain k where "(d, k) \<in> A" "(d, k) \<noteq> (b, n)" by force
  with assms show "d \<in> fst ` A - {b}" by (metis Diff_iff fst_conv image_eqI singletonD)
qed

lemma view_same:
  assumes wf: "wfd s bs fs {}" and wf': "wfd s' bs' fs' {}" and tr: "tr s bs {} s' bs' {}"
  shows "heap_view s' = heap_view s"
proof
  fix p
  have "payload (mem s') b = payload (mem s) b" if "b \<in> fst ` al s bs {}" for b
    using payload_fixed [of "al s bs {}" "mem s" "mem s'" b] al_requested(1) [OF wf, of b] that tr
    by (auto simp: tr_def)
  then show "heap_view s' p = heap_view s p"
    using tr by (intro view_cong [OF wf wf' refl refl, of UNIV]) (auto simp: tr_def)
qed

lemma view_replace:
  assumes wf: "wfd s bs fs {}" and wf': "wfd s' bs' fs' {}"
    and A: "al s' bs' {} = insert (c, k) (al s bs {} - {(b, n)})" "(b, n) \<in> al s bs {}"
    and fx: "fixed (al s bs {} - {(b, n)}) (mem s) (mem s')"
  shows "heap_view s' = (heap_view s)(b + HDR := None, c + HDR \<mapsto> payload (mem s') c)"
proof
  fix p
  have u: "\<forall>x\<in>al s bs {}. fst x = b \<longrightarrow> x = (b, n)" using al_fun [OF wf A(2)] by auto
  have D: "fst ` al s' bs' {} = insert c (fst ` al s bs {} - {b})"
    unfolding A(1) by (simp add: image_fst_remove [OF u])
  have pl: "payload (mem s') d = payload (mem s) d" if "d \<in> - {b}" "d \<in> fst ` al s bs {}" for d
    using that payload_fixed [OF fx, of d] al_requested(1) [OF wf, of d] by fastforce
  consider "p = c + HDR" | "p = b + HDR" "b \<noteq> c" | "p \<noteq> c + HDR" "p \<noteq> b + HDR" by auto
  then show "heap_view s' p = ((heap_view s)(b + HDR := None, c + HDR \<mapsto> payload (mem s') c)) p"
  proof cases
    case 3
    then have "p - HDR \<noteq> c" "p - HDR \<noteq> b" if "HDR \<le> p" using that by auto
    then have "heap_view s' p = heap_view s p"
      using view_cong [OF wf wf' D refl, of "- {b}" p] pl by auto
    with 3 show ?thesis by simp
  qed (simp_all add: heap_view_at [OF wf'] D)
qed

lemma view_add:
  assumes wf: "wfd s bs fs {}" and wf': "wfd s' bs' fs' {}"
    and A: "al s' bs' {} = insert (b, n) (al s bs {})" "(b, n) \<notin> al s bs {}"
    and fx: "fixed (al s bs {}) (mem s) (mem s')"
  shows "heap_view s' = (heap_view s)(b + HDR \<mapsto> payload (mem s') b)" "heap_view s (b + HDR) = None"
proof -
  have "(b, k) \<notin> al s bs {}" for k using A al_fun [OF wf', of b n k] by blast
  then have "b \<notin> fst ` al s bs {}" by auto
  then show "heap_view s (b + HDR) = None" by (simp add: heap_view_at [OF wf])
  have pl: "payload (mem s') d = payload (mem s) d" if "d \<in> UNIV" "d \<in> fst ` al s bs {}" for d
    using that payload_fixed [OF fx, of d] al_requested(1) [OF wf, of d] by fastforce
  show "heap_view s' = (heap_view s)(b + HDR \<mapsto> payload (mem s') b)"
  proof
    fix p show "heap_view s' p = ((heap_view s)(b + HDR \<mapsto> payload (mem s') b)) p"
    proof (cases "p = b + HDR")
      case False
      then have "p - HDR \<noteq> b" if "HDR \<le> p" using that by auto
      then have "heap_view s' p = heap_view s p"
        using A(1) view_cong [OF wf wf' refl refl, of UNIV p] pl by auto
      with False show ?thesis by simp
    qed (simp add: heap_view_at [OF wf'] A(1))
  qed
qed

lemma view_del:
  assumes wf: "wfd s bs fs {}" and wf': "wfd s' bs' fs' {}"
    and A: "al s' bs' {} = al s bs {} - {(b, n)}" "(b, n) \<in> al s bs {}"
    and fx: "fixed (al s bs {} - {(b, n)}) (mem s) (mem s')"
  shows "heap_view s' = (heap_view s)(b + HDR := None)"
    "heap_view s (b + HDR) = Some (payload (mem s) b)"
proof -
  show "heap_view s (b + HDR) = Some (payload (mem s) b)" using A(2) heap_view_iff [OF wf] by blast
  have u: "\<forall>x\<in>al s bs {}. fst x = b \<longrightarrow> x = (b, n)" using al_fun [OF wf A(2)] by auto
  have D: "fst ` al s' bs' {} = fst ` al s bs {} - {b}"
    unfolding A(1) by (simp add: image_fst_remove [OF u])
  have pl: "payload (mem s') d = payload (mem s) d" if "d \<in> - {b}" "d \<in> fst ` al s bs {}" for d
    using that payload_fixed [OF fx, of d] al_requested(1) [OF wf, of d] by fastforce
  show "heap_view s' = (heap_view s)(b + HDR := None)"
  proof
    fix p show "heap_view s' p = ((heap_view s)(b + HDR := None)) p"
    proof (cases "p = b + HDR")
      case False
      then have "heap_view s' p = heap_view s p"
        using view_cong [OF wf wf' D refl, of "- {b}" p] pl by auto
      with False show ?thesis by simp
    qed (simp add: heap_view_at [OF wf'] D)
  qed
qed

text \<open>Two live payloads never overlap and every live pointer is aligned and below the top.\<close>

lemma view_disjoint:
  assumes "heap_inv s" "heap_view s p = Some xs" "heap_view s q = Some ys" "p \<noteq> q"
  shows "p + length xs + 64 \<le> q \<or> q + length ys + 64 \<le> p"
proof -
  from assms(1) obtain bs fs where wf: "wfd s bs fs {}" by (rule heap_invE)
  from assms(2,3) obtain b n c k where b: "(b, n) \<in> al s bs {}" "p = b + HDR" "xs = payload (mem s) b"
    and c: "(c, k) \<in> al s bs {}" "q = c + HDR" "ys = payload (mem s) c"
    unfolding heap_view_iff [OF wf] by blast
  show ?thesis using al_apart [OF wf b(1) c(1)] al_requested(1) [OF wf b(1)] al_requested(1) [OF wf c(1)]
    assms(4) b(2,3) c(2,3) by (auto simp: payload_def)
qed

lemma view_bounds:
  assumes "heap_inv s" "heap_view s p = Some xs"
  shows "48 < p" "p mod 16 = 0" "p + length xs + 16 \<le> 2 ^ 63" "p < 2 ^ 63"
proof -
  from assms(1) obtain bs fs where wf: "wfd s bs fs {}" by (rule heap_invE)
  from assms(2) obtain b n where b: "(b, n) \<in> al s bs {}" "p = b + HDR" "xs = payload (mem s) b"
    unfolding heap_view_iff [OF wf] by blast
  then show "48 < p" "p mod 16 = 0" "p + length xs + 16 \<le> 2 ^ 63" "p < 2 ^ 63"
    using al_bounds [OF wf b(1)] al_requested(1) [OF wf b(1)] by (auto simp: payload_def mod_simps)
qed

lemma heap_inv_simps [simp]:
  "heap_inv (s\<lparr>global_stats := g\<rparr>) = heap_inv s" "heap_inv (s\<lparr>errno := e\<rparr>) = heap_inv s"
  by (simp_all add: heap_inv_def heap_blocks_def)

lemma heap_view_simps [simp]:
  "heap_view (s\<lparr>global_stats := g\<rparr>) = heap_view s" "heap_view (s\<lparr>errno := e\<rparr>) = heap_view s"
  "heap_view (s\<lparr>alloc_mutex := l\<rparr>) = heap_view s"
  "heap_view (s\<lparr>last_allocator_break := b\<rparr>) = heap_view s"
  by (simp_all add: heap_view_def heap_blocks_def)

subsection \<open>Writes of the caller\<close>

text \<open>A store that changes no boundary tag keeps the heap well formed.\<close>

lemma wfd_same_tags:
  assumes wf: "wfd s bs fs H"
    and same: "\<And>b k. (b, k) \<in> set bs \<union> set (mappings (os s)) \<Longrightarrow>
      hdr m' b = hdr (mem s) b \<and> ftr m' (footer_of b k) = ftr (mem s) (footer_of b k)"
  shows "wfd (s\<lparr>mem := m'\<rparr>) bs fs H"
proof -
  note D = wfdD [OF wf]
  have fr: "free_at m' H b = free_at (mem s) H b" if "(b, k) \<in> set bs" for b k
    using same [of b k] that by (simp add: free_at_def)
  have "dll m' (segregated_heads s ! i) (fs ! i)" if "i < NUM_SIZE_CLASSES" for i
    using dll_cong [OF lists_okD(3) [OF D(3) that]] lists_okD(5) [OF D(3) that] same by (metis UnI1)
  then have "lists_ok (s\<lparr>mem := m'\<rparr>) bs fs H"
    using D(3) fr by (auto simp: lists_ok_def)
  moreover have "map_ok m' b k = map_ok (mem s) b k" if "(b, k) \<in> set (mappings (os s))" for b k
    using same [of b k] that same_blk(3) by blast
  then have "mappings_ok (s\<lparr>mem := m'\<rparr>)" using D(2) by (auto simp: mappings_ok_def)
  moreover have "no_adj (free_at m' H) bs" using D(4) by (rule no_adj_mono) (auto simp: fr)
  moreover have "blk_ok m' b k = blk_ok (mem s) b k" if "(b, k) \<in> set bs" for b k
    using same [of b k] that same_blk(2) by blast
  ultimately show ?thesis using D(1,5) by (auto simp: wfd_def region_ok_def)
qed

lemma view_write:
  assumes inv: "heap_inv s" and p: "heap_view s p = Some xs"
    and same: "\<And>x. x < p \<or> p + length xs \<le> x \<Longrightarrow> m' x = mem s x"
  shows "heap_inv (s\<lparr>mem := m'\<rparr>)"
    "heap_view (s\<lparr>mem := m'\<rparr>) = (heap_view s)(p \<mapsto> map m' [p..<p + length xs])"
proof -
  from inv obtain bs fs where wf: "wfd s bs fs {}" and mx: "\<not> alloc_mutex s" by (rule heap_invE)
  from p obtain b n where b: "(b, n) \<in> al s bs {}" "p = b + HDR" "xs = payload (mem s) b"
    unfolding heap_view_iff [OF wf] by blast
  have len: "length xs + 64 \<le> n" using al_requested(1) [OF wf b(1)] b(3) by (simp add: payload_def)
  have in_bs: "c = b \<and> k = n \<or> b + n \<le> c \<or> c + k \<le> b"
    if "(c, k) \<in> set bs \<union> set (mappings (os s))" for c k
    using that
  proof
    assume "(c, k) \<in> set bs"
    then show ?thesis using al_apart_block [OF wf b(1)] by blast
  next
    assume "(c, k) \<in> set (mappings (os s))"
    then have "(c, k) \<in> al s bs {}" by (simp add: al_def)
    then show ?thesis using al_apart [OF wf b(1)] by blast
  qed
  have k64: "64 \<le> k" if "(c, k) \<in> set bs \<union> set (mappings (os s))" for c k
    using that region_block(5) [OF wfdD(1) [OF wf], of c k] mapping_block(1) [OF wf, of c k]
    by (auto simp: MMAP_THRESHOLD_def)
  have tags: "hdr m' c = hdr (mem s) c \<and> ftr m' (footer_of c k) = ftr (mem s) (footer_of c k)"
    if c: "(c, k) \<in> set bs \<union> set (mappings (os s))" for c k
    using in_bs [OF c] k64 [OF c] len b(2) by (auto intro!: hdr_cong ftr_cong same)
  have wf': "wfd (s\<lparr>mem := m'\<rparr>) bs fs {}" by (rule wfd_same_tags [OF wf tags])
  then show "heap_inv (s\<lparr>mem := m'\<rparr>)" using mx heap_invI [OF wf'] by simp
  have al: "al (s\<lparr>mem := m'\<rparr>) bs {} = al s bs {}" using tags by (force simp: al_def)
  have fx: "fixed (al s bs {} - {(b, n)}) (mem s) m'"
    using al_apart [OF wf _ b(1)] len b(2) by (fastforce simp: fixed_def intro!: same)
  have hb: "hdr m' b = hdr (mem s) b" using tags [of b n] b(1) by (auto simp: al_def)
  show "heap_view (s\<lparr>mem := m'\<rparr>) = (heap_view s)(p \<mapsto> map m' [p..<p + length xs])"
    using view_replace [OF wf wf' _ b(1), of b n] fx b al hb
    by (simp add: insert_absorb payload_def)
qed

end
