(* ===== verification/Malloc_Correct.thy ===== *)
theory Malloc_Correct
  imports Allocator Heap_View
begin

text \<open>
  Correctness of \<^verbatim>\<open>my_malloc\<close> and \<^verbatim>\<open>my_calloc\<close>: on a well-formed heap they return, keep the
  heap well formed, and add exactly one block to the view.
\<close>

subsection \<open>Sizes and bookkeeping\<close>

lemma total_size_of_eq:
  assumes "sz \<le> SIZE_MAX - 1024"
  shows "total_size_of sz = 64 + ALIGN sz" "sz + 64 \<le> total_size_of sz"
    "total_size_of sz mod 16 = 0" "total_size_of sz \<le> sz + 79" "total_size_of sz + 80 < 2 ^ 64"
proof -
  have "sz + 15 < 2 ^ 64" and lt: "sz < 2 ^ 64 - 1024" using assms by (simp_all add: SIZE_MAX_def)
  note A = ALIGN_bounds [OF this(1)]
  have "add64 48 (ALIGN sz) = 48 + ALIGN sz" using A lt by (intro add64_no_wrap) simp
  moreover have "add64 (48 + ALIGN sz) 16 = 48 + ALIGN sz + 16" using A lt by (intro add64_no_wrap) simp
  ultimately show eq: "total_size_of sz = 64 + ALIGN sz" by (simp add: total_size_of_def)
  show "sz + 64 \<le> total_size_of sz" "total_size_of sz mod 16 = 0" "total_size_of sz \<le> sz + 79"
    "total_size_of sz + 80 < 2 ^ 64"
    using A lt unfolding eq by (simp_all add: mod_add_eq [symmetric])
qed

lemma al_simps [simp]:
  "al (s\<lparr>global_stats := g\<rparr>) bs H = al s bs H" "al (s\<lparr>errno := e\<rparr>) bs H = al s bs H"
  "al (s\<lparr>alloc_mutex := l\<rparr>) bs H = al s bs H" "al (s\<lparr>last_allocator_break := b\<rparr>) bs H = al s bs H"
  "al (s\<lparr>heap_start := b\<rparr>) bs H = al s bs H" "al (s\<lparr>initial_break := b\<rparr>) bs H = al s bs H"
  by (simp_all add: al_def)

lemmas stat_defs = stats_allocated_def stats_freed_def upd_stats_def upd_mem_def mutex_unlock_def

text \<open>A hole other than the block being linked or unlinked keeps its bytes.\<close>

lemma insert_keeps_hole:
  assumes "wfd s bs fs H" "(a, n) \<in> set bs" "a \<in> H" "block_size (hdr (mem s) a) = n"
    and "(b, k) \<in> set bs" "b \<in> H" "b \<noteq> a"
  shows "\<forall>x\<in>{b..<b + k}. mem (free_list_insert a s) x = mem s x"
  using free_list_insert_blocks(6) [OF assms(1-4), of b k] assms(5-7) by (auto simp: free_at_def)

lemma unlink_keeps_hole:
  assumes "wfd s bs fs H" "(a, n) \<in> set bs" "free_at (mem s) H a" "(b, k) \<in> set bs" "b \<in> H"
  shows "\<forall>x\<in>{b..<b + k}. mem (unlink a s) x = mem s x"
  using unlink_blocks(7) [OF assms(1-3), of b k] assms(4,5) by (auto simp: free_at_def)

subsection \<open>The last step: handing the block out\<close>

lemma malloc_finish_ok:
  assumes wf: "wfd s bs fs {a}" and a: "(a, n) \<in> set bs"
    and h: "magic_header (hdr (mem s) a) = ALLOC_MAGIC_HEADER" "block_size (hdr (mem s) a) = n"
      "is_mmap (hdr (mem s) a) = 0"
    and sz: "sz + 64 \<le> n"
  defines "s' \<equiv> snd (malloc_finish a sz s)"
  shows "fst (malloc_finish a sz s) = a + HDR" "wfd s' bs fs {}"
    "al s' bs {} = insert (a, n) (al s bs {a})" "(a, n) \<notin> al s bs {a}"
    "fixed (al s bs {a}) (mem s) (mem s')" "requested_size (hdr (mem s') a) = sz"
    "\<not> alloc_mutex s'"
    "global_stats s' = (global_stats s)\<lparr>total_allocated := add64 (total_allocated (global_stats s)) sz\<rparr>"
proof -
  note B = region_block [OF wfdD(1) [OF wf] a]
  define m where "m = set_requested_size a sz (set_is_free a 0 (mem s))"
  define m' where "m' = put_footer a n m"
  have n64: "n < 2 ^ 64" "sz < 2 ^ 64" using B(9) sz by auto
  have hm: "hdr m a = (hdr (mem s) a)\<lparr>is_free := 0, requested_size := sz\<rparr>"
    using n64 by (simp add: m_def mem_simps)
  have hm': "hdr m' a = hdr m a" using B(5) by (simp add: m'_def mem_simps)
  have fm': "ftr m' (footer_of a n) = \<lparr>magic_footer = ALLOC_MAGIC_FOOTER, f_block_size = n\<rparr>"
    using n64 by (simp add: m'_def mem_simps)
  have same: "m' x = mem s x" if "x < a \<or> a + n \<le> x" for x
    using that B(5) by (auto simp: m'_def m_def mem_simps)
  have s': "s' = s\<lparr>mem := m', alloc_mutex := False,
      global_stats := (global_stats s)\<lparr>total_allocated := add64 (total_allocated (global_stats s)) sz\<rparr>\<rparr>"
    using h(2) hm by (simp add: s'_def malloc_finish_def Let_def stat_defs m'_def m_def)
  note W = step_write [OF wf a _ same, simplified]
  have ok: "blk_ok m' a n" using h hm hm' fm' sz by (simp add: blk_ok_def tags_ok_def)
  note C = step_close [OF W(1) a, simplified, OF ok]
  show "fst (malloc_finish a sz s) = a + HDR" by (simp add: malloc_finish_def Let_def)
  show "wfd s' bs fs {}" using C(1) hm hm' by (simp add: s')
  show "al s' bs {} = insert (a, n) (al s bs {a})" using C(2) hm hm' W(2) by (simp add: s' tr_def)
  show "(a, n) \<notin> al s bs {a}"
  proof
    assume "(a, n) \<in> al s bs {a}"
    from al_hole_bytes [OF wf this, of a] have "a \<notin> hole_bytes bs {a}" using B(5) by simp
    moreover have "a \<in> hole_bytes bs {a}" using a B(5) by (fastforce simp: hole_bytes_iff)
    ultimately show False by blast
  qed
  show "fixed (al s bs {a}) (mem s) (mem s')" using W(2) by (simp add: s' tr_def)
  show "requested_size (hdr (mem s') a) = sz" "\<not> alloc_mutex s'"
    "global_stats s' = (global_stats s)\<lparr>total_allocated := add64 (total_allocated (global_stats s)) sz\<rparr>"
    using hm hm' by (simp_all add: s')
qed

subsection \<open>Splitting\<close>

text \<open>The right one of two neighbouring holes is given back to the free lists.\<close>

lemma insert_tail:
  assumes wf: "wfd s (xs @ (a, t) # (b, r) # ys) fs {b, a}"
    and tags: "tags_ok (mem s) b r" "is_mmap (hdr (mem s) b) = 0"
    and right: "ys \<noteq> [] \<longrightarrow> \<not> free_at (mem s) {b, a} (fst (hd ys))"
  defines "bs \<equiv> xs @ (a, t) # (b, r) # ys" and "s' \<equiv> free_list_insert b s"
  shows "\<exists>fs'. wfd s' bs fs' {a}" "tr s bs {b, a} s' bs {a}" "\<forall>x\<in>{a..<a + t}. mem s' x = mem s x"
proof -
  have ab: "a \<noteq> b" using region_distinct [OF wfdD(1) [OF wf]] by auto
  have H: "{b, a} - {b} = {a}" using ab by auto
  have wf2: "wfd s ((xs @ [(a, t)]) @ (b, r) # ys) fs {b, a}" using wf by simp
  have l: "xs @ [(a, t)] \<noteq> [] \<longrightarrow> \<not> free_at (mem s) {b, a} (fst (last (xs @ [(a, t)])))"
    by (simp add: free_at_def)
  have bs: "(xs @ [(a, t)]) @ (b, r) # ys = bs" by (simp add: bs_def)
  show "\<exists>fs'. wfd s' bs fs' {a}" "tr s bs {b, a} s' bs {a}"
    using step_insert [OF wf2 insertI1 tags l right, folded s'_def] unfolding H bs by simp_all
  have "block_size (hdr (mem s) b) = r" using tags(1) by (simp add: tags_ok_def)
  from insert_keeps_hole [OF wf _ _ this, of a t] ab show "\<forall>x\<in>{a..<a + t}. mem s' x = mem s x"
    by (simp add: s'_def)
qed

text \<open>A hole is split and both parts are written: the left part stays a hole.\<close>

lemma split_write:
  assumes wf: "wfd s (xs @ (a, t + r) # ys) fs {a}"
    and t: "64 \<le> t" "64 \<le> r" "t mod 16 = 0"
    and m1: "\<And>x. x < a \<or> a + t \<le> x \<Longrightarrow> m1 x = mem s x"
    and m2: "\<And>x. x < a + t \<or> a + t + r \<le> x \<Longrightarrow> m2 x = m1 x"
  defines "bs' \<equiv> xs @ (a, t) # (a + t, r) # ys"
  shows "wfd (s\<lparr>mem := m2\<rparr>) bs' fs {a + t, a}" "tr s (xs @ (a, t + r) # ys) {a} (s\<lparr>mem := m2\<rparr>) bs' {a + t, a}"
    "\<And>b k. (b, k) \<in> set xs \<union> set ys \<Longrightarrow> free_at m2 {a + t, a} b = free_at (mem s) {a} b"
proof -
  let ?H = "{a + t, a}"
  note S = step_split [OF wf _ t, simplified, folded bs'_def]
  have a: "(a, t) \<in> set bs'" "(a + t, r) \<in> set bs'" by (simp_all add: bs'_def)
  note W1 = step_write [OF S(1) a(1) _ m1, simplified]
  note W2 = step_write [OF W1(1) a(2), of m2, simplified, OF m2]
  show "wfd (s\<lparr>mem := m2\<rparr>) bs' fs ?H" by (rule W2(1))
  have "tr s bs' ?H (s\<lparr>mem := m2\<rparr>) bs' ?H"
    using tr_trans [OF W1(2) W2(2)] by simp
  then show "tr s (xs @ (a, t + r) # ys) {a} (s\<lparr>mem := m2\<rparr>) bs' ?H" by (rule tr_trans [OF S(2)])
  show "free_at m2 ?H b = free_at (mem s) {a} b" if b: "(b, k) \<in> set xs \<union> set ys" for b k
  proof -
    have bb: "(b, k) \<in> set bs'" using b by (auto simp: bs'_def)
    have "distinct (map fst bs')" by (rule region_distinct [OF wfdD(1) [OF S(1)]])
    then have ne: "b \<noteq> a" "b \<noteq> a + t" using b by (auto simp: bs'_def image_iff)
    have "free_at m2 ?H b = free_at m1 ?H b"
      using write_hdr(2) [OF W1(1) a(2) _ _ bb ne(2), of m2] m2 by simp
    also have "\<dots> = free_at (mem s) ?H b"
      using write_hdr(2) [OF S(1) a(1) _ _ bb ne(1), of m1] m1 by simp
    also have "\<dots> \<longleftrightarrow> free_at (mem s) {a} b" using ne by (simp add: free_at_def)
    finally show ?thesis .
  qed
qed

lemma split_off:
  assumes wf: "wfd s (xs @ (a, t + r) # ys) fs {a}"
    and t: "64 \<le> t" "64 \<le> r" "t mod 16 = 0"
    and m1: "\<And>x. x < a \<or> a + t \<le> x \<Longrightarrow> m1 x = mem s x"
    and m2: "\<And>x. x < a + t \<or> a + t + r \<le> x \<Longrightarrow> m2 x = m1 x"
    and tags: "tags_ok m2 (a + t) r" "is_mmap (hdr m2 (a + t)) = 0"
    and right: "ys \<noteq> [] \<longrightarrow> \<not> free_at (mem s) {a} (fst (hd ys))"
  defines "s' \<equiv> free_list_insert (a + t) (s\<lparr>mem := m2\<rparr>)" and "bs' \<equiv> xs @ (a, t) # (a + t, r) # ys"
  shows "\<exists>fs'. wfd s' bs' fs' {a}" "tr s (xs @ (a, t + r) # ys) {a} s' bs' {a}"
    "\<forall>x\<in>{a..<a + t}. mem s' x = m1 x"
proof -
  note W = split_write [OF wf t m1 m2]
  have "ys \<noteq> [] \<longrightarrow> \<not> free_at (mem (s\<lparr>mem := m2\<rparr>)) {a + t, a} (fst (hd ys))"
    using W(3) [of "fst (hd ys)" "snd (hd ys)"] right by auto
  note I = insert_tail [OF W(1), simplified, OF tags this [simplified], folded s'_def bs'_def]
  show "\<exists>fs'. wfd s' bs' fs' {a}" by (rule I(1))
  show "tr s (xs @ (a, t + r) # ys) {a} s' bs' {a}"
    using tr_trans [OF W(2) [folded bs'_def] I(2)] .
  show "\<forall>x\<in>{a..<a + t}. mem s' x = m1 x" using I(3) m2 by auto
qed

lemma malloc_split_rest [simp]:
  "alloc_mutex (malloc_split a t s) = alloc_mutex s" "global_stats (malloc_split a t s) = global_stats s"
  "os (malloc_split a t s) = os s" "heap_start (malloc_split a t s) = heap_start s"
  by (simp_all add: malloc_split_def Let_def)

lemma malloc_split_ok:
  assumes wf: "wfd s (xs @ (a, n) # ys) fs {a}"
    and h: "magic_header (hdr (mem s) a) = ALLOC_MAGIC_HEADER" "block_size (hdr (mem s) a) = n"
      "is_mmap (hdr (mem s) a) = 0"
    and t: "64 \<le> t" "t mod 16 = 0" "t \<le> n" "t + 80 < 2 ^ 64"
    and right: "ys \<noteq> [] \<longrightarrow> \<not> free_at (mem s) {a} (fst (hd ys))"
  defines "s' \<equiv> malloc_split a t s"
  shows "\<exists>bs' fs' n'. wfd s' bs' fs' {a} \<and> tr s (xs @ (a, n) # ys) {a} s' bs' {a} \<and>
     (a, n') \<in> set bs' \<and> t \<le> n' \<and> n' < t + 80 \<and> magic_header (hdr (mem s') a) = ALLOC_MAGIC_HEADER \<and>
     block_size (hdr (mem s') a) = n' \<and> is_mmap (hdr (mem s') a) = 0"
proof (cases "n \<ge> t + 80")
  case False
  then have "s' = s" using t(4) h(2) by (simp add: s'_def malloc_split_def min_split_def u64_simps)
  then show ?thesis using wf h t(3) False by (intro exI [of _ "xs @ (a, n) # ys"] exI [of _ fs] exI [of _ n]) auto
next
  case True
  define r where "r = n - t"
  have nr: "n = t + r" "64 \<le> r" using True by (simp_all add: r_def)
  have "(a, n) \<in> set (xs @ (a, n) # ys)" by simp
  note B = region_block [OF wfdD(1) [OF wf] this]
  define m1 where "m1 = set_block_size a t (mem s)"
  define m2 where "m2 = put_footer (a + t) r (put_free_header (a + t) r m1)"
  have n64: "t < 2 ^ 64" "r < 2 ^ 64" using B(9) nr by auto
  have "s' = free_list_insert (a + t) (s\<lparr>mem := m2\<rparr>)"
    using True t(4) h(2) by (simp add: s'_def malloc_split_def Let_def min_split_def u64_simps m1_def m2_def r_def)
  moreover have "tags_ok m2 (a + t) r" "is_mmap (hdr m2 (a + t)) = 0"
    using nr n64 by (simp_all add: tags_ok_def m2_def mem_simps)
  moreover have "m1 x = mem s x" if "x < a \<or> a + t \<le> x" for x
    using that t(1) by (auto simp: m1_def mem_simps)
  moreover have "m2 x = m1 x" if "x < a + t \<or> a + t + r \<le> x" for x
    using that nr by (auto simp: m2_def mem_simps)
  ultimately have S: "\<exists>fs'. wfd s' (xs @ (a, t) # (a + t, r) # ys) fs' {a}"
    "tr s (xs @ (a, n) # ys) {a} s' (xs @ (a, t) # (a + t, r) # ys) {a}"
    "\<forall>x\<in>{a..<a + t}. mem s' x = m1 x"
    using split_off [OF wf [unfolded nr(1)] t(1) nr(2) t(2), of m1 m2] right nr(1) by simp_all
  have "hdr (mem s') a = hdr m1 a" using S(3) t(1) by (intro hdr_cong) auto
  then have "hdr (mem s') a = (hdr (mem s) a)\<lparr>block_size := t\<rparr>" using n64 by (simp add: m1_def mem_simps)
  with S h show ?thesis by (auto intro!: exI [of _ "xs @ (a, t) # (a + t, r) # ys"] exI [of _ t])
qed

subsection \<open>Growing the heap\<close>

lemma ensure_break_aligned_ok:
  assumes K: "kernel_ok K" and brk: "cur_brk (os s) < BRK_FAILED" and e: "ensure_break_aligned K s = (ok, s')"
  shows "cur_brk (os s) mod 16 = 0 \<Longrightarrow> ok \<and> s' = s"
    and "ok \<Longrightarrow> cur_brk (os s) mod 16 \<noteq> 0 \<Longrightarrow>
      \<exists>n. 0 < n \<and> k_sbrk K (os s) n \<and> (cur_brk (os s) + n) mod 16 = 0 \<and>
          s' = s\<lparr>os := (os s)\<lparr>cur_brk := cur_brk (os s) + n\<rparr>\<rparr>"
    and "\<not> ok \<Longrightarrow> \<exists>e. s' = s\<lparr>errno := e\<rparr>"
proof -
  let ?c = "cur_brk (os s)"
  have pad: "(?c + (16 - ?c mod 16)) mod 16 = 0" if "?c mod 16 \<noteq> 0" by presburger
  have pos: "0 < 16 - ?c mod 16" by simp
  show "?c mod 16 = 0 \<Longrightarrow> ok \<and> s' = s"
    using e brk by (simp add: ensure_break_aligned_def kernel_okD(1) [OF K] ALIGNMENT_def)
  show "\<exists>n. 0 < n \<and> k_sbrk K (os s) n \<and> (?c + n) mod 16 = 0 \<and>
      s' = s\<lparr>os := (os s)\<lparr>cur_brk := ?c + n\<rparr>\<rparr>" if "ok" "?c mod 16 \<noteq> 0"
    using e brk that pad pos
    by (intro exI [of _ "16 - ?c mod 16"])
      (auto simp: ensure_break_aligned_def kernel_okD(1) [OF K] ALIGNMENT_def sbrk_def Let_def split: if_splits)
  show "\<exists>e. s' = s\<lparr>errno := e\<rparr>" if "\<not> ok"
    using e brk that
    by (auto simp: ensure_break_aligned_def kernel_okD(1) [OF K] ALIGNMENT_def sbrk_def Let_def split: if_splits)
qed

text \<open>Fields an operation leaves alone, and the effect of preparing the break.\<close>

lemma wfd_brk:
  assumes "wfd s bs fs H"
  shows "cur_brk (os s) < BRK_FAILED" "0 < cur_brk (os s)" "initial_break s = heap_start s"
    "heap_start s \<noteq> 0 \<Longrightarrow> cur_brk (os s) mod 16 = 0"
  using wfdD(1) [OF assms] tiles_aligned
  by (auto simp: region_ok_def BRK_FAILED_def SIZE_MAX_def USER_TOP_def)

lemma malloc_prepare_first:
  assumes K: "kernel_ok K" and wf: "wfd s bs fs {}" and hs: "heap_start s = 0"
    and p: "malloc_prepare K s = (ok, s')"
  shows "\<not> ok \<and> (\<exists>e. s' = s\<lparr>errno := e\<rparr>) \<or>
    ok \<and> bs = [] \<and> wfd s' [] fs {} \<and> heap_start s' \<noteq> 0 \<and>
      (\<exists>k h. s' = s\<lparr>os := (os s)\<lparr>cur_brk := k\<rparr>, initial_break := h, heap_start := h\<rparr>)"
proof -
  note W = wfd_brk [OF wf]
  obtain ok1 s1 where e1: "ensure_break_aligned K s = (ok1, s1)" by (cases "ensure_break_aligned K s")
  note E = ensure_break_aligned_ok [OF K W(1) e1]
  show ?thesis
  proof (cases ok1)
    case False
    then show ?thesis using p e1 E(3) W(3) hs by (auto simp: malloc_prepare_def)
  next
    case True
    have "\<exists>k. wfd s1 [] fs {} \<and> bs = [] \<and> s1 = s\<lparr>os := (os s)\<lparr>cur_brk := k\<rparr>\<rparr> \<and> k mod 16 = 0"
    proof (cases "cur_brk (os s) mod 16 = 0")
      case True
      then have "s1 = s" using E(1) by simp
      moreover have "bs = []" using wfdD(1) [OF wf] hs by (simp add: region_ok_def)
      ultimately show ?thesis using wf True by (intro exI [of _ "cur_brk (os s)"]) simp
    next
      case False
      obtain n where n: "0 < n" "k_sbrk K (os s) n" "(cur_brk (os s) + n) mod 16 = 0"
        "s1 = s\<lparr>os := (os s)\<lparr>cur_brk := cur_brk (os s) + n\<rparr>\<rparr>" by (use E(2) [OF \<open>ok1\<close> False] in \<open>elim exE conjE\<close>)
      from step_pad [OF wf hs kernel_okD(2) [OF K n(2,1)] kernel_gap [OF K n(2,1)]] n(3,4)
      show ?thesis by auto
    qed
    then obtain k where k: "wfd s1 [] fs {}" "bs = []" "s1 = s\<lparr>os := (os s)\<lparr>cur_brk := k\<rparr>\<rparr>" "k mod 16 = 0"
      by (elim exE conjE)
    define s3 where "s3 = s1\<lparr>initial_break := k, heap_start := k\<rparr>"
    have hs1: "heap_start s1 = 0" "initial_break s1 = 0" "cur_brk (os s1) = k" using k(3) hs W(3) by auto
    have wf3: "wfd s3 [] fs {}" using step_start [OF k(1) hs1(1)] k(4) hs1 by (simp add: s3_def)
    note W1 = wfd_brk [OF k(1)]
    have "ensure_break_aligned K s3 = (True, s3)"
      using ensure_break_aligned_ok(1) [OF K wfd_brk(1) [OF wf3]] k(3,4)
      by (cases "ensure_break_aligned K s3") (auto simp: s3_def)
    moreover have "malloc_prepare K s = ensure_break_aligned K s3"
      using e1 True hs W(3) hs1 W1(1)
      by (simp add: malloc_prepare_def Let_def kernel_okD(1) [OF K] s3_def)
    ultimately show ?thesis using p k wf3 hs1(3) W1(2) by (auto simp: s3_def)
  qed
qed

lemma malloc_prepare_ok:
  assumes K: "kernel_ok K" and wf: "wfd s bs fs {}" and p: "malloc_prepare K s = (ok, s')"
  shows "wfd s' bs fs {}" "mem s' = mem s" "mappings (os s') = mappings (os s)"
    "global_stats s' = global_stats s" "alloc_mutex s' = alloc_mutex s" "ok \<Longrightarrow> heap_start s' \<noteq> 0"
proof -
  have "wfd s' bs fs {} \<and> mem s' = mem s \<and> mappings (os s') = mappings (os s) \<and>
    global_stats s' = global_stats s \<and> alloc_mutex s' = alloc_mutex s \<and> (ok \<longrightarrow> heap_start s' \<noteq> 0)"
  proof (cases "heap_start s = 0")
    case True
    then show ?thesis using malloc_prepare_first [OF K wf True p] wf by auto
  next
    case False
    note W = wfd_brk [OF wf]
    have "ensure_break_aligned K s = (True, s)"
      using ensure_break_aligned_ok(1) [OF K W(1)] W(4) False
      by (cases "ensure_break_aligned K s") auto
    then show ?thesis using p False W(3) wf by (simp add: malloc_prepare_def Let_def)
  qed
  then show "wfd s' bs fs {}" "mem s' = mem s" "mappings (os s') = mappings (os s)"
    "global_stats s' = global_stats s" "alloc_mutex s' = alloc_mutex s" "ok \<Longrightarrow> heap_start s' \<noteq> 0"
    by auto
qed

lemma malloc_grow_ok:
  assumes K: "kernel_ok K" and wf: "wfd s bs fs {}" and t: "64 \<le> t" "t mod 16 = 0"
    and g: "malloc_grow K t s = (r, s')"
  shows "r = None \<Longrightarrow> wfd s' bs fs {} \<and> mem s' = mem s \<and> mappings (os s') = mappings (os s) \<and>
      \<not> alloc_mutex s' \<and> errno s' = ENOMEM \<and> global_stats s' = global_stats s"
    and "r = Some a \<Longrightarrow> \<exists>bs'. wfd s' bs' fs {a} \<and> (a, t) \<in> set bs' \<and> tr s bs {} s' bs' {a} \<and>
      magic_header (hdr (mem s') a) = ALLOC_MAGIC_HEADER \<and> block_size (hdr (mem s') a) = t \<and>
      is_mmap (hdr (mem s') a) = 0 \<and> total_allocated (global_stats s') = total_allocated (global_stats s) \<and>
      total_freed (global_stats s') = total_freed (global_stats s)"
proof -
  obtain ok s1 where p: "malloc_prepare K s = (ok, s1)" by (cases "malloc_prepare K s")
  note P = malloc_prepare_ok [OF K wf p]
  note W = wfd_brk [OF P(1)]
  show "wfd s' bs fs {} \<and> mem s' = mem s \<and> mappings (os s') = mappings (os s) \<and>
      \<not> alloc_mutex s' \<and> errno s' = ENOMEM \<and> global_stats s' = global_stats s" if "r = None"
    using g that P p W(1)
    by (auto simp: malloc_grow_def Let_def sbrk_def mutex_unlock_def split: if_splits)
  assume r: "r = Some a"
  have ok: "ok" and sb: "k_sbrk K (os s1) t"
    using g p r by (auto simp: malloc_grow_def Let_def sbrk_def split: if_splits)
  let ?c = "cur_brk (os s1)"
  define m where "m = set_prev ?c 0 (set_next ?c 0 (set_is_mmap ?c 0 (set_block_size ?c t
                      (set_magic_header ?c ALLOC_MAGIC_HEADER (mem s1)))))"
  define s2 where "s2 = s1\<lparr>os := (os s1)\<lparr>cur_brk := ?c + t\<rparr>\<rparr>"
  have t0: "0 < t" using t(1) by simp
  note G = step_grow [OF P(1) t P(6) [OF ok] kernel_okD(2) [OF K sb t0] kernel_gap [OF K sb t0], folded s2_def]
  have mem2: "(?c, t) \<in> set (bs @ [(?c, t)])" by simp
  have same: "m x = mem s2 x" if "x < ?c \<or> ?c + t \<le> x" for x
    using that t(1) by (auto simp: m_def s2_def mem_simps)
  note S = step_write [OF G(1) mem2 _ same, simplified]
  have "t < 2 ^ 64" using region_block(9) [OF wfdD(1) [OF G(1)] mem2] by simp
  then have h: "magic_header (hdr m ?c) = ALLOC_MAGIC_HEADER" "block_size (hdr m ?c) = t" "is_mmap (hdr m ?c) = 0"
    by (simp_all add: m_def mem_simps magic_defs)
  have a: "a = ?c" and s': "\<exists>g b. s' = s2\<lparr>mem := m, last_allocator_break := b, global_stats := g\<rparr> \<and>
      total_allocated g = total_allocated (global_stats s) \<and> total_freed g = total_freed (global_stats s)"
    using g p r ok sb W(1) P(4) by (auto simp: malloc_grow_def Let_def sbrk_def m_def s2_def upd_stats_def)
  then obtain g b where s': "s' = s2\<lparr>mem := m, last_allocator_break := b, global_stats := g\<rparr>"
    and g: "total_allocated g = total_allocated (global_stats s)" "total_freed g = total_freed (global_stats s)"
    by blast
  have "tr s bs {} s2 (bs @ [(?c, t)]) {?c}" by (rule tr_trans [OF tr_cong G(2)]) (use P in auto)
  then have "tr s bs {} (s2\<lparr>mem := m\<rparr>) (bs @ [(?c, t)]) {?c}" by (rule tr_trans [OF _ S(2)])
  then have "tr s bs {} s' (bs @ [(?c, t)]) {?c}" by (simp add: s' tr_def)
  then show "\<exists>bs'. wfd s' bs' fs {a} \<and> (a, t) \<in> set bs' \<and> tr s bs {} s' bs' {a} \<and>
      magic_header (hdr (mem s') a) = ALLOC_MAGIC_HEADER \<and> block_size (hdr (mem s') a) = t \<and>
      is_mmap (hdr (mem s') a) = 0 \<and> total_allocated (global_stats s') = total_allocated (global_stats s) \<and>
      total_freed (global_stats s') = total_freed (global_stats s)"
    using S(1) h g a by (intro exI [of _ "bs @ [(?c, t)]"]) (simp add: s')
qed

subsection \<open>The outcomes of an allocation\<close>

text \<open>A request of \<open>sz\<close> bytes either changes nothing a caller can see and returns \<^verbatim>\<open>NULL\<close>, or
  adds a payload of \<open>sz\<close> bytes at a fresh pointer.\<close>

definition allocates :: "nat \<Rightarrow> alloc_state \<Rightarrow> addr \<Rightarrow> alloc_state \<Rightarrow> bool" where
  "allocates sz s p s' \<longleftrightarrow> heap_inv s' \<and>
     total_freed (global_stats s') = total_freed (global_stats s) \<and>
     (if p = 0 then heap_view s' = heap_view s \<and>
        total_allocated (global_stats s') = total_allocated (global_stats s)
      else heap_view s p = None \<and> (\<exists>xs. length xs = sz \<and> heap_view s' = (heap_view s)(p \<mapsto> xs)) \<and>
        total_allocated (global_stats s') = add64 (total_allocated (global_stats s)) sz)"

lemma length_payload [simp]: "length (payload m b) = requested_size (hdr m b)"
  by (simp add: payload_def)

lemma allocates_fail:
  assumes wf: "wfd s bs fs {}" and wf': "wfd s' bs fs' {}" and "mem s' = mem s"
    "mappings (os s') = mappings (os s)" "\<not> alloc_mutex s'"
    "total_allocated (global_stats s') = total_allocated (global_stats s)"
    "total_freed (global_stats s') = total_freed (global_stats s)"
  shows "allocates sz s 0 s'"
  using view_same [OF wf wf' tr_cong] assms heap_invI [OF wf'] by (simp add: allocates_def)

lemma allocates_block:
  assumes wf: "wfd s bs fs {}" and wf': "wfd s' bs' fs' {}"
    and A: "al s' bs' {} = insert (b, n) (al s bs {})" "(b, n) \<notin> al s bs {}"
    and fx: "fixed (al s bs {}) (mem s) (mem s')" and sz: "requested_size (hdr (mem s') b) = sz"
    and rest: "\<not> alloc_mutex s'"
    "total_allocated (global_stats s') = add64 (total_allocated (global_stats s)) sz"
    "total_freed (global_stats s') = total_freed (global_stats s)"
  shows "allocates sz s (b + HDR) s'"
  using view_add [OF wf wf' A fx] heap_invI [OF wf' rest(1)] rest sz
  by (auto simp: allocates_def intro!: exI [of _ "payload (mem s') b"])

lemma malloc_finish_allocates:
  assumes wf: "wfd s bs fs {}" and wf1: "wfd s1 bs1 fs1 {a}" and tr: "tr s bs {} s1 bs1 {a}"
    and a: "(a, n) \<in> set bs1"
    and h: "magic_header (hdr (mem s1) a) = ALLOC_MAGIC_HEADER" "block_size (hdr (mem s1) a) = n"
      "is_mmap (hdr (mem s1) a) = 0" and sz: "sz + 64 \<le> n"
    and g: "total_allocated (global_stats s1) = total_allocated (global_stats s)"
      "total_freed (global_stats s1) = total_freed (global_stats s)"
  shows "\<exists>s'. malloc_finish a sz s1 = (a + HDR, s') \<and> allocates sz s (a + HDR) s'"
proof -
  obtain s' where s': "malloc_finish a sz s1 = (a + HDR, s')"
    using malloc_finish_ok(1) [OF wf1 a h sz] by (cases "malloc_finish a sz s1") auto
  note F = malloc_finish_ok [OF wf1 a h sz, unfolded s' snd_conv fst_conv]
  have al: "al s1 bs1 {a} = al s bs {}" and fx: "fixed (al s bs {}) (mem s) (mem s1)"
    using tr by (auto simp: tr_def)
  have "allocates sz s (a + HDR) s'"
    using F(3-5) g F(8) unfolding al
    by (intro allocates_block [OF wf F(2) _ _ fixed_trans [OF fx] F(6,7)]) simp_all
  with s' show ?thesis by blast
qed

lemma malloc_mmap_ok:
  assumes K: "kernel_ok K" and wf: "wfd s bs fs {}" and t: "MMAP_THRESHOLD \<le> t" "sz + 64 \<le> t"
  shows "\<exists>p s'. malloc_mmap K sz t s = (p, s') \<and> allocates sz s p s'"
proof (cases "k_mmap K (os s) t")
  case None
  then show ?thesis
    by (auto simp: malloc_mmap_def mmap_def mutex_unlock_def intro!: allocates_fail [OF wf] wf)
next
  case (Some a)
  note pl = kernel_okD(4) [OF K Some] and ap = kernel_okD(5) [OF K Some]
  define m where "m = set_prev a 0 (set_next a 0 (set_is_mmap a 1 (set_block_size a t
    (set_requested_size a sz (set_is_free a 0 (set_magic_header a ALLOC_MAGIC_HEADER (mem s)))))))"
  define m' where "m' = put_footer a t m"
  have t64: "64 \<le> t" "t < 2 ^ 64" "sz < 2 ^ 64"
    using t pl by (auto simp: MMAP_THRESHOLD_def placed_def USER_TOP_def)
  have same: "m' x = mem s x" if "x < a \<or> a + t \<le> x" for x
    using that t64 by (auto simp: m'_def m_def mem_simps)
  have h: "hdr m' a = hdr m a" using t64 by (simp add: m'_def mem_simps)
  have h': "hdr m a = \<lparr>magic_header = ALLOC_MAGIC_HEADER, is_free = 0, requested_size = sz, block_size = t,
      is_mmap = 1, next_ptr = 0, prev_ptr = 0\<rparr>"
    using t64 by (simp add: m_def mem_simps magic_defs)
  have ok: "map_ok m' a t"
    using t t64 h h' by (simp add: map_ok_def tags_ok_def) (simp add: m'_def mem_simps)
  note M = step_map [OF wf pl t(1) ap same ok]
  let ?s' = "s\<lparr>os := (os s)\<lparr>mappings := (a, t) # mappings (os s)\<rparr>, mem := m', alloc_mutex := False,
    global_stats := (global_stats s)\<lparr>total_allocated := add64 (total_allocated (global_stats s)) sz,
      mmap_allocations := add64 (mmap_allocations (global_stats s)) 1\<rparr>\<rparr>"
  have "malloc_mmap K sz t s = (a + HDR, ?s')"
    using Some by (simp add: malloc_mmap_def mmap_def Let_def stat_defs m_def m'_def)
  moreover have "allocates sz s (a + HDR) ?s'"
    using M h h' by (intro allocates_block [OF wf, of _ bs fs a t]) (simp_all add: al_def)
  ultimately show ?thesis by blast
qed

subsection \<open>Allocation from the heap\<close>

lemma no_adj_right: "no_adj F (xs @ (a, n) # ys) \<Longrightarrow> F a \<Longrightarrow> ys \<noteq> [] \<Longrightarrow> \<not> F (fst (hd ys))"
  by (simp add: no_adj_append no_adj_Cons)

lemma no_adj_left: "no_adj F (xs @ (a, n) # ys) \<Longrightarrow> F a \<Longrightarrow> xs \<noteq> [] \<Longrightarrow> \<not> F (fst (last xs))"
  by (auto simp: no_adj_append no_adj_Cons)

lemma malloc_reuse_ok:
  assumes wf: "wfd s bs fs {}" and a: "(a, n) \<in> set bs" "free_at (mem s) {} a"
    and t: "64 \<le> t" "t mod 16 = 0" "t \<le> n" "t + 80 < 2 ^ 64" "sz + 64 \<le> t"
  shows "\<exists>s'. malloc_finish a sz (malloc_split a t (unlink a s)) = (a + HDR, s') \<and> allocates sz s (a + HDR) s'"
proof -
  let ?s1 = "unlink a s" and ?s2 = "malloc_split a t (unlink a s)"
  note U = step_unlink [OF wf a]
  from U(1) obtain fs1 where wf1: "wfd ?s1 bs fs1 {a}" by blast
  from a(1) obtain xs ys where bs: "bs = xs @ (a, n) # ys" by (meson split_list)
  have "\<not> free_at (mem ?s1) {a} (fst (hd ys))" if "ys \<noteq> []"
  proof -
    have "(fst (hd ys), snd (hd ys)) \<in> set bs" using that by (simp add: bs)
    from unlink_free_at [OF wf a this]
    show ?thesis using no_adj_right [OF wfdD(4) [OF wf, unfolded bs] a(2) that] by simp
  qed
  then obtain bs2 fs2 n2 where S: "wfd ?s2 bs2 fs2 {a}" "tr ?s1 bs {a} ?s2 bs2 {a}" "(a, n2) \<in> set bs2"
    "t \<le> n2" "magic_header (hdr (mem ?s2) a) = ALLOC_MAGIC_HEADER" "block_size (hdr (mem ?s2) a) = n2"
    "is_mmap (hdr (mem ?s2) a) = 0"
    using malloc_split_ok [OF wf1 [unfolded bs] U(4,3,5) t(1-4)] unfolding bs by blast
  have "tr s bs {} ?s2 bs2 {a}" using tr_trans [OF U(2) S(2)] by simp
  from malloc_finish_allocates [OF wf S(1) this S(3,5-7)] t(5) S(4) show ?thesis by simp
qed

lemma allocates_state_cong:
  assumes "allocates sz (s\<lparr>alloc_mutex := l\<rparr>) p s'" shows "allocates sz s p s'"
  using assms by (simp add: allocates_def split: if_splits)

lemma my_malloc_ok:
  assumes K: "kernel_ok K" and inv: "heap_inv s"
  shows "\<exists>p s'. my_malloc K sz s = Inr (p, s') \<and> allocates sz s p s'"
proof -
  consider "sz = 0" | "sz > SIZE_MAX - 1024" "sz \<noteq> 0" | "sz \<noteq> 0" "sz \<le> SIZE_MAX - 1024" by linarith
  then show ?thesis
  proof cases
    case 3
    from inv obtain bs fs where wf0: "wfd s bs fs {}" and mx: "\<not> alloc_mutex s" by (rule heap_invE)
    let ?s1 = "s\<lparr>alloc_mutex := True\<rparr>" and ?t = "total_size_of sz"
    have wf: "wfd ?s1 bs fs {}" using wf0 by simp
    note T = total_size_of_eq [OF 3(2)]
    have lock: "mutex_lock s = Inr ?s1" using mx by (simp add: mutex_lock_def)
    have "\<exists>p s'. my_malloc K sz s = Inr (p, s') \<and> allocates sz ?s1 p s'"
    proof (cases "?t \<ge> MMAP_THRESHOLD")
      case True
      then show ?thesis using 3 lock malloc_mmap_ok [OF K wf True T(2)] by (auto simp: my_malloc_def)
    next
      case False
      have t64: "64 \<le> ?t" using T(2) by simp
      from find_fit_spec [OF wf K, of ?t] show ?thesis
      proof (elim disjE exE conjE)
        assume f: "free_list_find_fit K ?t ?s1 = Inr (0, ?s1)"
        obtain r s3 where g: "malloc_grow K ?t ?s1 = (r, s3)" by (cases "malloc_grow K ?t ?s1")
        note G = malloc_grow_ok [OF K wf t64 T(3) g]
        show ?thesis
        proof (cases r)
          case None
          then have "allocates sz ?s1 0 s3" using G(1) by (intro allocates_fail [OF wf]) auto
          then show ?thesis using 3 lock False f g None by (simp add: my_malloc_def Let_def)
        next
          case (Some a)
          then obtain bs' where B: "wfd s3 bs' fs {a}" "(a, ?t) \<in> set bs'" "tr ?s1 bs {} s3 bs' {a}"
            "magic_header (hdr (mem s3) a) = ALLOC_MAGIC_HEADER" "block_size (hdr (mem s3) a) = ?t"
            "is_mmap (hdr (mem s3) a) = 0"
            "total_allocated (global_stats s3) = total_allocated (global_stats ?s1)"
            "total_freed (global_stats s3) = total_freed (global_stats ?s1)"
            using G(2) by blast
          from malloc_finish_allocates [OF wf B(1,3,2,4-6) T(2) B(7,8)]
          show ?thesis using 3 lock False f g Some by (auto simp: my_malloc_def Let_def)
        qed
      next
        fix a n assume f: "free_list_find_fit K ?t ?s1 = Inr (a, unlink a ?s1)"
          and a: "(a, n) \<in> set bs" "free_at (mem ?s1) {} a" "?t \<le> n"
        have "a \<noteq> 0" using region_block(8) [OF wfdD(1) [OF wf] a(1)] by simp
        with malloc_reuse_ok [OF wf a(1,2) t64 T(3) a(3) T(5,2)]
        show ?thesis using 3 lock False f by (auto simp: my_malloc_def Let_def)
      qed
    qed
    then show ?thesis using allocates_state_cong by blast
  qed (use inv in \<open>auto simp: my_malloc_def allocates_def\<close>)
qed

lemma allocates_fresh:
  assumes "allocates sz s p s'" "p \<noteq> 0"
  obtains xs where "heap_inv s'" "heap_view s p = None" "heap_view s' = (heap_view s)(p \<mapsto> xs)" "length xs = sz"
  using assms by (auto simp: allocates_def)

lemma memset0_simps:
  "x < p \<or> p + n \<le> x \<Longrightarrow> memset0 p n m x = m x" "map (memset0 p n m) [p..<p + n] = replicate n 0"
proof -
  show "map (memset0 p n m) [p..<p + n] = replicate n 0"
    by (rule nth_equalityI) (simp_all add: memset0_def)
qed (auto simp: memset0_def)

text \<open>\<^verbatim>\<open>my_calloc\<close> behaves as \<^verbatim>\<open>my_malloc\<close> of the product, with a zeroed payload.\<close>

lemma my_calloc_ok:
  assumes K: "kernel_ok K" and inv: "heap_inv s"
  shows "\<exists>p s'. my_calloc K nmemb sz s = Inr (p, s') \<and> allocates (nmemb * sz) s p s' \<and>
    (p \<noteq> 0 \<longrightarrow> heap_view s' p = Some (replicate (nmemb * sz) 0))"
proof (cases "nmemb = 0 \<or> sz = 0 \<or> sz > SIZE_MAX div nmemb")
  case True
  then show ?thesis using inv by (auto simp: my_calloc_def allocates_def)
next
  case False
  then have "sz * nmemb \<le> SIZE_MAX" using less_eq_div_iff_mult_less_eq [of nmemb sz SIZE_MAX] by simp
  then have mul: "mul64 nmemb sz = nmemb * sz" by (intro mul64_no_wrap) (simp add: SIZE_MAX_def mult.commute)
  from my_malloc_ok [OF K inv, of "nmemb * sz"] obtain p s1 where
    m: "my_malloc K (nmemb * sz) s = Inr (p, s1)" "allocates (nmemb * sz) s p s1" by blast
  show ?thesis
  proof (cases "p = 0")
    case True
    then show ?thesis using False m mul by (auto simp: my_calloc_def)
  next
    case p: False
    from m(2) p obtain xs where x: "heap_inv s1" "heap_view s p = None" "heap_view s1 = (heap_view s)(p \<mapsto> xs)"
      "length xs = nmemb * sz" by (rule allocates_fresh)
    let ?m = "memset0 p (nmemb * sz) (mem s1)"
    have "heap_inv (s1\<lparr>mem := ?m\<rparr>)"
      "heap_view (s1\<lparr>mem := ?m\<rparr>) = (heap_view s1)(p \<mapsto> map ?m [p..<p + nmemb * sz])"
      using view_write [OF x(1), of p xs ?m] x(3,4) memset0_simps(1) [of _ p "nmemb * sz" "mem s1"] by auto
    then have "allocates (nmemb * sz) s p (s1\<lparr>mem := ?m\<rparr>)"
      "heap_view (s1\<lparr>mem := ?m\<rparr>) p = Some (replicate (nmemb * sz) 0)"
      using m(2) x p
      by (auto simp: allocates_def memset0_simps intro!: exI [of _ "replicate (nmemb * sz) 0"])
    then show ?thesis using False m(1) mul p by (auto simp: my_calloc_def upd_mem_def)
  qed
qed

end
