(* ===== verification/Free_Correct.thy ===== *)
theory Free_Correct
  imports Malloc_Correct
begin

text \<open>
  Correctness of \<^verbatim>\<open>my_free\<close>: a live pointer is accepted, its block is merged with its free
  neighbours and becomes the head of the list of its class, and no other payload changes.
  The checks reject a block that is free or whose tags are damaged.
\<close>

subsection \<open>The checks\<close>

lemma block_checks_ok:
  assumes K: "kernel_ok K" and wf: "wfd s bs fs {}" and b: "(b, n) \<in> al s bs {}"
  shows "block_checks fn K b s = None"
proof -
  note R = al_requested [OF wf b] and B = al_bounds [OF wf b]
  have "is_mmap (hdr (mem s) b) = 0 \<and> heap_start s \<noteq> 0 \<and> heap_start s \<le> b \<and> b + n \<le> cur_brk (os s)
    \<or> is_mmap (hdr (mem s) b) = 1 \<and> MMAP_THRESHOLD \<le> n"
  proof (cases "(b, n) \<in> set (mappings (os s))")
    case True
    then show ?thesis using mapping_block(1,3) [OF wf True] by (simp add: map_ok_def)
  next
    case False
    with b have "(b, n) \<in> set bs" by (auto simp: al_def)
    then show ?thesis using wfdD(5) [OF wf, of b n] region_block(1,2,4) [OF wfdD(1) [OF wf], of b n]
      by (auto simp: blk_ok_def)
  qed
  then show ?thesis using R B wfd_brk(1) [OF wf]
    by (auto simp: block_checks_def Let_def tags_ok_def kernel_okD(1) [OF K] SIZE_MAX_def)
qed

lemma adjacent_free_iff:
  assumes wf: "wfd s bs fs H" and b: "(b, k) \<in> set bs" "b \<notin> H"
  shows "is_adjacent_free_block s b (cur_brk (os s)) \<longleftrightarrow> free_at (mem s) H b"
proof -
  note B = region_block [OF wfdD(1) [OF wf] b(1)]
  have "k \<le> cur_brk (os s) - b" "b < cur_brk (os s)" using B(4,5) by auto
  then show ?thesis
    using wfdD(5) [OF wf b] B wfd_brk(1) [OF wf] b(2)
    by (auto simp: is_adjacent_free_block_def Let_def blk_ok_def tags_ok_def ALIGNMENT_def free_at_def)
qed

lemma adjacent_free_end: "\<not> is_adjacent_free_block s b b"
  by (simp add: is_adjacent_free_block_def Let_def)

text \<open>The block after \<open>(a, n)\<close> starts at \<open>a + n\<close>; the last block ends at the break.\<close>

lemma tiles_next:
  "tiles lo (xs @ (a, n) # ys) hi \<Longrightarrow> (case ys of [] \<Rightarrow> hi = a + n | y # _ \<Rightarrow> fst y = a + n)"
  by (cases ys) (auto simp: tiles_append)

lemma tiles_prev:
  "tiles lo (xs @ (a, n) # ys) hi \<Longrightarrow> (if xs = [] then a = lo else fst (last xs) + snd (last xs) = a)"
proof (induction xs arbitrary: lo)
  case (Cons x xs)
  then show ?case by (cases x; cases xs) (auto simp: tiles_append)
qed simp

lemma region_tiles:
  assumes "region_ok s (xs @ (a, n) # ys)"
  shows "tiles (heap_start s) (xs @ (a, n) # ys) (cur_brk (os s))"
  using assms by (simp add: region_ok_def split: if_splits)

subsection \<open>Taking a free neighbour\<close>

text \<open>
  Of two neighbouring blocks one is a hole and the other, \<open>d\<close>, is free: unlinking \<open>d\<close> makes
  one hole of both.
\<close>

lemma take_neighbour:
  assumes wf: "wfd s (xs @ (a, n) # (b, k) # ys) fs H" and free: "free_at (mem s) H d"
    and cd: "c = a \<and> d = b \<or> c = b \<and> d = a" "c \<in> H"
  defines "s' \<equiv> unlink d s" and "H' \<equiv> insert d H - {b}" and "bs' \<equiv> xs @ (a, n + k) # ys"
  shows "\<exists>fs'. wfd s' bs' fs' H'" "tr s (xs @ (a, n) # (b, k) # ys) H s' bs' H'"
    "\<And>e l. (e, l) \<in> set xs \<union> set ys \<Longrightarrow> free_at (mem s') H' e = free_at (mem s) H e"
    "kernel_ok K \<Longrightarrow> free_list_remove K d s = Inr s'"
proof -
  let ?bs = "xs @ (a, n) # (b, k) # ys"
  define l where "l = (if d = a then n else k)"
  have d: "(d, l) \<in> set ?bs" using cd by (auto simp: l_def)
  note U = step_unlink [OF wf d free, folded s'_def]
  from U(1) obtain fs' where wf': "wfd s' ?bs fs' (insert d H)" by blast
  have ab: "a \<in> insert d H" "b \<in> insert d H" using cd by auto
  note M = step_merge [OF wf' ab, folded bs'_def H'_def]
  show "\<exists>fs'. wfd s' bs' fs' H'" using M(1) by blast
  show "tr s ?bs H s' bs' H'" by (rule tr_trans [OF U(2) M(2)])
  show "free_list_remove K d s = Inr s'" if "kernel_ok K"
    unfolding s'_def by (rule free_list_remove_unlinks [OF wf that d free])
  show "free_at (mem s') H' e = free_at (mem s) H e" if e: "(e, l) \<in> set xs \<union> set ys" for e l
  proof -
    have ee: "(e, l) \<in> set ?bs" using e by auto
    have "e \<noteq> a" "e \<noteq> b" using e region_distinct [OF wfdD(1) [OF wf]] by (auto simp: image_iff)
    then have "e \<noteq> d" "e \<noteq> b" using cd by auto
    then show ?thesis using unlink_free_at [OF wf d free ee] by (auto simp: s'_def H'_def free_at_def)
  qed
qed

text \<open>After a neighbour was taken, the tags of the combined block are written.\<close>

lemma resize_hole:
  assumes wf: "wfd s (xs @ (a, n) # ys) fs {a}"
    and h: "magic_header (hdr (mem s) a) = ALLOC_MAGIC_HEADER" "is_mmap (hdr (mem s) a) = 0"
    and n: "n' = n"
  defines "m' \<equiv> put_footer a n' (set_block_size a n' (mem s))"
  shows "wfd (s\<lparr>mem := m'\<rparr>) (xs @ (a, n) # ys) fs {a}"
    "tr s (xs @ (a, n) # ys) {a} (s\<lparr>mem := m'\<rparr>) (xs @ (a, n) # ys) {a}"
    "tags_ok m' a n" "is_mmap (hdr m' a) = 0"
    "\<And>e l. (e, l) \<in> set xs \<union> set ys \<Longrightarrow> free_at m' {a} e = free_at (mem s) {a} e"
    "hdr m' a = (hdr (mem s) a)\<lparr>block_size := n\<rparr>"
    "\<And>x. a + 48 \<le> x \<Longrightarrow> x < a + n - 16 \<Longrightarrow> m' x = mem s x"
proof -
  have a: "(a, n) \<in> set (xs @ (a, n) # ys)" by simp
  note B = region_block [OF wfdD(1) [OF wf] a]
  have same: "m' x = mem s x" if "x < a \<or> a + n \<le> x" for x
    using that B(5) n by (auto simp: m'_def mem_simps)
  show "wfd (s\<lparr>mem := m'\<rparr>) (xs @ (a, n) # ys) fs {a}"
    "tr s (xs @ (a, n) # ys) {a} (s\<lparr>mem := m'\<rparr>) (xs @ (a, n) # ys) {a}"
    using step_write [OF wf a _ same] by simp_all
  have n64: "n < 2 ^ 64" using B(9) by simp
  show h': "hdr m' a = (hdr (mem s) a)\<lparr>block_size := n\<rparr>"
    using B(5) n n64 by (simp add: m'_def mem_simps)
  then show "tags_ok m' a n" "is_mmap (hdr m' a) = 0"
    using h n n64 by (simp_all add: tags_ok_def) (simp_all add: m'_def mem_simps)
  show "free_at m' {a} e = free_at (mem s) {a} e" if e: "(e, l) \<in> set xs \<union> set ys" for e l
  proof (rule write_hdr(2) [OF wf a _ same])
    show "(e, l) \<in> set (xs @ (a, n) # ys)" using e by auto
    show "e \<noteq> a" using e region_distinct [OF wfdD(1) [OF wf]] by (auto simp: image_iff)
  qed simp_all
  show "m' x = mem s x" if "a + 48 \<le> x" "x < a + n - 16" for x
    using that B(5) n by (auto simp: m'_def mem_simps)
qed

subsection \<open>Coalescing\<close>

lemma coalesce_next_ok:
  assumes K: "kernel_ok K" and wf: "wfd s (xs @ (a, n) # ys) fs {a}"
    and h: "tags_ok (mem s) a n" "is_mmap (hdr (mem s) a) = 0"
  shows "\<exists>s' n' ys' fs'. coalesce_next K a s = Inr s' \<and> wfd s' (xs @ (a, n') # ys') fs' {a} \<and>
    tr s (xs @ (a, n) # ys) {a} s' (xs @ (a, n') # ys') {a} \<and> tags_ok (mem s') a n' \<and>
    is_mmap (hdr (mem s') a) = 0 \<and> (ys' \<noteq> [] \<longrightarrow> \<not> free_at (mem s') {a} (fst (hd ys'))) \<and>
    global_stats s' = global_stats s \<and> is_free (hdr (mem s') a) = is_free (hdr (mem s) a) \<and>
    (xs \<noteq> [] \<longrightarrow> free_at (mem s') {a} (fst (last xs)) = free_at (mem s) {a} (fst (last xs)))"
proof -
  let ?next = "a + n"
  note D = wfdD [OF wf]
  have bsz: "block_size (hdr (mem s) a) = n" using h by (simp add: tags_ok_def)
  note N = tiles_next [OF region_tiles [OF D(1)]]
  show ?thesis
  proof (cases "\<exists>k zs. ys = (?next, k) # zs \<and> free_at (mem s) {a} ?next")
    case False
    have "\<not> is_adjacent_free_block s ?next (cur_brk (os s))"
    proof (cases ys)
      case Nil
      then show ?thesis using N adjacent_free_end by simp
    next
      case (Cons y zs)
      then have y: "ys = (?next, snd y) # zs" using N by (cases y) simp
      then have "?next \<notin> {a}" "(?next, snd y) \<in> set (xs @ (a, n) # ys)"
        using region_distinct [OF D(1)] by auto
      then show ?thesis using adjacent_free_iff [OF wf] False y by blast
    qed
    moreover have "ys \<noteq> [] \<longrightarrow> \<not> free_at (mem s) {a} (fst (hd ys))"
      using False N by (cases ys; cases "hd ys") auto
    ultimately show ?thesis using wf h bsz
      by (auto simp: coalesce_next_def Let_def kernel_okD(1) [OF K] intro!: exI [of _ n] exI [of _ ys])
  next
    case True
    then obtain k zs where y: "ys = (?next, k) # zs" and fr: "free_at (mem s) {a} ?next" by blast
    note wfy = wf [unfolded y]
    have m: "(?next, k) \<in> set (xs @ (a, n) # (?next, k) # zs)" "(a, n) \<in> set (xs @ (a, n) # (?next, k) # zs)"
      by simp_all
    have ne: "?next \<noteq> a" using fr by (auto simp: free_at_def)
    have adj: "is_adjacent_free_block s ?next (cur_brk (os s))"
      using adjacent_free_iff [OF wfy m(1)] ne fr by simp
    let ?s1 = "unlink ?next s"
    have H: "insert ?next {a} - {?next} = {a}" using ne by auto
    have T: "\<exists>fs'. wfd ?s1 (xs @ (a, n + k) # zs) fs' {a}"
      "tr s (xs @ (a, n) # (?next, k) # zs) {a} ?s1 (xs @ (a, n + k) # zs) {a}"
      "\<And>e l. (e, l) \<in> set xs \<union> set zs \<Longrightarrow> free_at (mem ?s1) {a} e = free_at (mem s) {a} e"
      "free_list_remove K ?next s = Inr ?s1"
      using take_neighbour [OF wfy fr, of a] K unfolding H by simp_all
    from T(1) obtain fs1 where wf1: "wfd ?s1 (xs @ (a, n + k) # zs) fs1 {a}" by blast
    have ha: "hdr (mem ?s1) a = hdr (mem s) a"
      using unlink_keeps_hole [OF wfy m(1) fr m(2)] region_block(5) [OF wfdD(1) [OF wfy] m(2)]
      by (intro hdr_cong) auto
    have sz: "block_size (hdr (mem ?s1) ?next) = k" by (rule step_unlink(3) [OF wfy m(1) fr])
    define m' where "m' = put_footer a (n + k) (set_block_size a (n + k) (mem ?s1))"
    have "magic_header (hdr (mem ?s1) a) = ALLOC_MAGIC_HEADER" "is_mmap (hdr (mem ?s1) a) = 0"
      using ha h by (simp_all add: tags_ok_def)
    note R = resize_hole [OF wf1 this refl, folded m'_def]
    have nk: "n + k < 2 ^ 64" using region_block(9) [OF wfdD(1) [OF wf1], of a "n + k"] by simp
    have "coalesce_next K a s = Inr (?s1\<lparr>mem := m'\<rparr>)"
      using adj T(4) bsz ha sz nk
      by (simp add: coalesce_next_def Let_def kernel_okD(1) [OF K] u64_simps m'_def mem_simps)
    moreover have "\<not> free_at m' {a} (fst (hd zs))" if "zs \<noteq> []"
    proof -
      have e: "(fst (hd zs), snd (hd zs)) \<in> set xs \<union> set zs" using that by simp
      have "\<not> free_at (mem s) {a} (fst (hd zs))"
        using no_adj_right [of "free_at (mem s) {a}" "xs @ [(a, n)]" ?next k zs] D(4) fr that y by simp
      then show ?thesis using R(5) [OF e] T(3) [OF e] by simp
    qed
    moreover have "tr s (xs @ (a, n) # ys) {a} (?s1\<lparr>mem := m'\<rparr>) (xs @ (a, n + k) # zs) {a}"
      unfolding y by (rule tr_trans [OF T(2) R(2)])
    moreover have "free_at m' {a} (fst (last xs)) = free_at (mem s) {a} (fst (last xs))" if "xs \<noteq> []"
    proof -
      have e: "(fst (last xs), snd (last xs)) \<in> set xs \<union> set zs" using that by simp
      show ?thesis using R(5) [OF e] T(3) [OF e] by simp
    qed
    ultimately show ?thesis using R(1,3,4,6) ha
      by (intro exI [of _ "?s1\<lparr>mem := m'\<rparr>"] exI [of _ "n + k"] exI [of _ zs] exI [of _ fs1]) simp
  qed
qed

lemma coalesce_prev_ok:
  assumes K: "kernel_ok K" and wf: "wfd s (xs @ (a, n) # ys) fs {a}"
    and h: "tags_ok (mem s) a n" "is_mmap (hdr (mem s) a) = 0"
    and right: "ys \<noteq> [] \<longrightarrow> \<not> free_at (mem s) {a} (fst (hd ys))"
  shows "\<exists>s' c n' xs' fs'. coalesce_prev K a s = Inr (c, s') \<and> wfd s' (xs' @ (c, n') # ys) fs' {c} \<and>
    tr s (xs @ (a, n) # ys) {a} s' (xs' @ (c, n') # ys) {c} \<and> tags_ok (mem s') c n' \<and>
    is_mmap (hdr (mem s') c) = 0 \<and> (ys \<noteq> [] \<longrightarrow> \<not> free_at (mem s') {c} (fst (hd ys))) \<and>
    (xs' \<noteq> [] \<longrightarrow> \<not> free_at (mem s') {c} (fst (last xs'))) \<and>
    global_stats s' = global_stats s \<and> (c = a \<or> c + 48 \<le> a) \<and> a + 48 \<le> c + n' \<and>
    a + n = c + n' \<and> hdr (mem s') a = hdr (mem s) a \<and>
    (c \<noteq> a \<longleftrightarrow> xs \<noteq> [] \<and> free_at (mem s) {a} (fst (last xs)))"
proof -
  note D = wfdD [OF wf]
  note P = tiles_prev [OF region_tiles [OF D(1)]]
  have bsz: "block_size (hdr (mem s) a) = n" using h by (simp add: tags_ok_def)
  have n64: "64 \<le> n" using region_block(5) [OF D(1), of a n] by simp
  have stay: ?thesis if "coalesce_prev K a s = Inr (a, s)"
    "xs \<noteq> [] \<longrightarrow> \<not> free_at (mem s) {a} (fst (last xs))"
    using that wf h right n64 by (intro exI [of _ s] exI [of _ a] exI [of _ n] exI [of _ xs] exI [of _ fs]) auto
  show ?thesis
  proof (cases "xs = []")
    case True
    then show ?thesis using P by (intro stay) (simp_all add: coalesce_prev_def Let_def)
  next
    case False
    define c k zs where "c = fst (last xs)" and "k = snd (last xs)" and "zs = butlast xs"
    have xs: "xs = zs @ [(c, k)]" using False by (simp add: c_def k_def zs_def)
    have ca: "a = c + k" using P False by (simp add: c_def k_def)
    note wfx = wf [unfolded xs, simplified]
    have m: "(c, k) \<in> set (zs @ (c, k) # (a, n) # ys)" "(a, n) \<in> set (zs @ (c, k) # (a, n) # ys)" by simp_all
    note B = region_block [OF wfdD(1) [OF wfx] m(1)]
    have ne: "c \<noteq> a" using ca B(5) by simp
    have ok: "blk_ok (mem s) c k" using wfdD(5) [OF wfx m(1)] ne by simp
    have hs: "heap_start s \<noteq> 0" using B(1) by simp
    show ?thesis
    proof (cases "free_at (mem s) {a} c")
      case fr: False
      have "is_free (hdr (mem s) c) = 0" using ok fr ne by (auto simp: blk_ok_def free_at_def)
      then have "coalesce_prev K a s = Inr (a, s)"
        using ok ca B by (simp add: coalesce_prev_def Let_def blk_ok_def tags_ok_def)
      then show ?thesis using fr by (intro stay) (simp_all add: c_def)
    next
      case fr: True
      let ?s1 = "unlink c s"
      have H: "insert c {a} - {a} = {c}" using ne by auto
      have Te: "\<exists>fs'. wfd ?s1 (zs @ (c, k + n) # ys) fs' {c}"
        "tr s (zs @ (c, k) # (a, n) # ys) {a} ?s1 (zs @ (c, k + n) # ys) {c}"
        "\<And>e l. (e, l) \<in> set zs \<union> set ys \<Longrightarrow> free_at (mem ?s1) {c} e = free_at (mem s) {a} e"
        "free_list_remove K c s = Inr ?s1"
        using take_neighbour [OF wfx fr, of a] K unfolding H by simp_all
      from Te(1) obtain fs1 where wf1: "wfd ?s1 (zs @ (c, k + n) # ys) fs1 {c}" by blast
      note U = step_unlink(3-5) [OF wfx m(1) fr]
      have ha: "hdr (mem ?s1) a = hdr (mem s) a"
        using unlink_keeps_hole [OF wfx m(1) fr m(2)] region_block(5) [OF wfdD(1) [OF wfx] m(2)]
        by (intro hdr_cong) auto
      define m' where "m' = put_footer c (k + n) (set_block_size c (k + n) (mem ?s1))"
      note R = resize_hole [OF wf1 U(2,3) refl, folded m'_def]
      have nk: "k + n < 2 ^ 64" using region_block(9) [OF wfdD(1) [OF wf1], of c "k + n"] by simp
      have "is_free (hdr (mem s) c) = 1" using fr by (simp add: free_at_def)
      then have "coalesce_prev K a s = Inr (c, ?s1\<lparr>mem := m'\<rparr>)"
        using ok ca B hs Te(4) bsz ha U(1) nk
        by (simp add: coalesce_prev_def Let_def blk_ok_def tags_ok_def ALIGNMENT_def u64_simps m'_def mem_simps)
      moreover have "\<not> free_at m' {c} (fst (last zs))" if "zs \<noteq> []"
      proof -
        have e: "(fst (last zs), snd (last zs)) \<in> set zs \<union> set ys" using that by simp
        have "\<not> free_at (mem s) {a} (fst (last zs))"
          using no_adj_left [OF wfdD(4) [OF wfx] fr that] .
        then show ?thesis using R(5) [OF e] Te(3) [OF e] by simp
      qed
      moreover have "\<not> free_at m' {c} (fst (hd ys))" if "ys \<noteq> []"
      proof -
        have e: "(fst (hd ys), snd (hd ys)) \<in> set zs \<union> set ys" using that by simp
        show ?thesis using R(5) [OF e] Te(3) [OF e] right that by simp
      qed
      moreover have "tr s (xs @ (a, n) # ys) {a} (?s1\<lparr>mem := m'\<rparr>) (zs @ (c, k + n) # ys) {c}"
        unfolding xs using tr_trans [OF Te(2) R(2)] by simp
      moreover have "fst (last xs) = c" by (simp add: c_def)
      moreover have "hdr m' a = hdr (mem ?s1) a"
        using ca B(5) n64 by (simp add: m'_def mem_simps)
      ultimately show ?thesis using R(1,3,4) ca B(5) n64 ha ne False fr
        by (intro exI [of _ "?s1\<lparr>mem := m'\<rparr>"] exI [of _ c] exI [of _ "k + n"] exI [of _ zs] exI [of _ fs1]) simp
    qed
  qed
qed

subsection \<open>Freeing\<close>

text \<open>
  What a second call finds at a block that has been freed: the header still carries its magic and
  is marked free; the footer behind it agrees with the header unless the block was merged into
  the free block before it.
\<close>

definition free_before :: "alloc_state \<Rightarrow> addr \<Rightarrow> bool" where
  "free_before s a \<longleftrightarrow> (\<exists>(c, k)\<in>set (heap_blocks s). c + k = a \<and> is_free (hdr (mem s) c) = 1)"

definition stale :: "alloc_state \<Rightarrow> addr \<Rightarrow> bool \<Rightarrow> bool" where
  "stale s a merged \<longleftrightarrow>
     (let h = hdr (mem s) a; n = block_size h; f = ftr (mem s) (footer_of a n) in
      magic_header h = ALLOC_MAGIC_HEADER \<and> is_free h = 1 \<and> is_mmap h = 0 \<and> 64 \<le> n \<and>
      0 < heap_start s \<and> heap_start s \<le> a \<and> a + n \<le> cur_brk (os s) \<and> cur_brk (os s) < BRK_FAILED \<and>
      magic_footer f = ALLOC_MAGIC_FOOTER \<and> (f_block_size f = n \<longleftrightarrow> \<not> merged))"

lemma stale_unlock [simp]: "stale (s\<lparr>alloc_mutex := b\<rparr>) a mg = stale s a mg"
  by (simp add: stale_def)

lemma free_before_rest [simp]:
  "free_before (s\<lparr>alloc_mutex := b, global_stats := g\<rparr>) a = free_before s a"
  by (simp add: free_before_def heap_blocks_def)

lemma stale_kept:
  assumes wf: "wfd s bs fs {}" and a: "(a, n) \<in> set bs" "is_free (hdr (mem s) a) = 1"
  shows "stale s a False"
  using wfdD(5) [OF wf a(1)] region_block [OF wfdD(1) [OF wf] a(1)] wfd_brk(1) [OF wf] a(2)
  by (simp add: stale_def Let_def blk_ok_def tags_ok_def)

lemma stale_merged:
  assumes wf: "wfd s bs fs {}" and c: "(c, n') \<in> set bs" "c < a" "a + n = c + n'" "64 \<le> n"
    and h: "magic_header (hdr (mem s) a) = ALLOC_MAGIC_HEADER" "is_free (hdr (mem s) a) = 1"
      "is_mmap (hdr (mem s) a) = 0" "block_size (hdr (mem s) a) = n"
  shows "stale s a True"
proof -
  have "footer_of a n = footer_of c n'" using c(3,4) by simp
  then show ?thesis
    using wfdD(5) [OF wf c(1)] region_block [OF wfdD(1) [OF wf] c(1)] wfd_brk(1) [OF wf] c h
    by (simp add: stale_def Let_def blk_ok_def tags_ok_def)
qed

lemma free_before_iff:
  assumes wf: "wfd s bs fs {}" and bs: "bs = xs @ (a, n) # ys"
  shows "free_before s a \<longleftrightarrow> xs \<noteq> [] \<and> is_free (hdr (mem s) (fst (last xs))) = 1"
proof -
  have t: "tiles (heap_start s) bs (cur_brk (os s))" using region_tiles wfdD(1) [OF wf] bs by simp
  note P = tiles_prev [OF t [unfolded bs]]
  have hb: "heap_blocks s = bs" by (rule heap_blocks_wfd [OF wf])
  have "(c, k) = last xs \<and> xs \<noteq> []" if c: "(c, k) \<in> set bs" "c + k = a" for c k
  proof -
    have k: "64 \<le> k" using tiles_mem [OF t c(1)] by simp
    have "xs \<noteq> []" using P tiles_mem [OF t c(1)] c(2) k by auto
    moreover from this have l: "(fst (last xs), snd (last xs)) \<in> set bs" using bs by simp
    ultimately show ?thesis
      using tiles_sep [OF t c(1) l] P c(2) k tiles_mem [OF t l] by (auto simp: prod_eq_iff)
  qed
  moreover have "last xs \<in> set bs" if "xs \<noteq> []" using bs that by simp
  ultimately show ?thesis using P unfolding free_before_def hb by (auto simp: case_prod_beta)
qed

definition releases :: "addr \<Rightarrow> byte list \<Rightarrow> alloc_state \<Rightarrow> alloc_state \<Rightarrow> bool" where
  "releases p xs s s' \<longleftrightarrow> heap_inv s' \<and> heap_view s' = (heap_view s)(p := None) \<and>
     total_allocated (global_stats s') = total_allocated (global_stats s) \<and>
     total_freed (global_stats s') = add64 (total_freed (global_stats s)) (length xs)"

lemma free_heap_block:
  assumes K: "kernel_ok K" and wf: "wfd s bs fs {}" and a: "(a, n) \<in> set bs" "is_free (hdr (mem s) a) = 0"
  shows "\<exists>s3 c s4 bs' fs'. coalesce_next K a (s\<lparr>mem := set_is_free a 1 (mem s)\<rparr>) = Inr s3 \<and>
     coalesce_prev K a s3 = Inr (c, s4) \<and> wfd (free_list_insert c s4) bs' fs' {} \<and>
     al (free_list_insert c s4) bs' {} = al s bs {} - {(a, n)} \<and>
     fixed (al s bs {} - {(a, n)}) (mem s) (mem (free_list_insert c s4)) \<and>
     global_stats s4 = global_stats s \<and> stale (free_list_insert c s4) a (free_before s a)"
proof -
  from a(1) obtain xs ys where bs: "bs = xs @ (a, n) # ys" by (meson split_list)
  note O = step_open [OF wf a]
  note B = region_block [OF wfdD(1) [OF wf] a(1)]
  let ?m = "set_is_free a 1 (mem s)"
  let ?s2 = "s\<lparr>mem := ?m\<rparr>"
  have same: "?m x = mem s x" if "x < a \<or> a + n \<le> x" for x
    using that B(5) by (auto simp: mem_simps)
  note W = step_write [OF O(1) a(1) singletonI same]
  have ok: "blk_ok (mem s) a n" using wfdD(5) [OF wf a(1)] by simp
  have ff: "ftr ?m (footer_of a n) = ftr (mem s) (footer_of a n)"
    using B(5) by (intro ftr_set) linarith
  have h: "tags_ok (mem ?s2) a n" "is_mmap (hdr (mem ?s2) a) = 0"
    using ok ff by (simp_all add: blk_ok_def tags_ok_def mem_simps)
  from coalesce_next_ok [OF K W(1) [unfolded bs] h] obtain s3 n3 ys3 fs3 where
    N: "coalesce_next K a ?s2 = Inr s3" "wfd s3 (xs @ (a, n3) # ys3) fs3 {a}"
      "tr ?s2 bs {a} s3 (xs @ (a, n3) # ys3) {a}" "tags_ok (mem s3) a n3" "is_mmap (hdr (mem s3) a) = 0"
      "ys3 \<noteq> [] \<longrightarrow> \<not> free_at (mem s3) {a} (fst (hd ys3))" "global_stats s3 = global_stats ?s2"
      "is_free (hdr (mem s3) a) = is_free (hdr (mem ?s2) a)"
      "xs \<noteq> [] \<longrightarrow> free_at (mem s3) {a} (fst (last xs)) = free_at (mem ?s2) {a} (fst (last xs))"
    unfolding bs by blast
  from coalesce_prev_ok [OF K N(2,4,5,6)] obtain s4 c n4 xs4 fs4 where
    P: "coalesce_prev K a s3 = Inr (c, s4)" "wfd s4 (xs4 @ (c, n4) # ys3) fs4 {c}"
      "tr s3 (xs @ (a, n3) # ys3) {a} s4 (xs4 @ (c, n4) # ys3) {c}" "tags_ok (mem s4) c n4"
      "is_mmap (hdr (mem s4) c) = 0" "ys3 \<noteq> [] \<longrightarrow> \<not> free_at (mem s4) {c} (fst (hd ys3))"
      "xs4 \<noteq> [] \<longrightarrow> \<not> free_at (mem s4) {c} (fst (last xs4))" "global_stats s4 = global_stats s3"
      "c = a \<or> c + 48 \<le> a" "a + 48 \<le> c + n4" "a + n3 = c + n4" "hdr (mem s4) a = hdr (mem s3) a"
      "c \<noteq> a \<longleftrightarrow> xs \<noteq> [] \<and> free_at (mem s3) {a} (fst (last xs))"
    by blast
  note I = step_insert [OF P(2) _ P(4,5,7,6), simplified]
  have "tr s bs {a} s3 (xs @ (a, n3) # ys3) {a}" by (rule tr_trans [OF W(2) N(3)])
  then have "tr s bs {a} s4 (xs4 @ (c, n4) # ys3) {c}" by (rule tr_trans [OF _ P(3)])
  then have T: "tr s bs {a} (free_list_insert c s4) (xs4 @ (c, n4) # ys3) {}" by (rule tr_trans [OF _ I(2)])
  have m4: "(c, n4) \<in> set (xs4 @ (c, n4) # ys3)" "block_size (hdr (mem s4) c) = n4"
    using P(4) by (simp_all add: tags_ok_def)
  note J = free_list_insert_blocks [OF P(2) m4(1) singletonI m4(2)]
  have before: "free_before s a \<longleftrightarrow> c \<noteq> a"
  proof -
    have "free_at ?m {a} (fst (last xs)) = (is_free (hdr (mem s) (fst (last xs))) = 1)" if "xs \<noteq> []"
    proof -
      have l: "(fst (last xs), snd (last xs)) \<in> set bs" "fst (last xs) \<noteq> a"
        using that tiles_prev [OF region_tiles [OF wfdD(1) [OF wf [unfolded bs]]]] bs
          region_block(5) [OF wfdD(1) [OF wf], of "fst (last xs)" "snd (last xs)"] by auto
      show ?thesis using write_hdr(2) [OF O(1) a(1) singletonI same l] l(2) by (simp add: free_at_def)
    qed
    then show ?thesis using P(13) N(9) free_before_iff [OF wf bs] by auto
  qed
  from I(1) obtain fs5 where wf5: "wfd (free_list_insert c s4) (xs4 @ (c, n4) # ys3) fs5 {}" by blast
  have "stale (free_list_insert c s4) a (free_before s a)"
  proof (cases "c = a")
    case True
    then show ?thesis using stale_kept [OF wf5 m4(1)] J(1) before by simp
  next
    case False
    have "hdr (mem (free_list_insert c s4)) a = hdr (mem s4) a"
      using J(6) [of c n4] m4(1) P(9,10) False by (intro hdr_cong) auto
    moreover have "64 \<le> n3" using region_block(5) [OF wfdD(1) [OF N(2)], of a n3] by simp
    ultimately show ?thesis using stale_merged [OF wf5 m4(1), of a n3] P(9,11,12) N(4,5,8) False before
      by (simp add: mem_simps tags_ok_def)
  qed
  with T O(2) I(1) N(1,7) P(1,8) show ?thesis by (auto simp: tr_def)
qed

lemma my_free_ok:
  assumes K: "kernel_ok K" and inv: "heap_inv s" and p: "heap_view s p = Some xs"
  shows "\<exists>s'. my_free K p s = Inr s' \<and> releases p xs s s' \<and>
    (is_mmap (hdr (mem s) (p - HDR)) = 0 \<longrightarrow> stale s' (p - HDR) (free_before s (p - HDR)))"
proof -
  from inv obtain bs fs where wf0: "wfd s bs fs {}" and mx: "\<not> alloc_mutex s" by (rule heap_invE)
  let ?s1 = "s\<lparr>alloc_mutex := True\<rparr>"
  have wf: "wfd ?s1 bs fs {}" using wf0 by simp
  have lock: "mutex_lock s = Inr ?s1" using mx by (simp add: mutex_lock_def)
  from p obtain b n where b0: "(b, n) \<in> al s bs {}" "p = b + HDR" "xs = payload (mem s) b"
    unfolding heap_view_iff [OF wf0] by blast
  have b: "(b, n) \<in> al ?s1 bs {}" using b0(1) by simp
  have chk: "my_free_checks K b ?s1 = None"
    unfolding my_free_checks_def by (rule block_checks_ok [OF K wf b])
  have hb: "sub64 p HDR = b" using b0(2) al_bounds(3,4) [OF wf b] by (simp add: u64_simps)
  have rq: "requested_size (hdr (mem s) b) = length xs" by (simp add: b0(3))
  have p0: "p \<noteq> 0" using b0(2) by simp
  show ?thesis
  proof (cases "(b, n) \<in> set (mappings (os s))")
    case True
    have mp: "is_mmap (hdr (mem s) b) \<noteq> 0" "block_size (hdr (mem s) b) = n"
      using mapping_block(3) [OF wf0 True] by (auto simp: map_ok_def tags_ok_def)
    have km: "k_munmap K (os s) b n" by (rule kernel_okD(6) [OF K True])
    let ?u = "s\<lparr>os := (os s)\<lparr>mappings := removeAll (b, n) (mappings (os s))\<rparr>\<rparr>"
    let ?s' = "?u\<lparr>global_stats := (global_stats s)\<lparr>total_freed := add64 (total_freed (global_stats s)) (length xs)\<rparr>\<rparr>"
    note M = step_unmap [OF wf0 True]
    have "my_free K p s = Inr ?s'"
      using p0 lock hb chk mp km rq mx by (simp add: my_free_def stat_defs munmap_def)
    moreover have "heap_view ?u = (heap_view s)(b + HDR := None)"
      by (rule view_del(1) [OF wf0 M]) simp
    moreover have "heap_inv ?u" by (rule heap_invI [OF M(1)]) (simp add: mx)
    ultimately show ?thesis using b0(2) mp by (simp add: releases_def)
  next
    case False
    then have a: "(b, n) \<in> set bs" "is_free (hdr (mem s) b) = 0" using b0(1) by (auto simp: al_def)
    let ?s2 = "?s1\<lparr>global_stats := (global_stats s)\<lparr>total_freed := add64 (total_freed (global_stats s)) (length xs)\<rparr>\<rparr>"
    have wf2: "wfd ?s2 bs fs {}" using wf by simp
    from free_heap_block [OF K wf2 a(1)] a(2) obtain s3 c s4 bs' fs' where
      F: "coalesce_next K b (?s2\<lparr>mem := set_is_free b 1 (mem ?s2)\<rparr>) = Inr s3"
        "coalesce_prev K b s3 = Inr (c, s4)" "wfd (free_list_insert c s4) bs' fs' {}"
        "al (free_list_insert c s4) bs' {} = al s bs {} - {(b, n)}"
        "fixed (al s bs {} - {(b, n)}) (mem s) (mem (free_list_insert c s4))"
        "global_stats s4 = global_stats ?s2" "stale (free_list_insert c s4) b (free_before s b)" by auto
    have "is_mmap (hdr (mem s) b) = 0" using wfdD(5) [OF wf0 a(1)] by (simp add: blk_ok_def)
    moreover have "?s2\<lparr>mem := set_is_free b 1 (mem ?s2)\<rparr> =
        stats_freed (length xs) (upd_mem (set_is_free b 1) ?s1)" by (simp add: stat_defs)
    ultimately have "my_free K p s = Inr (mutex_unlock (free_list_insert c s4))"
      using p0 lock hb chk rq F(1,2) by (simp add: my_free_def)
    moreover have wf': "wfd (mutex_unlock (free_list_insert c s4)) bs' fs' {}"
      using F(3) by (simp add: mutex_unlock_def)
    moreover have "heap_view (mutex_unlock (free_list_insert c s4)) = (heap_view s)(b + HDR := None)"
      by (rule view_del(1) [OF wf0 wf' _ b0(1)]) (use F(4,5) in \<open>simp_all add: mutex_unlock_def\<close>)
    moreover have "heap_inv (mutex_unlock (free_list_insert c s4))"
      by (rule heap_invI [OF wf']) (simp add: mutex_unlock_def)
    ultimately show ?thesis using b0(2) F(6,7) by (simp add: releases_def mutex_unlock_def)
  qed
qed

text \<open>A second call on a freed block: the message depends on whether the block was merged.\<close>

lemma block_checks_stale:
  assumes "kernel_ok K" "stale s a mg"
  shows "block_checks fn K a s = Some (Abort
    ((if mg then ''[FATAL] Heap corruption: Invalid magic footer canary in ''
      else ''[FATAL] Double free or use after free detected in '') @ fn))"
  using assms by (auto simp: block_checks_def stale_def Let_def kernel_okD(1) [OF assms(1)])

end
