(* ===== verification/Realloc_Correct.thy ===== *)
theory Realloc_Correct
  imports Free_Correct
begin

text \<open>
  Correctness of \<^verbatim>\<open>my_realloc\<close>: whichever of its paths runs (shrinking in place, growing into
  the free successor, moving a mapping, or allocate-copy-free), the resized payload keeps
  the common prefix of its bytes, every other payload stays as it is, and a failure leaves
  the old block alone.
\<close>

subsection \<open>Resizing in place\<close>

text \<open>
  What the in-place paths leave behind: the hole \<open>a\<close> now has at least \<open>t\<close> bytes and valid tags,
  and its bytes up to the old or the new footer are the old ones.
\<close>

definition resized :: "addr \<Rightarrow> nat \<Rightarrow> nat \<Rightarrow> alloc_state \<Rightarrow> (addr \<times> nat) list \<Rightarrow> alloc_state \<Rightarrow> bool" where
  "resized a n t s bs s' \<longleftrightarrow> (\<exists>bs' fs' n'. wfd s' bs' fs' {a} \<and> tr s bs {a} s' bs' {a} \<and>
     (a, n') \<in> set bs' \<and> t \<le> n' \<and> tags_ok (mem s') a n' \<and> is_free (hdr (mem s') a) = 0 \<and>
     is_mmap (hdr (mem s') a) = 0) \<and>
     (\<forall>x. a + 48 \<le> x \<longrightarrow> x < a + min n t - 16 \<longrightarrow> mem s' x = mem s x) \<and>
     global_stats s' = global_stats s"

lemma resizedI:
  assumes "wfd s' bs' fs' {a}" "tr s bs {a} s' bs' {a}" "(a, n') \<in> set bs'" "t \<le> n'"
    and m: "\<forall>x\<in>{a..<a + n'}. mem s' x = m x" "64 \<le> n'" and n: "n' < 2 ^ 64"
    and m_def: "m = put_footer a n' (set_block_size a n' m0)"
    and h: "magic_header (hdr m0 a) = ALLOC_MAGIC_HEADER" "is_free (hdr m0 a) = 0" "is_mmap (hdr m0 a) = 0"
    and keep: "\<And>x. a + 48 \<le> x \<Longrightarrow> x < a + n - 16 \<Longrightarrow> m0 x = mem s x"
    and "global_stats s' = global_stats s"
  shows "resized a n t s bs s'"
proof -
  have hm: "hdr m a = (hdr m0 a)\<lparr>block_size := n'\<rparr>" using m(2) n by (simp add: m_def mem_simps)
  have fm: "ftr m (footer_of a n') = \<lparr>magic_footer = ALLOC_MAGIC_FOOTER, f_block_size = n'\<rparr>"
    using n by (simp add: m_def mem_simps)
  note E = same_hdr_ftr [OF m]
  have "tags_ok (mem s') a n'" "is_free (hdr (mem s') a) = 0" "is_mmap (hdr (mem s') a) = 0"
    using E hm fm h by (simp_all add: tags_ok_def)
  moreover have "mem s' x = mem s x" if x: "a + 48 \<le> x" "x < a + min n t - 16" for x
  proof -
    have x': "x < a + n' - 16" using x(2) \<open>t \<le> n'\<close> by linarith
    then have "mem s' x = m x" using m(1) x by auto
    also have "\<dots> = m0 x" using x x' by (simp add: m_def mem_simps)
    finally show ?thesis using keep [of x] x by simp
  qed
  ultimately show ?thesis using assms(1-4) \<open>global_stats s' = global_stats s\<close>
    unfolding resized_def by blast
qed

text \<open>Path 1.\<close>

lemma realloc_shrink_merge:
  assumes K: "kernel_ok K" and wf: "wfd s (xs @ (a, t + r) # (b, k) # zs) fs {a}"
    and t: "64 \<le> t" "64 \<le> r" "t mod 16 = 0" and b: "b = a + t + r" "free_at (mem s) {a} b"
    and m1: "\<And>x. x < a \<or> a + t \<le> x \<Longrightarrow> m1 x = mem s x"
  defines "s1 \<equiv> s\<lparr>mem := put_free_header (a + t) r m1\<rparr>"
  defines "s2 \<equiv> unlink b s1"
  defines "s' \<equiv> free_list_insert (a + t) (s2\<lparr>mem :=
    put_footer (a + t) (r + k) (set_block_size (a + t) (r + k) (mem s2))\<rparr>)"
  shows "is_adjacent_free_block s1 b (cur_brk (os s1))" "free_list_remove K b s1 = Inr s2"
    "block_size (hdr (mem s2) b) = k" "r + k < 2 ^ 64"
    "\<exists>bs' fs'. wfd s' bs' fs' {a} \<and> (a, t) \<in> set bs' \<and>
       tr s (xs @ (a, t + r) # (b, k) # zs) {a} s' bs' {a}"
    "\<forall>x\<in>{a..<a + t}. mem s' x = m1 x"
proof -
  let ?c = "a + t" and ?bs = "xs @ (a, t) # (a + t, r) # (b, k) # zs" and ?H = "{a + t, a}"
  have m2: "put_free_header ?c r m1 x = m1 x" if "x < ?c \<or> ?c + r \<le> x" for x
    using that t by (auto simp: mem_simps)
  note W = split_write [OF wf t m1 m2, folded s1_def]
  have mb: "(b, k) \<in> set ?bs" by simp
  have ma: "(a, t) \<in> set ?bs" by simp
  have bH: "b \<notin> ?H" using t b(1) by auto
  have fb: "free_at (mem s1) ?H b" using W(3) [of b k] b(2) by (simp add: s1_def)
  show "is_adjacent_free_block s1 b (cur_brk (os s1))"
    using adjacent_free_iff [OF W(1) mb bH] fb by simp
  have wfx: "wfd s1 ((xs @ [(a, t)]) @ (?c, r) # (b, k) # zs) fs ?H" using W(1) by simp
  have H: "insert b ?H - {b} = ?H" using bH by auto
  have T: "\<exists>fs'. wfd s2 ((xs @ [(a, t)]) @ (?c, r + k) # zs) fs' ?H"
    "tr s1 ((xs @ [(a, t)]) @ (?c, r) # (b, k) # zs) ?H s2 ((xs @ [(a, t)]) @ (?c, r + k) # zs) ?H"
    "\<And>e l. (e, l) \<in> set (xs @ [(a, t)]) \<union> set zs \<Longrightarrow> free_at (mem s2) ?H e = free_at (mem s1) ?H e"
    "free_list_remove K b s1 = Inr s2"
    using take_neighbour [OF wfx fb, of ?c] K unfolding s2_def H by blast+
  then show "free_list_remove K b s1 = Inr s2" by blast
  show "block_size (hdr (mem s2) b) = k" unfolding s2_def by (rule step_unlink(3) [OF W(1) mb fb])
  from T(1) obtain fs2 where wf2: "wfd s2 (xs @ (a, t) # (?c, r + k) # zs) fs2 ?H" by auto
  have mc: "(?c, r + k) \<in> set (xs @ (a, t) # (?c, r + k) # zs)" by simp
  show rk: "r + k < 2 ^ 64" using region_block(9) [OF wfdD(1) [OF wf2] mc] by simp
  define m3 where "m3 = put_footer ?c (r + k) (set_block_size ?c (r + k) (mem s2))"
  have same: "m3 x = mem s2 x" if "x < ?c \<or> ?c + (r + k) \<le> x" for x
    using that t by (auto simp: m3_def mem_simps)
  note V = step_write [OF wf2 mc insertI1 same]
  have hc: "hdr (mem s2) ?c = hdr (put_free_header ?c r m1) ?c"
    using unlink_keeps_hole [OF W(1) mb fb, of ?c r] t by (intro hdr_cong) (auto simp: s2_def s1_def)
  have hc3: "hdr m3 ?c = (hdr (mem s2) ?c)\<lparr>block_size := r + k\<rparr>"
    using t rk by (simp add: m3_def mem_simps)
  have "ftr m3 (footer_of ?c (r + k)) = \<lparr>magic_footer = ALLOC_MAGIC_FOOTER, f_block_size = r + k\<rparr>"
    using rk by (simp add: m3_def mem_simps)
  then have tags: "tags_ok (mem (s2\<lparr>mem := m3\<rparr>)) ?c (r + k)" "is_mmap (hdr (mem (s2\<lparr>mem := m3\<rparr>)) ?c) = 0"
    using hc hc3 by (simp_all add: tags_ok_def mem_simps)
  have "\<not> free_at m3 ?H (fst (hd zs))" if "zs \<noteq> []"
  proof -
    have e: "(fst (hd zs), snd (hd zs)) \<in> set (xs @ [(a, t)]) \<union> set zs" using that by simp
    have "\<not> free_at (mem s) {a} (fst (hd zs))"
      using no_adj_right [of "free_at (mem s) {a}" "xs @ [(a, t + r)]" b k zs] wfdD(4) [OF wf] b(2) that by simp
    then have "\<not> free_at (mem s2) ?H (fst (hd zs))"
      using T(3) [OF e] W(3) [of "fst (hd zs)" "snd (hd zs)"] that by (simp add: s1_def)
    moreover have "(fst (hd zs), snd (hd zs)) \<in> set (xs @ (a, t) # (?c, r + k) # zs)" using that by simp
    moreover have "fst (hd zs) \<noteq> ?c" using region_distinct [OF wfdD(1) [OF wf2]] that
      by (cases zs) auto
    ultimately show ?thesis using write_hdr(2) [OF wf2 mc insertI1 same] by blast
  qed
  then have "zs \<noteq> [] \<longrightarrow> \<not> free_at (mem (s2\<lparr>mem := m3\<rparr>)) ?H (fst (hd zs))" by simp
  note I = insert_tail [OF V(1) tags this, folded m3_def]
  have s': "s' = free_list_insert ?c (s2\<lparr>mem := m3\<rparr>)" by (simp add: s'_def m3_def)
  have "tr s (xs @ (a, t + r) # (b, k) # zs) {a} s2 (xs @ (a, t) # (?c, r + k) # zs) ?H"
    using tr_trans [OF W(2), of s2 "(xs @ [(a, t)]) @ (?c, r + k) # zs"] T(2) by simp
  from tr_trans [OF tr_trans [OF this V(2)] I(2)]
  have "tr s (xs @ (a, t + r) # (b, k) # zs) {a} s' (xs @ (a, t) # (?c, r + k) # zs) {a}" by (simp add: s')
  with I(1) show "\<exists>bs' fs'. wfd s' bs' fs' {a} \<and> (a, t) \<in> set bs' \<and>
       tr s (xs @ (a, t + r) # (b, k) # zs) {a} s' bs' {a}" unfolding s' by fastforce
  show "\<forall>x\<in>{a..<a + t}. mem s' x = m1 x"
  proof
    fix x assume x: "x \<in> {a..<a + t}"
    have "mem s' x = m3 x" using I(3) x by (simp add: s')
    also have "\<dots> = mem s2 x" using same x by simp
    also have "\<dots> = mem s1 x" using unlink_keeps_hole [OF W(1) mb fb ma] x by (simp add: s2_def)
    also have "\<dots> = m1 x" using m2 x by (simp add: s1_def)
    finally show "mem s' x = m1 x" .
  qed
qed

lemma realloc_shrink_plain:
  assumes wf: "wfd s (xs @ (a, t + r) # ys) fs {a}"
    and t: "64 \<le> t" "64 \<le> r" "t mod 16 = 0"
    and nf: "ys \<noteq> [] \<longrightarrow> \<not> free_at (mem s) {a} (fst (hd ys))"
    and m1: "\<And>x. x < a \<or> a + t \<le> x \<Longrightarrow> m1 x = mem s x"
  defines "s1 \<equiv> s\<lparr>mem := put_free_header (a + t) r m1\<rparr>"
  defines "s' \<equiv> free_list_insert (a + t) (s1\<lparr>mem := put_footer (a + t) r (mem s1)\<rparr>)"
  shows "\<not> is_adjacent_free_block s1 (a + t + r) (cur_brk (os s1))"
    "\<exists>bs' fs'. wfd s' bs' fs' {a} \<and> (a, t) \<in> set bs' \<and> tr s (xs @ (a, t + r) # ys) {a} s' bs' {a}"
    "\<forall>x\<in>{a..<a + t}. mem s' x = m1 x"
proof -
  note N = tiles_next [OF region_tiles [OF wfdD(1) [OF wf]]]
  have p1: "put_free_header (a + t) r m1 x = m1 x" if "x < a + t \<or> a + t + r \<le> x" for x
    using that t by (auto simp: mem_simps)
  note W = split_write [OF wf t m1 p1, folded s1_def]
  show "\<not> is_adjacent_free_block s1 (a + t + r) (cur_brk (os s1))"
  proof (cases ys)
    case Nil
    then show ?thesis using N adjacent_free_end by (simp add: add.assoc s1_def)
  next
    case (Cons y zs)
    then have y: "ys = (a + t + r, snd y) # zs" using N by (cases y) (simp add: add.assoc)
    have "\<not> free_at (mem s1) {a + t, a} (a + t + r)"
      using W(3) [of "a + t + r" "snd y"] nf y by (simp add: s1_def)
    then show ?thesis using adjacent_free_iff [OF W(1), of "a + t + r" "snd y"] y t by simp
  qed
  define m2 where "m2 = put_footer (a + t) r (put_free_header (a + t) r m1)"
  have "(a, t + r) \<in> set (xs @ (a, t + r) # ys)" by simp
  then have r64: "r < 2 ^ 64" using region_block(9) [OF wfdD(1) [OF wf]] by fastforce
  have p2: "m2 x = m1 x" if "x < a + t \<or> a + t + r \<le> x" for x
    using that t by (auto simp: m2_def mem_simps)
  have tags: "tags_ok m2 (a + t) r" "is_mmap (hdr m2 (a + t)) = 0"
    using t r64 by (simp_all add: tags_ok_def m2_def mem_simps)
  have s': "s' = free_list_insert (a + t) (s\<lparr>mem := m2\<rparr>)" by (simp add: s'_def s1_def m2_def)
  note S = split_off [OF wf t m1 p2 tags nf, folded s']
  show "\<exists>bs' fs'. wfd s' bs' fs' {a} \<and> (a, t) \<in> set bs' \<and> tr s (xs @ (a, t + r) # ys) {a} s' bs' {a}"
    using S(1,2) by fastforce
  show "\<forall>x\<in>{a..<a + t}. mem s' x = m1 x" using S(3) by blast
qed

lemma realloc_split_ok:
  assumes K: "kernel_ok K" and wf: "wfd s (xs @ (a, t + r) # ys) fs {a}"
    and bsz: "block_size (hdr (mem s) a) = t + r"
    and t: "64 \<le> t" "80 \<le> r" "t mod 16 = 0" "t + 80 < 2 ^ 64"
  defines "m1 \<equiv> put_footer a t (set_block_size a t (mem s))"
  shows "\<exists>s' bs' fs'. realloc_in_block K a t (cur_brk (os s)) s = Inr s' \<and> wfd s' bs' fs' {a} \<and>
    (a, t) \<in> set bs' \<and> tr s (xs @ (a, t + r) # ys) {a} s' bs' {a} \<and>
    (\<forall>x\<in>{a..<a + t}. mem s' x = m1 x) \<and> global_stats s' = global_stats s"
proof -
  have m1: "m1 x = mem s x" if "x < a \<or> a + t \<le> x" for x
    using that t(1) by (auto simp: m1_def mem_simps)
  have r: "64 \<le> r" using t(2) by simp
  note N = tiles_next [OF region_tiles [OF wfdD(1) [OF wf]]]
  define s1 where "s1 = s\<lparr>mem := put_free_header (a + t) r m1\<rparr>"
  note step = realloc_in_block_def Let_def min_split_def u64_simps m1_def upd_mem_def s1_def
  show ?thesis
  proof (cases "\<exists>k zs. ys = (a + t + r, k) # zs \<and> free_at (mem s) {a} (a + t + r)")
    case True
    then obtain k zs where y: "ys = (a + t + r, k) # zs" and fr: "free_at (mem s) {a} (a + t + r)" by blast
    note M = realloc_shrink_merge [OF K wf [unfolded y] t(1) r t(3) refl fr m1, folded s1_def]
    define s2 where "s2 = unlink (a + t + r) s1"
    define s' where "s' = free_list_insert (a + t)
      (s2\<lparr>mem := put_footer (a + t) (r + k) (set_block_size (a + t) (r + k) (mem s2))\<rparr>)"
    note M = M [folded s2_def, folded s'_def, folded y]
    have "realloc_in_block K a t (cur_brk (os s)) s = Inr s'"
      using t bsz M(1-4) by (simp add: step s'_def)
    moreover have "global_stats s' = global_stats s" by (simp add: s'_def s2_def s1_def)
    ultimately show ?thesis using M(5,6) m1 by blast
  next
    case False
    then have nf: "ys \<noteq> [] \<longrightarrow> \<not> free_at (mem s) {a} (fst (hd ys))"
      using N by (cases ys; cases "hd ys") (auto simp: add.assoc)
    note P = realloc_shrink_plain [OF wf t(1) r t(3) nf m1, folded s1_def]
    define s' where "s' = free_list_insert (a + t) (s1\<lparr>mem := put_footer (a + t) r (mem s1)\<rparr>)"
    note P = P [folded s'_def]
    have "realloc_in_block K a t (cur_brk (os s)) s = Inr s'"
      using t bsz P(1) by (simp add: step s'_def)
    moreover have "global_stats s' = global_stats s" by (simp add: s'_def s1_def)
    ultimately show ?thesis using P(2,3) m1 by blast
  qed
qed

lemma realloc_in_block_ok:
  assumes K: "kernel_ok K" and wf: "wfd s bs fs {}" and a: "(a, n) \<in> set bs" "is_free (hdr (mem s) a) = 0"
    and t: "64 \<le> t" "t mod 16 = 0" "t \<le> n" "t + 80 < 2 ^ 64"
  shows "\<exists>s'. realloc_in_block K a t (cur_brk (os s)) s = Inr s' \<and> resized a n t s bs s'"
proof -
  note O = step_open [OF wf a] and B = region_block [OF wfdD(1) [OF wf] a(1)]
  have ok: "blk_ok (mem s) a n" using wfdD(5) [OF wf a(1)] by simp
  then have bsz: "block_size (hdr (mem s) a) = n" by (simp add: blk_ok_def tags_ok_def)
  show ?thesis
  proof (cases "n \<ge> t + 80")
    case False
    then have "realloc_in_block K a t (cur_brk (os s)) s = Inr s"
      using t(4) bsz by (simp add: realloc_in_block_def min_split_def u64_simps)
    moreover have "resized a n t s bs s"
      using O(1) a t(3) ok unfolding resized_def blk_ok_def by (auto intro!: exI [of _ bs] exI [of _ n])
    ultimately show ?thesis by blast
  next
    case True
    define r where "r = n - t"
    have nr: "n = t + r" "80 \<le> r" using True by (simp_all add: r_def)
    from a(1) obtain xs ys where bs: "bs = xs @ (a, t + r) # ys" using nr(1) by (meson split_list)
    from realloc_split_ok [OF K O(1) [unfolded bs] _ t(1) nr(2) t(2,4)] bsz nr(1)
    obtain s' bs' fs' where S: "realloc_in_block K a t (cur_brk (os s)) s = Inr s'" "wfd s' bs' fs' {a}"
      "(a, t) \<in> set bs'" "tr s bs {a} s' bs' {a}"
      "\<forall>x\<in>{a..<a + t}. mem s' x = put_footer a t (set_block_size a t (mem s)) x"
      "global_stats s' = global_stats s" unfolding bs by blast
    have h: "magic_header (hdr (mem s) a) = ALLOC_MAGIC_HEADER" "is_mmap (hdr (mem s) a) = 0"
      using ok by (auto simp: blk_ok_def tags_ok_def)
    have "t < 2 ^ 64" using t(4) by simp
    from resizedI [OF S(2,4,3) order_refl S(5) t(1) this refl h(1) a(2) h(2) refl S(6)] S(1)
    show ?thesis by blast
  qed
qed

text \<open>Path 2.\<close>

lemma realloc_expand_ok:
  assumes K: "kernel_ok K" and wf: "wfd s (xs @ (a, n) # (b, k) # zs) fs {}" and a: "is_free (hdr (mem s) a) = 0"
    and b: "b = a + n" "free_at (mem s) {} b"
    and t: "64 \<le> t" "t mod 16 = 0" "n < t" "t \<le> n + k" "t + 80 < 2 ^ 64"
  shows "\<exists>s'. realloc_expand K a t s = Inr s' \<and> resized a n t s (xs @ (a, n) # (b, k) # zs) s'"
proof -
  let ?bs = "xs @ (a, n) # (b, k) # zs"
  have ma: "(a, n) \<in> set ?bs" "(b, k) \<in> set ?bs" by simp_all
  note O = step_open [OF wf ma(1) a] and B = region_block [OF wfdD(1) [OF wf] ma(1)]
  have ok: "blk_ok (mem s) a n" using wfdD(5) [OF wf ma(1)] by simp
  then have bsz: "block_size (hdr (mem s) a) = n" by (simp add: blk_ok_def tags_ok_def)
  have ne: "b \<noteq> a" using B(5) b(1) by simp
  have fb: "free_at (mem s) {a} b" using b(2) ne by (simp add: free_at_def)
  define s1 where "s1 = unlink b s"
  have H: "insert b {a} - {b} = {a}" using ne by auto
  have T: "\<exists>fs'. wfd s1 (xs @ (a, n + k) # zs) fs' {a}" "tr s ?bs {a} s1 (xs @ (a, n + k) # zs) {a}"
    "\<And>e l. (e, l) \<in> set xs \<union> set zs \<Longrightarrow> free_at (mem s1) {a} e = free_at (mem s) {a} e"
    "free_list_remove K b s = Inr s1"
    using take_neighbour [OF O(1) fb, of a] K unfolding s1_def H by blast+
  from T(1) obtain fs1 where wf1: "wfd s1 (xs @ (a, n + k) # zs) fs1 {a}" by blast
  have kept: "\<forall>x\<in>{a..<a + n}. mem s1 x = mem s x"
    unfolding s1_def by (rule unlink_keeps_hole [OF O(1) ma(2) fb ma(1)]) simp
  then have ha: "hdr (mem s1) a = hdr (mem s) a" using B(5) by (intro hdr_cong) auto
  have hb: "block_size (hdr (mem s1) b) = k" unfolding s1_def by (rule step_unlink(3) [OF O(1) ma(2) fb])
  have h: "magic_header (hdr (mem s1) a) = ALLOC_MAGIC_HEADER" "is_free (hdr (mem s1) a) = 0"
    "is_mmap (hdr (mem s1) a) = 0" using ha ok a by (auto simp: blk_ok_def tags_ok_def)
  have nk: "n + k < 2 ^ 64" using region_block(9) [OF wfdD(1) [OF wf1], of a "n + k"] by simp
  have k64: "64 \<le> k" using region_block(5) [OF wfdD(1) [OF wf] ma(2)] .
  have keep: "mem s1 x = mem s x" if "a + 48 \<le> x" "x < a + n - 16" for x using kept that by auto
  have gs: "global_stats s1 = global_stats s" by (simp add: s1_def)
  show ?thesis
  proof (cases "n + k \<ge> t + 80")
    case False
    let ?m = "put_footer a (n + k) (set_block_size a (n + k) (mem s1))"
    note R = resize_hole [OF wf1 h(1,3) refl]
    have "realloc_expand K a t s = Inr (s1\<lparr>mem := ?m\<rparr>)"
      using False T(4) bsz b(1) ha hb nk t(5) by (simp add: realloc_expand_def Let_def min_split_def u64_simps)
    moreover have "resized a n t s ?bs (s1\<lparr>mem := ?m\<rparr>)"
      by (rule resizedI [OF R(1) tr_trans [OF T(2) R(2)] _ t(4) _ _ nk refl h keep])
        (use gs k64 in simp_all)
    ultimately show ?thesis by blast
  next
    case True
    define r where "r = n + k - t"
    have r: "n + k = t + r" "64 \<le> r" using True by (simp_all add: r_def)
    define m1 where "m1 = put_footer a t (set_block_size a t (mem s1))"
    define m2 where "m2 = put_footer (a + t) r (put_free_header (a + t) r m1)"
    have p1: "m1 x = mem s1 x" if "x < a \<or> a + t \<le> x" for x
      using that t(1) by (auto simp: m1_def mem_simps)
    have p2: "m2 x = m1 x" if "x < a + t \<or> a + t + r \<le> x" for x
      using that r by (auto simp: m2_def mem_simps)
    have r64: "r < 2 ^ 64" "t < 2 ^ 64" using nk r by linarith+
    have tags: "tags_ok m2 (a + t) r" "is_mmap (hdr m2 (a + t)) = 0"
      using r r64 by (simp_all add: tags_ok_def m2_def mem_simps)
    have nf: "zs \<noteq> [] \<longrightarrow> \<not> free_at (mem s1) {a} (fst (hd zs))"
      using no_adj_right [of "free_at (mem s) {a}" "xs @ [(a, n)]" b k zs] wfdD(4) [OF O(1)] fb
        T(3) [of "fst (hd zs)" "snd (hd zs)"] by simp
    define s' where "s' = free_list_insert (a + t) (s1\<lparr>mem := m2\<rparr>)"
    note S = split_off [OF wf1 [unfolded r(1)] t(1) r(2) t(2) p1 p2 tags nf, folded s'_def]
    have "realloc_expand K a t s = Inr s'"
      using True T(4) bsz b(1) ha hb nk t(5) r
      by (simp add: realloc_expand_def Let_def min_split_def u64_simps m1_def m2_def s'_def)
    moreover from S(1) obtain fs' where w: "wfd s' (xs @ (a, t) # (a + t, r) # zs) fs' {a}" by blast
    have "tr s ?bs {a} s' (xs @ (a, t) # (a + t, r) # zs) {a}"
      by (rule tr_trans [OF T(2) [unfolded r(1)] S(2)])
    then have "resized a n t s ?bs s'"
      by (rule resizedI [OF w _ _ order_refl _ t(1) r64(2) m1_def h keep])
        (use gs S(3) in \<open>simp_all add: s'_def\<close>)
    ultimately show ?thesis by blast
  qed
qed

subsection \<open>The outcome of a reallocation\<close>

definition reallocates ::
  "addr \<Rightarrow> byte list \<Rightarrow> nat \<Rightarrow> alloc_state \<Rightarrow> addr \<Rightarrow> alloc_state \<Rightarrow> bool" where
  "reallocates p xs sz s q s' \<longleftrightarrow> heap_inv s' \<and>
     (if q = 0 then heap_view s' = heap_view s \<and>
        total_allocated (global_stats s') = total_allocated (global_stats s) \<and>
        total_freed (global_stats s') = total_freed (global_stats s)
      else (q = p \<or> heap_view s q = None) \<and>
        (\<exists>ys. length ys = sz \<and> take (min (length xs) sz) ys = take (min (length xs) sz) xs \<and>
           heap_view s' = (heap_view s)(p := None, q \<mapsto> ys)) \<and>
        (total_allocated (global_stats s') + total_freed (global_stats s) + length xs) mod 2 ^ 64 =
        (total_allocated (global_stats s) + total_freed (global_stats s') + sz) mod 2 ^ 64)"

lemma take_payload_eq:
  assumes "\<And>i. i < k \<Longrightarrow> m' (b' + 48 + i) = m (b + 48 + i)"
    and "k \<le> requested_size (hdr m' b')" "k \<le> requested_size (hdr m b)"
  shows "take k (payload m' b') = take k (payload m b)"
  using assms by (intro nth_equalityI) (auto simp: payload_def)

lemma stats_resized_rest [simp]:
  "mem (stats_resized old sz s) = mem s" "os (stats_resized old sz s) = os s"
  "alloc_mutex (stats_resized old sz s) = alloc_mutex s" "heap_start (stats_resized old sz s) = heap_start s"
  "initial_break (stats_resized old sz s) = initial_break s"
  "segregated_heads (stats_resized old sz s) = segregated_heads s"
  by (simp_all add: stats_resized_def stat_defs)

lemma wfd_cong:
  "mem s' = mem s \<Longrightarrow> os s' = os s \<Longrightarrow> segregated_heads s' = segregated_heads s \<Longrightarrow>
   heap_start s' = heap_start s \<Longrightarrow> initial_break s' = initial_break s \<Longrightarrow> wfd s' bs fs H = wfd s bs fs H"
  by (simp add: wfd_def region_ok_def mappings_ok_def lists_ok_def)

lemma add64_mod_eq: "(add64 a b + c) mod 2 ^ 64 = (a + b + c) mod 2 ^ 64"
  by (simp add: add64_def mod_simps)

lemma add64_mod_eq2: "(c + add64 a b) mod 2 ^ 64 = (c + (a + b)) mod 2 ^ 64"
  by (simp add: add64_def mod_simps)

lemma stats_resized_balance:
  fixes s :: alloc_state and old sz :: nat
  defines "g \<equiv> global_stats s" and "g' \<equiv> global_stats (stats_resized old sz s)"
  shows "(total_allocated g' + total_freed g + old) mod 2 ^ 64 = (total_allocated g + total_freed g' + sz) mod 2 ^ 64"
proof -
  consider "sz < old" | "sz = old" | "old < sz" by linarith
  then show ?thesis
  proof cases
    case 1
    have "(total_allocated g + total_freed g' + sz) = (add64 (total_freed g) (old - sz) + (total_allocated g + sz))"
      using 1 by (simp add: g'_def g_def stats_resized_def stat_defs)
    then show ?thesis using 1 add64_mod_eq [of "total_freed g" "old - sz" "total_allocated g + sz"]
      by (simp add: g'_def g_def stats_resized_def stat_defs algebra_simps)
  next
    case 3
    have "(total_allocated g' + total_freed g + old) = (add64 (total_allocated g) (sz - old) + (total_freed g + old))"
      using 3 by (simp add: g'_def g_def stats_resized_def stat_defs)
    then show ?thesis using 3 add64_mod_eq [of "total_allocated g" "sz - old" "total_freed g + old"]
      by (simp add: g'_def g_def stats_resized_def stat_defs algebra_simps)
  qed (simp add: g'_def g_def stats_resized_def)
qed

text \<open>The end of the in-place paths.\<close>

lemma realloc_finish:
  assumes wf: "wfd s bs fs {}" and a: "(a, n) \<in> set bs" "is_free (hdr (mem s) a) = 0"
    and r: "resized a n t s bs s1" and sz: "sz + 64 \<le> t" "0 < sz" "sz < 2 ^ 64"
  defines "xs \<equiv> payload (mem s) a"
  defines "s' \<equiv> mutex_unlock (upd_mem (set_requested_size a sz) (stats_resized (length xs) sz s1))"
  shows "reallocates (a + HDR) xs sz s (a + HDR) s'"
proof -
  from r obtain bs' fs' n' where R: "wfd s1 bs' fs' {a}" "tr s bs {a} s1 bs' {a}" "(a, n') \<in> set bs'" "t \<le> n'"
    "tags_ok (mem s1) a n'" "is_free (hdr (mem s1) a) = 0" "is_mmap (hdr (mem s1) a) = 0"
    "\<And>x. a + 48 \<le> x \<Longrightarrow> x < a + min n t - 16 \<Longrightarrow> mem s1 x = mem s x" "global_stats s1 = global_stats s"
    by (auto simp: resized_def)
  note O = step_open [OF wf a]
  let ?m = "set_requested_size a sz (mem s1)"
  have n': "64 \<le> n'" using sz(1) R(4) by simp
  have same: "?m x = mem s1 x" if "x < a \<or> a + n' \<le> x" for x using that n' by (auto simp: mem_simps)
  note W = step_write [OF R(1,3) singletonI same]
  have h: "hdr ?m a = (hdr (mem s1) a)\<lparr>requested_size := sz\<rparr>" using sz(3) by (simp add: mem_simps)
  have f: "ftr ?m (footer_of a n') = ftr (mem s1) (footer_of a n')" using n' by (intro ftr_set) linarith
  have ok: "blk_ok (mem (s1\<lparr>mem := ?m\<rparr>)) a n'" "is_free (hdr (mem (s1\<lparr>mem := ?m\<rparr>)) a) = 0"
    using R h f sz by (simp_all add: blk_ok_def tags_ok_def)
  note C = step_close [OF W(1) R(3) singletonI ok, simplified]
  have m': "mem s' = ?m" "os s' = os s1" "\<not> alloc_mutex s'" by (simp_all add: s'_def mutex_unlock_def upd_mem_def)
  have "wfd s' bs' fs' {} = wfd (s1\<lparr>mem := ?m\<rparr>) bs' fs' {}"
    by (rule wfd_cong) (simp_all add: s'_def mutex_unlock_def upd_mem_def)
  with C(1) have wf': "wfd s' bs' fs' {}" by simp
  have T: "tr s bs {a} (s1\<lparr>mem := ?m\<rparr>) bs' {a}" by (rule tr_trans [OF R(2) W(2)])
  have "al s' bs' {} = al (s1\<lparr>mem := ?m\<rparr>) bs' {}" by (rule al_cong) (simp_all add: m')
  then have al': "al s' bs' {} = insert (a, n') (al s bs {} - {(a, n)})"
    using C(2) T O(2) by (simp add: tr_def)
  have fx: "fixed (al s bs {} - {(a, n)}) (mem s) (mem s')" using T O(2) by (simp add: tr_def m')
  note V = view_replace [OF wf wf' al' O(3) fx]
  have len: "length xs + 64 \<le> n" using al_requested(1) [OF wf O(3)] by (simp add: xs_def)
  have "take (min (length xs) sz) (payload (mem s') a) = take (min (length xs) sz) xs"
    unfolding xs_def
  proof (rule take_payload_eq)
    fix i assume i: "i < min (length (payload (mem s) a)) sz"
    have x: "a + 48 + i < a + min n t - 16" using i len sz(1) by (simp add: xs_def) linarith
    show "mem s' (a + 48 + i) = mem s (a + 48 + i)"
      using R(8) [OF _ x] by (simp add: m' mem_simps)
  qed (simp_all add: m' h)
  moreover have "length (payload (mem s') a) = sz" by (simp add: m' h)
  moreover have "global_stats s' = global_stats (stats_resized (length xs) sz s1)"
    by (simp add: s'_def mutex_unlock_def upd_mem_def)
  ultimately show ?thesis
    using V heap_invI [OF wf' m'(3)] stats_resized_balance [where s = s1 and old = "length xs" and sz = sz] R(9)
    unfolding reallocates_def by (auto intro!: exI [of _ "payload (mem s') a"])
qed

subsection \<open>Moving a mapping\<close>

lemma rd_shift: "\<forall>i<n. m' (a' + i) = m (a + i) \<Longrightarrow> rd n m' a' = rd n m a"
proof (induction n arbitrary: a a')
  case (Suc n)
  have "\<forall>i<n. m' (Suc a' + i) = m (Suc a + i)" using Suc.prems by (metis Suc_less_eq add_Suc add_Suc_right)
  with Suc.IH [of "Suc a'" "Suc a"] Suc.prems show ?case by (metis add_0_right rd.simps(2) zero_less_Suc)
qed simp

lemma hdr_memcpy: "48 \<le> k \<Longrightarrow> hdr (memcpy a' a k m) a' = hdr m a"
  unfolding hdr_def
  by (intro block_header_t.equality) (auto simp: memcpy_def add.assoc intro!: rd_shift)

lemma realloc_mremap_ok:
  assumes K: "kernel_ok K" and wf: "wfd s bs fs {}" and a: "(a, n) \<in> set (mappings (os s))"
    and sz: "sz + 64 \<le> t" "MMAP_THRESHOLD \<le> t" and k: "k_mremap K (os s) a n t = Some a'"
  defines "xs \<equiv> payload (mem s) a"
  defines "m' \<equiv> put_footer a' t (set_block_size a' t (set_requested_size a' sz (memcpy a' a (min n t) (mem s))))"
  defines "s' \<equiv> s\<lparr>os := (os s)\<lparr>mappings := (a', t) # removeAll (a, n) (mappings (os s))\<rparr>, mem := m'\<rparr>"
  shows "wfd s' bs fs {}" "heap_view s' = (heap_view s)(a + HDR := None, a' + HDR \<mapsto> payload m' a')"
    "take (min (length xs) sz) (payload m' a') = take (min (length xs) sz) xs"
    "length (payload m' a') = sz" "a' = a \<or> heap_view s (a' + HDR) = None"
proof -
  note U = step_unmap [OF wf a]
  let ?u = "s\<lparr>os := (os s)\<lparr>mappings := removeAll (a, n) (mappings (os s))\<rparr>\<rparr>"
  note M = mapping_block [OF wf a]
  have pl: "placed (os ?u) a' t" using kernel_okD(7) [OF K k] by (simp add: placed_def)
  have ap: "apart (a', t) x" if "x \<in> set (mappings (os ?u))" for x
    using kernel_okD(9) [OF K k, of x] that by simp
  have t64: "t < 2 ^ 64" "131072 \<le> t" "131072 \<le> n"
    using pl sz(2) M(1) by (auto simp: placed_def USER_TOP_def MMAP_THRESHOLD_def)
  have same: "m' x = mem ?u x" if "x < a' \<or> a' + t \<le> x" for x
    using that t64 by (auto simp: m'_def mem_simps memcpy_def)
  have h: "hdr m' a' = (hdr (mem s) a)\<lparr>requested_size := sz, block_size := t\<rparr>"
    using t64 sz(1) by (simp add: m'_def mem_simps hdr_memcpy)
  have f: "ftr m' (footer_of a' t) = \<lparr>magic_footer = ALLOC_MAGIC_FOOTER, f_block_size = t\<rparr>"
    using t64 by (simp add: m'_def mem_simps)
  have ok: "map_ok m' a' t" using M(3) h f sz(1) by (simp add: map_ok_def tags_ok_def)
  note S = step_map [OF U(1) pl sz(2) ap same ok]
  show wf': "wfd s' bs fs {}" using S(1) by (simp add: s'_def)
  have al': "al s' bs {} = insert (a', t) (al s bs {} - {(a, n)})"
    using S(2) U(2) by (simp add: s'_def)
  have fx: "fixed (al s bs {} - {(a, n)}) (mem s) (mem s')"
    using S(3) U(2) by (simp add: s'_def)
  show "heap_view s' = (heap_view s)(a + HDR := None, a' + HDR \<mapsto> payload m' a')"
    using view_replace [OF wf wf' al' U(3) fx] by (simp add: s'_def)
  show "length (payload m' a') = sz" by (simp add: h)
  have len: "length xs + 64 \<le> n" using al_requested(1) [OF wf U(3)] by (simp add: xs_def)
  show "take (min (length xs) sz) (payload m' a') = take (min (length xs) sz) xs"
    unfolding xs_def
  proof (rule take_payload_eq)
    fix i assume i: "i < min (length (payload (mem s) a)) sz"
    have "a' + 48 + i < footer_of a' t" using i sz(1) by linarith
    then have "m' (a' + 48 + i) = memcpy a' a (min n t) (mem s) (a' + 48 + i)"
      by (simp add: m'_def mem_simps)
    also have "\<dots> = mem s (a + 48 + i)"
      using i len sz(1) by (simp add: memcpy_def xs_def add.assoc)
    finally show "m' (a' + 48 + i) = mem s (a + 48 + i)" .
  qed (simp_all add: h)
  show "a' = a \<or> heap_view s (a' + HDR) = None"
  proof (rule disjCI)
    assume v: "heap_view s (a' + HDR) \<noteq> None"
    then obtain k where k': "(a', k) \<in> al s bs {}" by (auto simp: heap_view_iff [OF wf])
    show "a' = a"
    proof (rule ccontr)
      assume "a' \<noteq> a"
      then have "(a', k) \<in> al s' bs {}" using k' by (simp add: al')
      moreover have "(a', t) \<in> al s' bs {}" by (simp add: al')
      ultimately have "k = t" using al_fun [OF wf'] by blast
      then show False using S(4) k' U(2) \<open>a' \<noteq> a\<close> by simp
    qed
  qed
qed

subsection \<open>Allocate, copy, free\<close>

lemma view_bytes:
  assumes "heap_inv s" "heap_view s p = Some xs" "i < length xs"
  shows "xs ! i = mem s (p + i)"
proof -
  from assms(1) obtain bs fs where wf: "wfd s bs fs {}" by (rule heap_invE)
  from assms(2) obtain b n where "p = b + HDR" "xs = payload (mem s) b"
    unfolding heap_view_iff [OF wf] by blast
  with assms(3) show ?thesis by (simp add: payload_def)
qed

lemma my_realloc_move_ok:
  assumes K: "kernel_ok K" and inv: "heap_inv s" and p: "heap_view s p = Some xs"
  shows "\<exists>q s'. my_realloc_move K p sz (length xs) s = Inr (q, s') \<and> reallocates p xs sz s q s'"
proof -
  from my_malloc_ok [OF K inv, of sz] obtain q s1 where
    m: "my_malloc K sz s = Inr (q, s1)" "allocates sz s q s1" by blast
  show ?thesis
  proof (cases "q = 0")
    case True
    then show ?thesis using m by (auto simp: my_realloc_move_def allocates_def reallocates_def)
  next
    case q: False
    from m(2) q obtain ws where w: "heap_inv s1" "heap_view s q = None" "heap_view s1 = (heap_view s)(q \<mapsto> ws)"
      "length ws = sz" by (rule allocates_fresh)
    define k where "k = (if length xs < sz then length xs else sz)"
    have k: "k = min (length xs) sz" by (simp add: k_def)
    define m' where "m' = memcpy q p k (mem s1)"
    define ys where "ys = map m' [q..<q + sz]"
    have qp: "q \<noteq> p" using w(2) p by auto
    have p1: "heap_view s1 p = Some xs" using w(3) p qp by simp
    have out: "m' x = mem s1 x" if "x < q \<or> q + length ws \<le> x" for x
      using that w(4) k by (auto simp: m'_def memcpy_def)
    have q1: "heap_view s1 q = Some ws" using w(3) by simp
    note W = view_write [OF w(1) q1 out]
    have v: "heap_view (s1\<lparr>mem := m'\<rparr>) = (heap_view s)(q \<mapsto> ys)"
      using W(2) w(3,4) by (simp add: ys_def)
    then have p2: "heap_view (s1\<lparr>mem := m'\<rparr>) p = Some xs" using p qp by simp
    from my_free_ok [OF K W(1) p2] obtain s2 where
      f: "my_free K p (s1\<lparr>mem := m'\<rparr>) = Inr s2" "releases p xs (s1\<lparr>mem := m'\<rparr>) s2" by blast
    have "my_realloc_move K p sz (length xs) s = Inr (q, s2)"
      using m(1) q f(1) by (simp add: my_realloc_move_def upd_mem_def m'_def k_def)
    moreover have "take k ys = take k xs"
      using view_bytes [OF w(1) p1] by (intro nth_equalityI) (auto simp: k ys_def m'_def memcpy_def)
    moreover have "heap_view s2 = (heap_view s)(p := None, q \<mapsto> ys)" "heap_inv s2"
      using f(2) v qp by (auto simp: releases_def fun_upd_twist)
    moreover have "(total_allocated (global_stats s2) + total_freed (global_stats s) + length xs) mod 2 ^ 64 =
        (total_allocated (global_stats s) + total_freed (global_stats s2) + sz) mod 2 ^ 64"
      using m(2) f(2) q add64_mod_eq [of "total_allocated (global_stats s)" sz "total_freed (global_stats s) + length xs"]
        add64_mod_eq [of "total_freed (global_stats s)" "length xs" "total_allocated (global_stats s) + sz"]
      by (simp add: allocates_def releases_def algebra_simps)
    ultimately show ?thesis using q w(2) unfolding reallocates_def k
      by (auto simp: ys_def intro!: exI [of _ ys])
  qed
qed

subsection \<open>Reallocation of a live block\<close>

lemma realloc_heap_ok:
  assumes K: "kernel_ok K" and wf: "wfd s bs fs {}" and a: "(a, n) \<in> set bs" "is_free (hdr (mem s) a) = 0"
    and sz: "0 < sz" "sz \<le> SIZE_MAX - 1024"
  defines "xs \<equiv> payload (mem s) a"
  shows "(\<exists>s'. realloc_heap K (a + HDR) sz s = Inr (Done (a + HDR), s') \<and>
           reallocates (a + HDR) xs sz s (a + HDR) s') \<or>
         realloc_heap K (a + HDR) sz s = Inr (Relocate (length xs), mutex_unlock s)"
proof -
  let ?t = "total_size_of sz"
  note T = total_size_of_eq [OF sz(2)] and B = region_block [OF wfdD(1) [OF wf] a(1)]
  have t64: "64 \<le> ?t" "sz < 2 ^ 64" using T(2) sz(2) by (simp_all add: SIZE_MAX_def)
  have ok: "blk_ok (mem s) a n" using wfdD(5) [OF wf a(1)] by simp
  have bsz: "block_size (hdr (mem s) a) = n" using ok by (simp add: blk_ok_def tags_ok_def)
  have hd: "sub64 (a + HDR) HDR = a" using B(5,9) by (simp add: u64_simps)
  note fin = realloc_finish [OF wf a _ T(2) sz(1) t64(2), folded xs_def]
  have rq: "requested_size (hdr (mem s) a) = length xs" by (simp add: xs_def)
  note step = realloc_heap_def Let_def kernel_okD(1) [OF K] hd bsz rq
  show ?thesis
  proof (cases "n \<ge> ?t")
    case True
    from realloc_in_block_ok [OF K wf a t64(1) T(3) True T(5)] obtain s1 where
      "realloc_in_block K a ?t (cur_brk (os s)) s = Inr s1" "resized a n ?t s bs s1" by blast
    then show ?thesis using fin True by (simp add: step)
  next
    case False
    show ?thesis
    proof (cases "?t < MMAP_THRESHOLD \<and> is_adjacent_free_block s (a + n) (cur_brk (os s)) \<and>
        add64 n (block_size (hdr (mem s) (a + n))) \<ge> ?t")
      case True
      from a(1) obtain us ys where bs: "bs = us @ (a, n) # ys" by (meson split_list)
      note N = tiles_next [OF region_tiles [OF wfdD(1) [OF wf, unfolded bs]]]
      obtain k zs where y: "ys = (a + n, k) # zs"
        using N True adjacent_free_end by (cases ys; cases "hd ys") auto
      have mb: "(a + n, k) \<in> set bs" by (simp add: bs y)
      have fr: "free_at (mem s) {} (a + n)" using adjacent_free_iff [OF wf mb] True by simp
      have "block_size (hdr (mem s) (a + n)) = k" using wfdD(5) [OF wf mb] by (simp add: blk_ok_def tags_ok_def)
      moreover have "n + k < 2 ^ 64" using region_block(9) [OF wfdD(1) [OF wf] mb] by simp
      ultimately have tk: "?t \<le> n + k" using True by (simp add: u64_simps)
      from realloc_expand_ok [OF K wf [unfolded bs y] a(2) refl fr t64(1) T(3) _ tk T(5)] False
      obtain s1 where "realloc_expand K a ?t s = Inr s1" "resized a n ?t s bs s1" unfolding bs y by auto
      then show ?thesis using fin True False by (simp add: step)
    qed (use False in \<open>auto simp: step\<close>)
  qed
qed

lemma realloc_mmap_ok:
  assumes K: "kernel_ok K" and wf: "wfd s bs fs {}" and a: "(a, n) \<in> set (mappings (os s))"
    and sz: "0 < sz" "sz \<le> SIZE_MAX - 1024"
  defines "xs \<equiv> payload (mem s) a"
  shows "(\<exists>q s'. realloc_mmap K a sz s = (Done q, s') \<and> q \<noteq> 0 \<and> reallocates (a + HDR) xs sz s q s') \<or>
         (\<exists>e. realloc_mmap K a sz s = (Relocate (length xs), mutex_unlock (s\<lparr>errno := e\<rparr>)))"
proof -
  let ?t = "total_size_of sz"
  note T = total_size_of_eq [OF sz(2)] and M = mapping_block [OF wf a]
  have bsz: "block_size (hdr (mem s) a) = n" using M(3) by (simp add: map_ok_def tags_ok_def)
  have rq: "requested_size (hdr (mem s) a) = length xs" by (simp add: xs_def)
  note step = realloc_mmap_def Let_def mremap_def bsz rq
  have e: "mutex_unlock s = mutex_unlock (s\<lparr>errno := errno s\<rparr>)" by simp
  show ?thesis
  proof (cases "?t \<ge> MMAP_THRESHOLD")
    case False
    then have "realloc_mmap K a sz s = (Relocate (length xs), mutex_unlock (s\<lparr>errno := errno s\<rparr>))"
      by (simp add: step)
    then show ?thesis by blast
  next
    case True
    show ?thesis
    proof (cases "k_mremap K (os s) a n ?t")
      case None
      then show ?thesis using True by (auto simp: step)
    next
      case (Some a')
      define m' where "m' = put_footer a' ?t (set_block_size a' ?t (set_requested_size a' sz
        (memcpy a' a (min n ?t) (mem s))))"
      define s1 where "s1 = s\<lparr>os := (os s)\<lparr>mappings := (a', ?t) # removeAll (a, n) (mappings (os s))\<rparr>, mem := m'\<rparr>"
      note R = realloc_mremap_ok [OF K wf a T(2) True Some, folded m'_def xs_def, folded s1_def]
      define s' where "s' = mutex_unlock (stats_freed (length xs) (stats_allocated sz s1))"
      have "realloc_mmap K a sz s = (Done (a' + HDR), s')"
        using True Some by (simp add: step m'_def s1_def s'_def)
      moreover have "heap_inv s'" using R(1) heap_invI [of s' bs fs] by (simp add: s'_def stat_defs)
      moreover have "heap_view s' = (heap_view s)(a + HDR := None, a' + HDR \<mapsto> payload m' a')"
        using R(2) by (simp add: s'_def stat_defs)
      moreover have "(total_allocated (global_stats s') + total_freed (global_stats s) + length xs) mod 2 ^ 64 =
          (total_allocated (global_stats s) + total_freed (global_stats s') + sz) mod 2 ^ 64"
        using add64_mod_eq [of "total_allocated (global_stats s)" sz "total_freed (global_stats s) + length xs"]
          add64_mod_eq [of "total_freed (global_stats s)" "length xs" "total_allocated (global_stats s) + sz"]
        by (simp add: s'_def s1_def stat_defs algebra_simps)
      ultimately show ?thesis using R(3-5) unfolding reallocates_def
        by (intro disjI1 exI [of _ "a' + HDR"] exI [of _ s']) (auto intro!: exI [of _ "payload m' a'"])
    qed
  qed
qed

lemma my_realloc_ok:
  assumes K: "kernel_ok K" and inv: "heap_inv s" and p: "heap_view s p = Some xs"
    and sz: "0 < sz"
  shows "\<exists>q s'. my_realloc K p sz s = Inr (q, s') \<and> reallocates p xs sz s q s'"
proof (cases "sz > SIZE_MAX - 1024")
  case True
  have "p \<noteq> 0" using view_bounds(1) [OF inv p] by simp
  then show ?thesis using True sz inv by (simp add: my_realloc_def reallocates_def)
next
  case False
  then have le: "sz \<le> SIZE_MAX - 1024" by simp
  from inv obtain bs fs where wf0: "wfd s bs fs {}" and mx: "\<not> alloc_mutex s" by (rule heap_invE)
  let ?s1 = "s\<lparr>alloc_mutex := True\<rparr>"
  have wf: "wfd ?s1 bs fs {}" using wf0 by simp
  have lock: "mutex_lock s = Inr ?s1" using mx by (simp add: mutex_lock_def)
  from p obtain b n where b0: "(b, n) \<in> al s bs {}" "p = b + HDR" "xs = payload (mem s) b"
    unfolding heap_view_iff [OF wf0] by blast
  have b: "(b, n) \<in> al ?s1 bs {}" using b0(1) by simp
  have chk: "my_realloc_checks K b ?s1 = None"
    unfolding my_realloc_checks_def by (rule block_checks_ok [OF K wf b])
  have hb: "sub64 p HDR = b" using b0(2) al_bounds(3,4) [OF wf b] by (simp add: u64_simps)
  have p0: "p \<noteq> 0" using b0(2) by simp
  have cong: "reallocates p xs sz s q s'" if "reallocates p xs sz ?s1 q s'" for q s'
    using that by (simp add: reallocates_def split: if_splits)
  have move: ?thesis if "my_realloc_locked K p sz s = Inr (Relocate (length xs), mutex_unlock (?s1\<lparr>errno := e\<rparr>))" for e
  proof -
    let ?u = "s\<lparr>errno := e\<rparr>"
    have u: "mutex_unlock (?s1\<lparr>errno := e\<rparr>) = ?u" using mx by (simp add: mutex_unlock_def)
    have "heap_inv ?u" "heap_view ?u p = Some xs" using inv p by simp_all
    from my_realloc_move_ok [OF K this, of sz] obtain q s' where
      r: "my_realloc_move K p sz (length xs) ?u = Inr (q, s')" "reallocates p xs sz ?u q s'" by blast
    have "my_realloc K p sz s = Inr (q, s')"
      using that r(1) p0 sz False unfolding u by (simp add: my_realloc_def)
    moreover have "reallocates p xs sz s q s'"
      using r(2) by (simp add: reallocates_def split: if_splits)
    ultimately show ?thesis by blast
  qed
  show ?thesis
  proof (cases "(b, n) \<in> set (mappings (os s))")
    case True
    then have mp: "is_mmap (hdr (mem s) b) \<noteq> 0" using mapping_block(3) [OF wf0 True] by (simp add: map_ok_def)
    then have l: "my_realloc_locked K p sz s = Inr (realloc_mmap K b sz ?s1)"
      using lock chk hb by (simp add: my_realloc_locked_def)
    have True1: "(b, n) \<in> set (mappings (os ?s1))" using True by simp
    have xs1: "xs = payload (mem ?s1) b" using b0(3) by simp
    from realloc_mmap_ok [OF K wf True1 sz le] show ?thesis
    proof (elim disjE exE conjE)
      fix q s' assume r: "realloc_mmap K b sz ?s1 = (Done q, s')"
        "reallocates (b + HDR) (payload (mem ?s1) b) sz ?s1 q s'"
      have "my_realloc K p sz s = Inr (q, s')" using l r(1) p0 sz False by (simp add: my_realloc_def)
      moreover have "reallocates p xs sz s q s'" using cong r(2) unfolding xs1 [symmetric] b0(2) .
      ultimately show ?thesis by blast
    next
      fix e assume "realloc_mmap K b sz ?s1 =
        (Relocate (length (payload (mem ?s1) b)), mutex_unlock (?s1\<lparr>errno := e\<rparr>))"
      then show ?thesis using move [of e] l unfolding xs1 by simp
    qed
  next
    case False
    then have a: "(b, n) \<in> set bs" "is_free (hdr (mem s) b) = 0" using b0(1) by (auto simp: al_def)
    have "is_mmap (hdr (mem s) b) = 0" using wfdD(5) [OF wf0 a(1)] by (simp add: blk_ok_def)
    then have l: "my_realloc_locked K p sz s = realloc_heap K p sz ?s1"
      using lock chk hb by (simp add: my_realloc_locked_def)
    have fr: "is_free (hdr (mem ?s1) b) = 0" using a(2) by simp
    have xs1: "xs = payload (mem ?s1) b" using b0(3) by simp
    from realloc_heap_ok [OF K wf a(1) fr sz le] show ?thesis
    proof (elim disjE exE conjE)
      fix s' assume r: "realloc_heap K (b + HDR) sz ?s1 = Inr (Done (b + HDR), s')"
        "reallocates (b + HDR) (payload (mem ?s1) b) sz ?s1 (b + HDR) s'"
      have "my_realloc K p sz s = Inr (p, s')"
        using l r(1) p0 sz le by (simp add: my_realloc_def b0(2))
      moreover have "reallocates p xs sz s p s'" using cong r(2) unfolding xs1 [symmetric] b0(2) .
      ultimately show ?thesis by blast
    next
      assume "realloc_heap K (b + HDR) sz ?s1 =
        Inr (Relocate (length (payload (mem ?s1) b)), mutex_unlock ?s1)"
      then show ?thesis using move [of "errno s"] l unfolding xs1 b0(2) by simp
    qed
  qed
qed

end
