(* ===== verification/Heap_Client.thy ===== *)
theory Heap_Client
  imports Realloc_Correct Machines
begin

text \<open>
  The interface the allocator offers to its callers, as a locale over the view of the live
  payloads, and the proof that the model of \<^verbatim>\<open>allocator.c\<close> implements it. A caller is a
  sequence of requests that name live pointers only; the theorems about such sequences are
  proved from the interface and hold of the model through its interpretation.
\<close>

subsection \<open>Requests and the abstract allocator\<close>

datatype request =
    Malloc nat
  | Calloc nat nat
  | Realloc addr nat
  | Free addr
  | Store addr nat "byte list"

text \<open>
  The requests a correct caller makes: it frees and resizes live pointers (or \<^verbatim>\<open>NULL\<close>) and
  stores inside live payloads.
\<close>

fun allowed :: "(addr \<rightharpoonup> byte list) \<Rightarrow> request \<Rightarrow> bool" where
  "allowed v (Malloc n) = True"
| "allowed v (Calloc k n) = True"
| "allowed v (Realloc p n) = (p = 0 \<or> v p \<noteq> None)"
| "allowed v (Free p) = (p = 0 \<or> v p \<noteq> None)"
| "allowed v (Store p i ys) = (case v p of None \<Rightarrow> False | Some xs \<Rightarrow> i + length ys \<le> length xs)"

definition fresh_payload :: "(addr \<rightharpoonup> byte list) \<Rightarrow> nat \<Rightarrow> addr \<Rightarrow> (addr \<rightharpoonup> byte list) \<Rightarrow> bool" where
  "fresh_payload v n p v' \<longleftrightarrow>
     (if p = 0 then v' = v else v p = None \<and> (\<exists>xs. length xs = n \<and> v' = v(p \<mapsto> xs)))"

definition moved_payload ::
  "(addr \<rightharpoonup> byte list) \<Rightarrow> addr \<Rightarrow> byte list \<Rightarrow> nat \<Rightarrow> addr \<Rightarrow> (addr \<rightharpoonup> byte list) \<Rightarrow> bool" where
  "moved_payload v p xs n q v' \<longleftrightarrow>
     (if q = 0 then v' = v
      else (q = p \<or> v q = None) \<and>
        (\<exists>ys. length ys = n \<and> take (min (length xs) n) ys = take (min (length xs) n) xs \<and>
              v' = v(p := None, q \<mapsto> ys)))"

text \<open>The abstract allocator: what request \<open>r\<close>, answered with \<open>p\<close>, does to the view.\<close>

fun serves :: "(addr \<rightharpoonup> byte list) \<Rightarrow> request \<Rightarrow> addr \<Rightarrow> (addr \<rightharpoonup> byte list) \<Rightarrow> bool" where
  "serves v (Malloc n) p v' = fresh_payload v n p v'"
| "serves v (Calloc k n) p v' =
     (fresh_payload v (k * n) p v' \<and> (p \<noteq> 0 \<longrightarrow> v' p = Some (replicate (k * n) 0)))"
| "serves v (Realloc p n) q v' =
     (if p = 0 then fresh_payload v n q v'
      else if n = 0 then q = 0 \<and> v' = v(p := None)
      else moved_payload v p (the (v p)) n q v')"
| "serves v (Free p) q v' = (q = 0 \<and> v' = v(p := None))"
| "serves v (Store p i ys) q v' =
     (q = 0 \<and> v' = v(p \<mapsto> take i (the (v p)) @ ys @ drop (i + length ys) (the (v p))))"

definition exec_with ::
  "(nat \<Rightarrow> 's \<Rightarrow> (addr \<times> 's) outcome) \<Rightarrow> (nat \<Rightarrow> nat \<Rightarrow> 's \<Rightarrow> (addr \<times> 's) outcome) \<Rightarrow>
   (addr \<Rightarrow> nat \<Rightarrow> 's \<Rightarrow> (addr \<times> 's) outcome) \<Rightarrow> (addr \<Rightarrow> 's \<Rightarrow> 's outcome) \<Rightarrow>
   (addr \<Rightarrow> byte list \<Rightarrow> 's \<Rightarrow> 's) \<Rightarrow> request \<Rightarrow> 's \<Rightarrow> (addr \<times> 's) outcome" where
  "exec_with mal cal rea fre store r s =
     (case r of
        Malloc n \<Rightarrow> mal n s
      | Calloc k n \<Rightarrow> cal k n s
      | Realloc p n \<Rightarrow> rea p n s
      | Free p \<Rightarrow> (case fre p s of Inl e \<Rightarrow> Inl e | Inr s' \<Rightarrow> Inr (0, s'))
      | Store p i ys \<Rightarrow> Inr (0, store (p + i) ys s))"

text \<open>
  A run: the requests one after the other, up to a fault. A run of a correct caller makes only
  allowed requests; \<open>keeps q\<close> are the requests that neither free nor resize \<open>q\<close>, \<open>spares q\<close>
  those that do not store into it either.
\<close>

fun run_with :: "(request \<Rightarrow> 's \<Rightarrow> (addr \<times> 's) outcome) \<Rightarrow> request list \<Rightarrow> 's \<Rightarrow> 's outcome" where
  "run_with ex [] s = Inr s"
| "run_with ex (r # rs) s = (case ex r s of Inl e \<Rightarrow> Inl e | Inr (p, s') \<Rightarrow> run_with ex rs s')"

fun allowed_run ::
  "('s \<Rightarrow> addr \<rightharpoonup> byte list) \<Rightarrow> (request \<Rightarrow> 's \<Rightarrow> (addr \<times> 's) outcome) \<Rightarrow> request list \<Rightarrow> 's \<Rightarrow> bool" where
  "allowed_run v ex [] s = True"
| "allowed_run v ex (r # rs) s =
     (allowed (v s) r \<and> (case ex r s of Inl e \<Rightarrow> True | Inr (p, s') \<Rightarrow> allowed_run v ex rs s'))"

fun keeps :: "addr \<Rightarrow> request \<Rightarrow> bool" where
  "keeps q (Realloc p n) = (p \<noteq> q)"
| "keeps q (Free p) = (p \<noteq> q)"
| "keeps q r = True"

fun spares :: "addr \<Rightarrow> request \<Rightarrow> bool" where
  "spares q (Store p i ys) = (p \<noteq> q)"
| "spares q r = keeps q r"

lemma spares_keeps: "spares q r \<Longrightarrow> keeps q r"
  by (cases r) simp_all

subsection \<open>The interface\<close>

locale heap_allocator =
  fixes env_ok :: "'e \<Rightarrow> bool" and inv :: "'s \<Rightarrow> bool" and view :: "'s \<Rightarrow> addr \<rightharpoonup> byte list"
    and mal :: "'e \<Rightarrow> nat \<Rightarrow> 's \<Rightarrow> (addr \<times> 's) outcome"
    and cal :: "'e \<Rightarrow> nat \<Rightarrow> nat \<Rightarrow> 's \<Rightarrow> (addr \<times> 's) outcome"
    and rea :: "'e \<Rightarrow> addr \<Rightarrow> nat \<Rightarrow> 's \<Rightarrow> (addr \<times> 's) outcome"
    and fre :: "'e \<Rightarrow> addr \<Rightarrow> 's \<Rightarrow> 's outcome"
    and store :: "addr \<Rightarrow> byte list \<Rightarrow> 's \<Rightarrow> 's"
  assumes null_dead: "inv s \<Longrightarrow> view s 0 = None"
    and mal_law: "env_ok e \<Longrightarrow> inv s \<Longrightarrow>
      \<exists>p s'. mal e n s = Inr (p, s') \<and> inv s' \<and> fresh_payload (view s) n p (view s')"
    and cal_law: "env_ok e \<Longrightarrow> inv s \<Longrightarrow>
      \<exists>p s'. cal e k n s = Inr (p, s') \<and> inv s' \<and> fresh_payload (view s) (k * n) p (view s') \<and>
        (p \<noteq> 0 \<longrightarrow> view s' p = Some (replicate (k * n) 0))"
    and rea_law: "env_ok e \<Longrightarrow> inv s \<Longrightarrow> view s p = Some xs \<Longrightarrow> 0 < n \<Longrightarrow>
      \<exists>q s'. rea e p n s = Inr (q, s') \<and> inv s' \<and> moved_payload (view s) p xs n q (view s')"
    and rea_null: "rea e 0 n s = mal e n s"
    and rea_zero: "env_ok e \<Longrightarrow> inv s \<Longrightarrow> view s p = Some xs \<Longrightarrow> rea e p 0 s = (case fre e p s of Inl x \<Rightarrow> Inl x | Inr s' \<Rightarrow> Inr (0, s'))"
    and fre_law: "env_ok e \<Longrightarrow> inv s \<Longrightarrow> view s p = Some xs \<Longrightarrow>
      \<exists>s'. fre e p s = Inr s' \<and> inv s' \<and> view s' = (view s)(p := None)"
    and fre_null: "fre e 0 s = Inr s"
    and store_law: "inv s \<Longrightarrow> view s p = Some xs \<Longrightarrow> i + length ys \<le> length xs \<Longrightarrow>
      inv (store (p + i) ys s) \<and>
      view (store (p + i) ys s) = (view s)(p \<mapsto> take i xs @ ys @ drop (i + length ys) xs)"
begin

abbreviation exec :: "'e \<Rightarrow> request \<Rightarrow> 's \<Rightarrow> (addr \<times> 's) outcome" where
  "exec e \<equiv> exec_with (mal e) (cal e) (rea e) (fre e) store"

lemma free_any:
  assumes "env_ok e" "inv s" "p = 0 \<or> view s p \<noteq> None"
  shows "\<exists>s'. fre e p s = Inr s' \<and> inv s' \<and> view s' = (view s)(p := None)"
proof (cases "p = 0")
  case True
  then show ?thesis using assms fre_null null_dead by (auto simp: fun_upd_idem)
next
  case False
  with assms fre_law show ?thesis by (metis option.exhaust)
qed

lemma exec_serves:
  assumes e: "env_ok e" and s: "inv s" and a: "allowed (view s) r"
  shows "\<exists>p s'. exec e r s = Inr (p, s') \<and> inv s' \<and> serves (view s) r p (view s')"
proof (cases r)
  case (Malloc n)
  then show ?thesis using mal_law [OF e s, of n] by (auto simp: exec_with_def)
next
  case (Calloc k n)
  then show ?thesis using cal_law [OF e s, of k n] by (auto simp: exec_with_def)
next
  case (Realloc p n)
  consider "p = 0" | "p \<noteq> 0" "n = 0" | "p \<noteq> 0" "0 < n" by blast
  then show ?thesis
  proof cases
    case 1
    then show ?thesis using mal_law [OF e s, of n] Realloc by (auto simp: exec_with_def rea_null)
  next
    case 2
    then obtain s' where "fre e p s = Inr s'" "inv s'" "view s' = (view s)(p := None)"
      using free_any [OF e s] a Realloc by auto
    moreover obtain xs where "view s p = Some xs" using 2 a Realloc by auto
    ultimately show ?thesis using 2 Realloc rea_zero [OF e s] by (simp add: exec_with_def)
  next
    case 3
    then obtain xs where "view s p = Some xs" using a Realloc by auto
    then show ?thesis using rea_law [OF e s _ 3(2)] Realloc 3 by (auto simp: exec_with_def)
  qed
next
  case (Free p)
  then show ?thesis using free_any [OF e s, of p] a by (auto simp: exec_with_def)
next
  case (Store p i ys)
  then obtain xs where "view s p = Some xs" "i + length ys \<le> length xs"
    using a by (auto split: option.splits)
  then show ?thesis using store_law [OF s] Store by (simp add: exec_with_def)
qed

text \<open>
  A payload that no request frees or resizes stays live with its size, and keeps its bytes if
  nobody stores into it; over a run this follows request by request.
\<close>

lemma exec_keeps:
  assumes "env_ok e" "inv s" "allowed (view s) r" "exec e r s = Inr (p, s')" "view s q = Some xs" "keeps q r"
  shows "\<exists>ys. view s' q = Some ys \<and> length ys = length xs \<and> (spares q r \<longrightarrow> ys = xs)"
proof -
  have "serves (view s) r p (view s')" using exec_serves [OF assms(1-3)] assms(4) by auto
  then show ?thesis using assms(3,5,6)
    by (cases r) (auto simp: fresh_payload_def moved_payload_def split: if_splits option.splits)
qed

lemma run_keeps:
  assumes "env_ok e"
  shows "inv s \<Longrightarrow> view s q = Some xs \<Longrightarrow> allowed_run view (exec e) rs s \<Longrightarrow> \<forall>r\<in>set rs. keeps q r \<Longrightarrow>
    \<exists>t ys. run_with (exec e) rs s = Inr t \<and> inv t \<and> view t q = Some ys \<and> length ys = length xs \<and>
      ((\<forall>r\<in>set rs. spares q r) \<longrightarrow> ys = xs)"
proof (induction rs arbitrary: s xs)
  case (Cons r rs)
  have a: "allowed (view s) r" using Cons.prems by simp
  from exec_serves [OF assms Cons.prems(1) a] obtain p s' where
    x: "exec e r s = Inr (p, s')" "inv s'" by blast
  from exec_keeps [OF assms Cons.prems(1) a x(1) Cons.prems(2)] Cons.prems(4) obtain ys where
    y: "view s' q = Some ys" "length ys = length xs" "spares q r \<longrightarrow> ys = xs" by auto
  from Cons.IH [OF x(2) y(1)] Cons.prems(3,4) x(1) y(2,3) show ?case by auto
qed simp

end

subsection \<open>The model of the allocator implements the interface\<close>

text \<open>A caller's store of the bytes \<open>ys\<close> at \<open>a\<close>.\<close>

definition poke :: "addr \<Rightarrow> byte list \<Rightarrow> alloc_state \<Rightarrow> alloc_state" where
  "poke a ys s = s\<lparr>mem := (\<lambda>x. if a \<le> x \<and> x < a + length ys then ys ! (x - a) else mem s x)\<rparr>"

lemma poke_view:
  assumes inv: "heap_inv s" and p: "heap_view s p = Some xs" and len: "i + length ys \<le> length xs"
  shows "heap_inv (poke (p + i) ys s)"
    "heap_view (poke (p + i) ys s) = (heap_view s)(p \<mapsto> take i xs @ ys @ drop (i + length ys) xs)"
proof -
  let ?m = "\<lambda>x. if p + i \<le> x \<and> x < p + i + length ys then ys ! (x - (p + i)) else mem s x"
  have out: "?m x = mem s x" if "x < p \<or> p + length xs \<le> x" for x using that len by auto
  note W = view_write [OF inv p, of ?m, OF out]
  show "heap_inv (poke (p + i) ys s)" using W(1) by (simp add: poke_def)
  have "map ?m [p..<p + length xs] = take i xs @ ys @ drop (i + length ys) xs"
    using len view_bytes [OF inv p]
    by (intro nth_equalityI) (auto simp: nth_append min_def algebra_simps)
  then show "heap_view (poke (p + i) ys s) = (heap_view s)(p \<mapsto> take i xs @ ys @ drop (i + length ys) xs)"
    using W(2) by (simp add: poke_def)
qed

lemma heap_view_null: "heap_inv s \<Longrightarrow> heap_view s 0 = None"
  using view_bounds(1) [of s 0] by (cases "heap_view s 0") auto

lemma outcome_payload:
  "allocates n s p s' \<Longrightarrow> heap_inv s' \<and> fresh_payload (heap_view s) n p (heap_view s')"
  "reallocates p xs n s q s' \<Longrightarrow> heap_inv s' \<and> moved_payload (heap_view s) p xs n q (heap_view s')"
  by (simp_all add: allocates_def fresh_payload_def reallocates_def moved_payload_def split: if_splits)

interpretation alloc: heap_allocator kernel_ok heap_inv heap_view my_malloc my_calloc my_realloc my_free poke
proof (unfold_locales, goal_cases)
  case (1 s)
  then show ?case by (rule heap_view_null)
next
  case (2 e s n)
  then show ?case using my_malloc_ok [of e s n] outcome_payload(1) by blast
next
  case (3 e s k n)
  then show ?case using my_calloc_ok [of e s k n] outcome_payload(1) by blast
next
  case (4 e s p xs n)
  then show ?case using my_realloc_ok [of e s p xs n] outcome_payload(2) by blast
next
  case (5 e n s)
  then show ?case by (simp add: my_realloc_def)
next
  case (6 e s p xs)
  then show ?case using view_bounds(1) [of s p xs] by (simp add: my_realloc_def)
next
  case (7 e s p xs)
  then show ?case using my_free_ok [of e s p xs] unfolding releases_def by blast
next
  case (8 e s)
  then show ?case by (simp add: my_free_def)
next
  case (9 s p xs i ys)
  then show ?case using poke_view by blast
qed

text \<open>One request, and the states a correct caller can bring the allocator into.\<close>

definition exec_request :: "kernel \<Rightarrow> request \<Rightarrow> alloc_state \<Rightarrow> (addr \<times> alloc_state) outcome" where
  "exec_request K = exec_with (my_malloc K) (my_calloc K) (my_realloc K) (my_free K) poke"

inductive client_step :: "kernel \<Rightarrow> alloc_state \<Rightarrow> alloc_state \<Rightarrow> bool" for K where
  request: "allowed (heap_view s) r \<Longrightarrow> exec_request K r s = Inr (p, s') \<Longrightarrow> client_step K s s'"

inductive_cases client_stepE: "client_step K s s'"

text \<open>A whole sequence of requests, and the sequences a correct caller may make.\<close>

definition run_requests :: "kernel \<Rightarrow> request list \<Rightarrow> alloc_state \<Rightarrow> alloc_state outcome" where
  "run_requests K = run_with (exec_request K)"

definition correct_run :: "kernel \<Rightarrow> request list \<Rightarrow> alloc_state \<Rightarrow> bool" where
  "correct_run K = allowed_run heap_view (exec_request K)"

lemma run_requests_keeps:
  assumes "kernel_ok K" "heap_inv s" "heap_view s q = Some xs" "correct_run K rs s" "\<forall>r\<in>set rs. keeps q r"
  shows "\<exists>t ys. run_requests K rs s = Inr t \<and> heap_inv t \<and> heap_view t q = Some ys \<and> length ys = length xs \<and>
    ((\<forall>r\<in>set rs. spares q r) \<longrightarrow> ys = xs)"
  using alloc.run_keeps [OF assms(1-3)] assms(4,5)
  unfolding run_requests_def correct_run_def exec_request_def by blast

text \<open>The state before the first call: the static variables hold zero.\<close>

definition boot :: "alloc_state \<Rightarrow> bool" where
  "boot s \<longleftrightarrow> 0 < start_brk (os s) \<and> start_brk (os s) \<le> cur_brk (os s) \<and> cur_brk (os s) \<le> USER_TOP \<and>
     mappings (os s) = [] \<and> segregated_heads s = replicate NUM_SIZE_CLASSES 0 \<and>
     global_stats s = zero_stats \<and> heap_start s = 0 \<and> initial_break s = 0 \<and> \<not> alloc_mutex s"

lemma boot_inv:
  assumes "boot s"
  shows "heap_inv s" "heap_view s = Map.empty"
proof -
  have "wfd s [] (replicate NUM_SIZE_CLASSES []) {}"
    using assms by (auto simp: boot_def wfd_def region_ok_def mappings_ok_def lists_ok_def dll_def)
  then show "heap_inv s" using heap_invI assms by (auto simp: boot_def)
  show "heap_view s = Map.empty" using assms by (simp add: boot_def heap_view_def heap_blocks_def)
qed

subsection \<open>The statistics\<close>

lemma finite_dom_view: "finite (dom (heap_view s))"
  by (simp add: heap_view_def finite_dom_map_of)

lemma live_bytes_update:
  assumes "heap_view s' = (heap_view s)(p \<mapsto> xs)" "heap_view s p = None"
  shows "live_bytes s' = live_bytes s + length xs"
proof -
  have "dom (heap_view s') = insert p (dom (heap_view s))" "p \<notin> dom (heap_view s)" using assms by auto
  moreover have "(\<Sum>q\<in>dom (heap_view s). length (the (heap_view s' q))) = live_bytes s"
    unfolding live_bytes_def using assms by (intro sum.cong) auto
  ultimately show ?thesis using finite_dom_view assms(1) by (simp add: live_bytes_def)
qed

lemma live_bytes_delete:
  assumes "heap_view s' = (heap_view s)(p := None)" "heap_view s p = Some xs"
  shows "live_bytes s = live_bytes s' + length xs"
  using live_bytes_update [of s s' p xs] assms by (simp add: fun_upd_idem)

lemma live_bytes_same: "heap_view s' = heap_view s \<Longrightarrow> live_bytes s' = live_bytes s"
  by (simp add: live_bytes_def)

lemma live_bytes_move:
  assumes "heap_view s' = (heap_view s)(p := None, q \<mapsto> ys)" "heap_view s p = Some xs"
    and "q = p \<or> heap_view s q = None"
  shows "live_bytes s' + length xs = live_bytes s + length ys"
proof -
  have d: "p \<in> dom (heap_view s)" "q \<notin> dom (heap_view s) - {p}" "finite (dom (heap_view s) - {p})"
    using assms finite_dom_view by auto
  have "dom (heap_view s') = insert q (dom (heap_view s) - {p})" using assms by auto
  then have "live_bytes s' = length ys + (\<Sum>r\<in>dom (heap_view s) - {p}. length (the (heap_view s' r)))"
    using d assms(1) by (simp add: live_bytes_def)
  also have "(\<Sum>r\<in>dom (heap_view s) - {p}. length (the (heap_view s' r))) =
      (\<Sum>r\<in>dom (heap_view s) - {p}. length (the (heap_view s r)))"
    using d(2) assms(1) by (intro sum.cong) auto
  finally have "live_bytes s' = length ys + (\<Sum>r\<in>dom (heap_view s) - {p}. length (the (heap_view s r)))" .
  moreover have "(\<Sum>r\<in>dom (heap_view s) - {p}. length (the (heap_view s r))) + length xs = live_bytes s"
    using sum.remove [OF finite_dom_view d(1), of "\<lambda>r. length (the (heap_view s r))"] assms(2)
    by (simp add: live_bytes_def)
  ultimately show ?thesis by simp
qed

text \<open>
  The counters keep in step with the live bytes: modulo \<open>2 ^ 64\<close>, what was allocated is what
  was freed and what is live.
\<close>

lemma mod_cancel:
  fixes x a b M :: nat
  assumes "(x + a) mod M = (x + b) mod M" shows "a mod M = b mod M"
proof -
  from assms have "(int x + int a) mod int M = (int x + int b) mod int M"
    by (metis of_nat_add zmod_int)
  then have "int M dvd int a - int b" by (simp add: mod_eq_dvd_iff)
  then have "int a mod int M = int b mod int M" by (simp add: mod_eq_dvd_iff)
  then show ?thesis by (metis of_nat_eq_iff zmod_int)
qed

lemma stats_balancedI:
  assumes "(total_allocated (global_stats s') + total_freed (global_stats s) + live_bytes s) mod 2 ^ 64 =
      (total_allocated (global_stats s) + total_freed (global_stats s') + live_bytes s') mod 2 ^ 64"
    and "stats_balanced s"
  shows "stats_balanced s'"
proof -
  let ?ta = "total_allocated (global_stats s)" and ?tf = "total_freed (global_stats s)"
  let ?ta' = "total_allocated (global_stats s')" and ?tf' = "total_freed (global_stats s')"
  have "(?tf + live_bytes s + ?ta') mod 2 ^ 64 = (?ta + (?tf' + live_bytes s')) mod 2 ^ 64"
    using assms(1) by (simp add: ac_simps)
  also have "\<dots> = (?tf + live_bytes s + (?tf' + live_bytes s')) mod 2 ^ 64"
    using assms(2) unfolding stats_balanced_def by (metis mod_add_left_eq)
  finally have "?ta' mod 2 ^ 64 = (?tf' + live_bytes s') mod 2 ^ 64" by (rule mod_cancel)
  then show ?thesis by (simp add: stats_balanced_def)
qed

lemma allocates_balanced: "allocates n s p s' \<Longrightarrow> stats_balanced s \<Longrightarrow> stats_balanced s'"
proof (erule stats_balancedI [rotated])
  assume a: "allocates n s p s'"
  show "(total_allocated (global_stats s') + total_freed (global_stats s) + live_bytes s) mod 2 ^ 64 =
      (total_allocated (global_stats s) + total_freed (global_stats s') + live_bytes s') mod 2 ^ 64"
  proof (cases "p = 0")
    case True
    then show ?thesis using a live_bytes_same [of s' s] by (simp add: allocates_def)
  next
    case False
    with a obtain xs where "heap_view s p = None" "heap_view s' = (heap_view s)(p \<mapsto> xs)" "length xs = n"
      by (rule allocates_fresh)
    with live_bytes_update [of s' s p xs] a False show ?thesis
      using add64_mod_eq [of "total_allocated (global_stats s)" n "total_freed (global_stats s) + live_bytes s"]
      by (simp add: allocates_def ac_simps)
  qed
qed

lemma releases_balanced:
  "releases p xs s s' \<Longrightarrow> heap_view s p = Some xs \<Longrightarrow> stats_balanced s \<Longrightarrow> stats_balanced s'"
proof (erule stats_balancedI [rotated])
  assume a: "releases p xs s s'" "heap_view s p = Some xs"
  then have "live_bytes s = live_bytes s' + length xs" using live_bytes_delete by (simp add: releases_def)
  then show "(total_allocated (global_stats s') + total_freed (global_stats s) + live_bytes s) mod 2 ^ 64 =
      (total_allocated (global_stats s) + total_freed (global_stats s') + live_bytes s') mod 2 ^ 64"
    using a(1) add64_mod_eq [of "total_freed (global_stats s)" "length xs" "total_allocated (global_stats s) + live_bytes s'"]
    by (simp add: releases_def ac_simps)
qed

lemma reallocates_balanced:
  "reallocates p xs n s q s' \<Longrightarrow> heap_view s p = Some xs \<Longrightarrow> stats_balanced s \<Longrightarrow> stats_balanced s'"
proof (erule stats_balancedI [rotated])
  assume a: "reallocates p xs n s q s'" "heap_view s p = Some xs"
  let ?l = "total_allocated (global_stats s') + total_freed (global_stats s)"
  let ?r = "total_allocated (global_stats s) + total_freed (global_stats s')"
  show "(?l + live_bytes s) mod 2 ^ 64 = (?r + live_bytes s') mod 2 ^ 64"
  proof (cases "q = 0")
    case True
    then show ?thesis using a(1) live_bytes_same [of s' s] by (simp add: reallocates_def)
  next
    case False
    then obtain ys where y: "heap_view s' = (heap_view s)(p := None, q \<mapsto> ys)" "length ys = n"
      "q = p \<or> heap_view s q = None" and b: "(?l + length xs) mod 2 ^ 64 = (?r + n) mod 2 ^ 64"
      using a(1) by (auto simp: reallocates_def)
    have "live_bytes s' + length xs = live_bytes s + n" using live_bytes_move [OF y(1) a(2) y(3)] y(2) by simp
    then have "length xs + (?r + live_bytes s') = (?r + n) + live_bytes s" by simp
    also have "\<dots> mod 2 ^ 64 = (?l + length xs + live_bytes s) mod 2 ^ 64" using b by (metis mod_add_left_eq)
    finally have "(length xs + (?l + live_bytes s)) mod 2 ^ 64 = (length xs + (?r + live_bytes s')) mod 2 ^ 64"
      by (simp add: ac_simps)
    then show ?thesis by (rule mod_cancel)
  qed
qed

lemma poke_balanced:
  assumes "heap_inv s" "heap_view s p = Some xs" "i + length ys \<le> length xs" "stats_balanced s"
  shows "stats_balanced (poke (p + i) ys s)"
proof (rule stats_balancedI [OF _ assms(4)])
  have "live_bytes (poke (p + i) ys s) = live_bytes s"
    using live_bytes_move [of "poke (p + i) ys s" s p p "take i xs @ ys @ drop (i + length ys) xs"]
      poke_view(2) [OF assms(1-3)] assms(2,3) by simp
  then show "(total_allocated (global_stats (poke (p + i) ys s)) + total_freed (global_stats s) + live_bytes s) mod 2 ^ 64 =
      (total_allocated (global_stats s) + total_freed (global_stats (poke (p + i) ys s)) +
       live_bytes (poke (p + i) ys s)) mod 2 ^ 64" by (simp add: poke_def)
qed

lemma free_any_balanced:
  assumes "kernel_ok K" "heap_inv s" "stats_balanced s" "p = 0 \<or> heap_view s p \<noteq> None" "my_free K p s = Inr s'"
  shows "stats_balanced s'"
proof (cases "p = 0")
  case True
  then show ?thesis using assms by (simp add: my_free_def)
next
  case False
  then obtain xs where "heap_view s p = Some xs" using assms(4) by auto
  then show ?thesis using my_free_ok [OF assms(1,2)] releases_balanced assms(3,5) by fastforce
qed

lemma exec_request_balanced:
  assumes K: "kernel_ok K" and inv: "heap_inv s" and bal: "stats_balanced s"
    and a: "allowed (heap_view s) r" and e: "exec_request K r s = Inr (p, s')"
  shows "stats_balanced s'"
proof (cases r)
  case (Malloc n)
  then show ?thesis using my_malloc_ok [OF K inv, of n] e allocates_balanced [OF _ bal]
    by (auto simp: exec_request_def exec_with_def)
next
  case (Calloc k n)
  then show ?thesis using my_calloc_ok [OF K inv, of k n] e allocates_balanced [OF _ bal]
    by (auto simp: exec_request_def exec_with_def)
next
  case (Realloc q n)
  consider "q = 0" | "q \<noteq> 0" "n = 0" | "q \<noteq> 0" "0 < n" by blast
  then show ?thesis
  proof cases
    case 1
    then show ?thesis using my_malloc_ok [OF K inv, of n] e allocates_balanced [OF _ bal] Realloc
      by (auto simp: exec_request_def exec_with_def my_realloc_def)
  next
    case 2
    then show ?thesis using free_any_balanced [OF K inv bal] a e Realloc
      by (auto simp: exec_request_def exec_with_def my_realloc_def split: sum.splits)
  next
    case 3
    then obtain xs where x: "heap_view s q = Some xs" using a Realloc by auto
    from my_realloc_ok [OF K inv x 3(2)] obtain q' t where
      "my_realloc K q n s = Inr (q', t)" "reallocates q xs n s q' t" by blast
    then show ?thesis using e Realloc reallocates_balanced [OF _ x bal]
      by (simp add: exec_request_def exec_with_def)
  qed
next
  case (Free q)
  then show ?thesis using free_any_balanced [OF K inv bal] a e
    by (auto simp: exec_request_def exec_with_def split: sum.splits)
next
  case (Store q i ys)
  then show ?thesis using a e poke_balanced [OF inv _ _ bal]
    by (auto simp: exec_request_def exec_with_def split: option.splits)
qed

subsection \<open>Reachable states of the allocator\<close>

definition heap_good :: "alloc_state \<Rightarrow> bool" where
  "heap_good s \<longleftrightarrow> heap_inv s \<and> stats_balanced s"

interpretation alloc_runs: inductive_invariant
  "\<lambda>(K, s). kernel_ok K \<and> boot s" "\<lambda>(K, s) (K', s'). K' = K \<and> client_step K s s'"
  "\<lambda>(K, s). kernel_ok K \<and> heap_good s"
proof (unfold_locales, goal_cases)
  case (1 x)
  then show ?case using boot_inv
    by (cases x) (auto simp: heap_good_def stats_balanced_def live_bytes_def boot_def zero_stats_def)
next
  case (2 x y)
  obtain K s where x: "x = (K, s)" by (cases x)
  from 2 obtain s' r p where y: "y = (K, s')" and a: "allowed (heap_view s) r" "exec_request K r s = Inr (p, s')"
    by (cases y) (auto simp: x elim: client_stepE)
  have g: "kernel_ok K" "heap_inv s" "stats_balanced s" using 2 by (auto simp: x heap_good_def)
  have "heap_inv s'" using alloc.exec_serves [OF g(1,2) a(1)] a(2) by (auto simp: exec_request_def)
  with exec_request_balanced [OF g a] g(1) show ?case by (simp add: y heap_good_def)
qed

lemma client_steps_lift:
  "rtranclp (client_step K) s t \<Longrightarrow>
   rtranclp (\<lambda>(K, s) (K', s'). K' = K \<and> client_step K s s') (K, s) (K, t)"
  by (induction rule: rtranclp_induct) (auto intro: rtranclp.rtrancl_into_rtrancl)

lemma reachable_good:
  "kernel_ok K \<Longrightarrow> boot s \<Longrightarrow> rtranclp (client_step K) s t \<Longrightarrow> heap_inv t \<and> stats_balanced t"
  using alloc_runs.reachable_inv [OF _ client_steps_lift, of K s t] by (simp add: heap_good_def)

end
