(* ===== verification/Allocator_Facts.thy ===== *)
theory Allocator_Facts
  imports Heap_Client
begin

text \<open>
  Further facts about the operations of the allocator that the properties rest on: the
  integrity check, the detection of misuse and damage, the choice of the block, and the
  beginning and the end of the allocator's life. The kernel \<open>demo_kernel\<close> and the state
  \<open>demo_boot\<close> show that the assumptions about the kernel can be met.
\<close>

subsection \<open>A kernel that meets the assumptions\<close>

definition past_all :: "kstate \<Rightarrow> nat" where
  "past_all k = (foldr (\<lambda>(a, n) x. max (a + n) x) (mappings k) (cur_brk k) div 4096 + 1) * 4096"

definition demo_kernel :: kernel where
  "demo_kernel = \<lparr>
     k_sbrk = (\<lambda>k n. n = 0 \<or> cur_brk k + n \<le> USER_TOP \<and>
       (\<forall>(a, l)\<in>set (mappings k). cur_brk k \<le> a \<longrightarrow> cur_brk k + n \<le> a)),
     k_brk = (\<lambda>k a. True),
     k_mmap = (\<lambda>k n. if past_all k + n \<le> USER_TOP then Some (past_all k) else None),
     k_munmap = (\<lambda>k a n. True),
     k_mremap = (\<lambda>k a n n'. if past_all k + n' \<le> USER_TOP \<and> (a, n) \<in> set (mappings k)
                            then Some (past_all k) else None),
     k_errno = (\<lambda>k. ENOMEM)\<rparr>"

definition demo_boot :: alloc_state where
  "demo_boot = \<lparr>mem = (\<lambda>_. 0), os = \<lparr>start_brk = 8192, cur_brk = 8200, mappings = []\<rparr>,
     segregated_heads = replicate NUM_SIZE_CLASSES 0, global_stats = zero_stats, heap_start = 0,
     initial_break = 0, last_allocator_break = 0, alloc_mutex = False, errno = 0\<rparr>"

lemma past_all_bounds: "cur_brk k < past_all k" "(a, n) \<in> set (mappings k) \<Longrightarrow> a + n < past_all k"
  "past_all k mod 16 = 0"
proof -
  define f where "f l = foldr (\<lambda>(a, n) x. max (a + n) x) l (cur_brk k)" for l
  have f: "cur_brk k \<le> f l" "(a, n) \<in> set l \<Longrightarrow> a + n \<le> f l" for l
    by (induction l) (auto simp: f_def)
  have p: "past_all k = (f (mappings k) div 4096 + 1) * 4096" by (simp add: past_all_def f_def)
  have lt: "f (mappings k) < past_all k" unfolding p using div_mult_mod_eq [of "f (mappings k)" 4096]
    mod_less_divisor [of 4096 "f (mappings k)"] by (simp add: algebra_simps)
  show "cur_brk k < past_all k" "(a, n) \<in> set (mappings k) \<Longrightarrow> a + n < past_all k"
    using f [of "mappings k"] lt by auto
  have "past_all k = 16 * (256 * (f (mappings k) div 4096 + 1))" unfolding p by simp
  then show "past_all k mod 16 = 0" by (metis mod_mult_self1_is_0)
qed

lemma demo_kernel_ok: "kernel_ok demo_kernel"
proof -
  have pl: "placed k (past_all k) n" if "past_all k + n \<le> USER_TOP" for k n
    using that past_all_bounds(1,3) [of k] by (simp add: placed_def)
  have ap: "apart (past_all k, n) x" if "x \<in> set (mappings k)" for k n x
    using past_all_bounds(2) [of "fst x" "snd x" k] that by (simp add: apart_def)
  show ?thesis unfolding kernel_ok_def
  proof (intro conjI allI impI)
    fix k a n n' a' assume m: "k_mremap demo_kernel k a n n' = Some a'"
    then have "a' = past_all k" "past_all k + n' \<le> USER_TOP" "(a, n) \<in> set (mappings k)"
      by (auto simp: demo_kernel_def split: if_splits)
    then show "placed k a' n'" "a' = a \<or> apart (a', n') (a, n)"
      "\<forall>x\<in>set (mappings k). x \<noteq> (a, n) \<longrightarrow> apart (a', n') x" using pl ap by auto
  next
    fix k n a assume "k_mmap demo_kernel k n = Some a"
    then have "a = past_all k" "past_all k + n \<le> USER_TOP" by (auto simp: demo_kernel_def split: if_splits)
    then show "placed k a n" "\<forall>x\<in>set (mappings k). apart (a, n) x" using pl ap by auto
  qed (auto simp: demo_kernel_def)
qed

lemma demo_boot: "boot demo_boot"
  by (simp add: boot_def demo_boot_def USER_TOP_def)

subsection \<open>The integrity check\<close>

lemma walk_tiles:
  "tiles a bs hi \<Longrightarrow> a mod 16 = 0 \<Longrightarrow> \<forall>(b, n)\<in>set bs. tags_ok m b n \<Longrightarrow> walk_heap m hi a = 0"
proof (induction bs arbitrary: a)
  case (Cons x xs)
  obtain b n where x: "x = (b, n)" by (cases x)
  with Cons.prems have n: "b = a" "64 \<le> n" "n mod 16 = 0" and t: "tiles (a + n) xs hi" and tag: "tags_ok m a n"
    by auto
  have "walk_heap m hi (a + n) = 0" using Cons t n by (auto simp: mod_add_eq [symmetric])
  moreover have "a + n \<le> hi" by (rule tiles_le [OF t])
  ultimately show ?case using n Cons.prems(2) tag
    by (simp add: walk_heap.simps [of m hi a] tags_ok_def ALIGNMENT_def)
qed (simp add: walk_heap.simps)

lemma walk_sound:
  "walk_heap m hi a = 0 \<Longrightarrow> a \<le> hi \<Longrightarrow> \<exists>bs. tiles a bs hi \<and> (\<forall>(b, n)\<in>set bs. tags_ok m b n)"
proof (induction m hi a rule: walk_heap.induct)
  case (1 m hi a)
  show ?case
  proof (cases "a < hi")
    case False
    then show ?thesis using 1(3) by (intro exI [of _ "[]"]) simp
  next
    case True
    let ?n = "block_size (hdr m a)"
    have w: "walk_heap m hi (a + ?n) = 0" "tags_ok m a ?n" "64 \<le> ?n" "?n mod 16 = 0" "a + ?n \<le> hi"
      using 1(2) True unfolding walk_heap.simps [of m hi a] tags_ok_def ALIGNMENT_def
      by (auto split: if_splits)
    have "\<exists>bs. tiles (a + ?n) bs hi \<and> (\<forall>(b, n)\<in>set bs. tags_ok m b n)"
    proof (rule 1(1) [OF True])
      show "walk_heap m hi (a + ?n) = 0" "a + ?n \<le> hi" using w by auto
      show "\<not> hi - a < HDR + FTR" "\<not> a mod ALIGNMENT \<noteq> 0"
        "\<not> (magic_header (hdr m a) \<noteq> ALLOC_MAGIC_HEADER \<or> ?n < HDR + FTR \<or> ?n mod ALIGNMENT \<noteq> 0 \<or> hi - a < ?n)"
        "\<not> (magic_footer (ftr m (footer_of a ?n)) \<noteq> ALLOC_MAGIC_FOOTER \<or> f_block_size (ftr m (footer_of a ?n)) \<noteq> ?n)"
        using 1(2) True unfolding walk_heap.simps [of m hi a] by (auto split: if_splits)
    qed
    then obtain bs where "tiles (a + ?n) bs hi" "\<forall>(b, n)\<in>set bs. tags_ok m b n" by blast
    then show ?thesis using w by (intro exI [of _ "(a, ?n) # bs"]) auto
  qed
qed

lemma verify_integrity_ok:
  assumes K: "kernel_ok K" and inv: "heap_inv s"
  shows "allocator_verify_integrity K s = Inr (0, s)"
proof -
  from inv obtain bs fs where wf: "wfd s bs fs {}" and mx: "\<not> alloc_mutex s" by (rule heap_invE)
  let ?s1 = "s\<lparr>alloc_mutex := True\<rparr>"
  have "free_list_verify_integrity K ?s1 = Inr 0" by (rule free_list_verify_ok [of _ bs fs "{}"]) (use wf K in simp_all)
  moreover have "walk_heap (mem s) (cur_brk (os s)) (heap_start s) = 0" if "heap_start s \<noteq> 0"
  proof (rule walk_tiles)
    show "tiles (heap_start s) bs (cur_brk (os s))" "heap_start s mod 16 = 0"
      using wfdD(1) [OF wf] that by (auto simp: region_ok_def)
    show "\<forall>(b, n)\<in>set bs. tags_ok (mem s) b n" using wfdD(5) [OF wf] by (auto simp: blk_ok_def)
  qed
  ultimately show ?thesis using mx
    by (simp add: allocator_verify_integrity_def mutex_lock_def mutex_unlock_def Let_def kernel_okD(1) [OF K])
qed

subsection \<open>Misuse and damage\<close>

lemma sub64_header:
  assumes "heap_inv s" "heap_view s p = Some xs"
  shows "sub64 p HDR = p - HDR" "p \<noteq> 0"
  using view_bounds [OF assms] by (simp_all add: u64_simps)

lemma view_map: "heap_inv s \<Longrightarrow> heap_view s p = Some xs \<Longrightarrow> map (mem s) [p..<p + length xs] = xs"
  using view_bytes [of s p xs] by (intro nth_equalityI) auto

lemma my_free_abort:
  assumes "\<not> alloc_mutex s" "p \<noteq> 0" "block_checks ''my_free'' K (sub64 p HDR) (s\<lparr>alloc_mutex := True\<rparr>) = Some e"
  shows "my_free K p s = Inl e"
  using assms by (simp add: my_free_def mutex_lock_def my_free_checks_def Let_def)

lemma my_realloc_abort:
  assumes "\<not> alloc_mutex s" "p \<noteq> 0" "0 < n" "n \<le> SIZE_MAX - 1024"
    "block_checks ''my_realloc'' K (sub64 p HDR) (s\<lparr>alloc_mutex := True\<rparr>) = Some e"
  shows "my_realloc K p n s = Inl e"
  using assms by (simp add: my_realloc_def my_realloc_locked_def mutex_lock_def my_realloc_checks_def Let_def)

subsection \<open>Rests of the state\<close>

lemma malloc_finish_os [simp]: "os (snd (malloc_finish a sz s)) = os s"
  by (simp add: malloc_finish_def Let_def stat_defs)

lemma my_malloc_fit:
  assumes K: "kernel_ok K" and inv: "heap_inv s" and sz: "0 < sz" "total_size_of sz < MMAP_THRESHOLD"
    "sz \<le> SIZE_MAX - 1024"
    and b: "(b, n) \<in> set (heap_blocks s)" "is_free (hdr (mem s) b) = 1" "total_size_of sz \<le> n"
  shows "\<exists>a k s'. my_malloc K sz s = Inr (a + HDR, s') \<and> (a, k) \<in> set (heap_blocks s) \<and>
    is_free (hdr (mem s) a) = 1 \<and> total_size_of sz \<le> k \<and> os s' = os s \<and>
    (\<forall>(c, l)\<in>set (heap_blocks s). is_free (hdr (mem s) c) = 1 \<longrightarrow> total_size_of sz \<le> l \<longrightarrow> k \<le> l)"
proof -
  from inv obtain bs fs where wf: "wfd s bs fs {}" and mx: "\<not> alloc_mutex s" and hb: "heap_blocks s = bs"
    by (rule heap_invE)
  let ?s1 = "s\<lparr>alloc_mutex := True\<rparr>" and ?t = "total_size_of sz"
  have wf1: "wfd ?s1 bs fs {}" using wf by simp
  have nz: "a \<noteq> 0" if "(a, k) \<in> set bs" for a k using region_block(8) [OF wfdD(1) [OF wf] that] by simp
  from find_fit_spec [OF wf1 K, of ?t] show ?thesis
  proof (elim disjE exE conjE)
    assume "\<forall>(b, k)\<in>set bs. free_at (mem ?s1) {} b \<longrightarrow> k < ?t"
    then show ?thesis using b hb by (auto simp: free_at_def)
  next
    fix a k assume f: "free_list_find_fit K ?t ?s1 = Inr (a, unlink a ?s1)" "(a, k) \<in> set bs"
      "free_at (mem ?s1) {} a" "?t \<le> k" "\<forall>(b, l)\<in>set bs. free_at (mem ?s1) {} b \<longrightarrow> ?t \<le> l \<longrightarrow> k \<le> l"
    have "my_malloc K sz s = Inr (malloc_finish a sz (malloc_split a ?t (unlink a ?s1)))"
      using sz mx f(1) nz [OF f(2)] by (simp add: my_malloc_def mutex_lock_def Let_def)
    moreover have "fst (malloc_finish a sz (malloc_split a ?t (unlink a ?s1))) = a + HDR"
      by (simp add: malloc_finish_def Let_def)
    ultimately have "my_malloc K sz s = Inr (a + HDR, snd (malloc_finish a sz (malloc_split a ?t (unlink a ?s1))))"
      by (metis prod.collapse)
    then show ?thesis using f hb
      by (intro exI [of _ a] exI [of _ k]) (auto simp: free_at_def)
  qed
qed

subsection \<open>The life of the allocator\<close>

lemma free_list_reset_rest [simp]:
  "mem (free_list_reset s) = mem s" "os (free_list_reset s) = os s" "heap_start (free_list_reset s) = heap_start s"
  "initial_break (free_list_reset s) = initial_break s" "alloc_mutex (free_list_reset s) = alloc_mutex s"
  "segregated_heads (free_list_reset s) = replicate NUM_SIZE_CLASSES 0"
  "global_stats (free_list_reset s) = global_stats s"
  by (simp_all add: free_list_reset_def)

lemma boot_wfd: "boot s \<Longrightarrow> wfd s [] (replicate NUM_SIZE_CLASSES []) {}"
  by (auto simp: boot_def wfd_def region_ok_def mappings_ok_def lists_ok_def dll_def)

text \<open>
  \<^verbatim>\<open>allocator_init\<close> in a fresh process: the heap starts empty at the break, padded to a multiple of
  16 if the kernel grants the padding; otherwise no heap is started.
\<close>

definition padded_break :: "kstate \<Rightarrow> nat" where
  "padded_break k = (cur_brk k + 15) div 16 * 16"

definition padding_granted :: "kernel \<Rightarrow> kstate \<Rightarrow> bool" where
  "padding_granted K k \<longleftrightarrow> cur_brk k mod 16 = 0 \<or> k_sbrk K k (16 - cur_brk k mod 16)"

lemma padded_break_eq:
  "cur_brk k mod 16 = 0 \<Longrightarrow> padded_break k = cur_brk k"
  "cur_brk k mod 16 \<noteq> 0 \<Longrightarrow> padded_break k = cur_brk k + (16 - cur_brk k mod 16)"
proof -
  let ?q = "cur_brk k div 16" and ?r = "cur_brk k mod 16"
  have c: "cur_brk k = ?q * 16 + ?r" by simp
  have d: "(cur_brk k + 15) div 16 = ?q + (?r + 15) div 16" by (subst (1) c) (simp only: add.assoc div_mult_self3 div_mult_self1)
  show "?r = 0 \<Longrightarrow> padded_break k = cur_brk k" using c d by (simp add: padded_break_def)
  assume "?r \<noteq> 0"
  then have "(?r + 15) div 16 = 1" by (intro div_nat_eqI) auto
  then show "padded_break k = cur_brk k + (16 - ?r)" using c d mod_less_divisor [of 16 "cur_brk k"]
    unfolding padded_break_def by linarith
qed

lemma ensure_break_aligned_eq:
  assumes K: "kernel_ok K" and brk: "cur_brk (os s) < BRK_FAILED"
  shows "ensure_break_aligned K s =
    (if padding_granted K (os s) then (True, s\<lparr>os := (os s)\<lparr>cur_brk := padded_break (os s)\<rparr>\<rparr>)
     else (False, s\<lparr>errno := k_errno K (os s)\<rparr>))"
  using brk by (auto simp: ensure_break_aligned_def kernel_okD(1) [OF K] ALIGNMENT_def sbrk_def Let_def
      padding_granted_def padded_break_eq)

lemma allocator_init_boot:
  assumes K: "kernel_ok K" and b: "boot s"
  shows "\<exists>s'. allocator_init K s = Inr s' \<and> heap_inv s' \<and> heap_view s' = Map.empty \<and>
    global_stats s' = zero_stats \<and> mem s' = mem s \<and>
    (if padding_granted K (os s)
     then heap_start s' = padded_break (os s) \<and> cur_brk (os s') = padded_break (os s) \<and>
       last_allocator_break s' = padded_break (os s) \<and> 0 < heap_start s'
     else heap_start s' = 0 \<and> os s' = os s)"
proof -
  let ?s2 = "free_list_reset (s\<lparr>alloc_mutex := True, global_stats := zero_stats\<rparr>)" and ?k = "padded_break (os s)"
  have b2: "?s2 = s\<lparr>alloc_mutex := True\<rparr>" using b by (simp add: boot_def free_list_reset_def)
  have wf: "wfd ?s2 [] (replicate NUM_SIZE_CLASSES []) {}" unfolding b2 using boot_wfd [OF b] by simp
  have e: "ensure_break_aligned K ?s2 =
    (if padding_granted K (os s) then (True, ?s2\<lparr>os := (os s)\<lparr>cur_brk := ?k\<rparr>\<rparr>)
     else (False, ?s2\<lparr>errno := k_errno K (os s)\<rparr>))"
    using ensure_break_aligned_eq [OF K wfd_brk(1) [OF wf]] by simp
  have hs: "heap_start ?s2 = 0" "initial_break ?s2 = 0" "mappings (os s) = []" using b by (auto simp: boot_def)
  have lk: "mutex_lock s = Inr (s\<lparr>alloc_mutex := True\<rparr>)" using b by (simp add: mutex_lock_def boot_def)
  show ?thesis
  proof (cases "padding_granted K (os s)")
    case False
    let ?s' = "?s2\<lparr>errno := k_errno K (os s), alloc_mutex := False\<rparr>"
    have "allocator_init K s = Inr ?s'" using lk e False by (simp add: allocator_init_def Let_def mutex_unlock_def)
    moreover have "wfd ?s' [] (replicate NUM_SIZE_CLASSES []) {}" using wf by simp
    moreover have "heap_view ?s' = Map.empty" using hs by (simp add: heap_view_def heap_blocks_def)
    moreover have "heap_inv ?s'" by (rule heap_invI [OF calculation(2)]) simp
    ultimately show ?thesis using hs False by simp
  next
    case True
    let ?s3 = "?s2\<lparr>os := (os s)\<lparr>cur_brk := ?k\<rparr>\<rparr>"
    have k16: "?k mod 16 = 0" by (simp add: padded_break_def)
    have wf3: "wfd ?s3 [] (replicate NUM_SIZE_CLASSES []) {}"
    proof (cases "cur_brk (os s) mod 16 = 0")
      case True
      then have "?s3 = ?s2" by (simp add: padded_break_eq)
      then show ?thesis using wf by simp
    next
      case False
      let ?n = "16 - cur_brk (os s) mod 16"
      have n: "0 < ?n" "k_sbrk K (os s) ?n" using False True by (auto simp: padding_granted_def)
      show ?thesis
        using step_pad(1) [OF wf hs(1), of ?n] kernel_okD(2) [OF K n(2,1)] kernel_gap [OF K n(2,1)] False
        by (simp add: padded_break_eq)
    qed
    let ?s' = "?s3\<lparr>alloc_mutex := False, initial_break := ?k, heap_start := ?k, last_allocator_break := ?k\<rparr>"
    have "allocator_init K s = Inr ?s'"
      using lk e True wfd_brk(1) [OF wf3] hs(2)
      by (simp add: allocator_init_def Let_def kernel_okD(1) [OF K] mutex_unlock_def)
    moreover have wf': "wfd ?s' [] (replicate NUM_SIZE_CLASSES []) {}"
      using step_start [OF wf3] k16 hs wfd_cong [of ?s' "?s3\<lparr>initial_break := ?k, heap_start := ?k\<rparr>"] by simp
    moreover have "heap_view ?s' = Map.empty"
      using heap_blocks_wfd [OF wf'] hs(3) by (simp add: heap_view_def)
    moreover have "heap_inv ?s'" by (rule heap_invI [OF wf']) simp
    ultimately show ?thesis using True wfd_brk(2) [OF wf3] by (intro exI [of _ ?s']) simp
  qed
qed

text \<open>\<^verbatim>\<open>allocator_destroy\<close> gives the break back; mappings that are still live stay.\<close>

lemma allocator_destroy_ok:
  assumes K: "kernel_ok K" and inv: "heap_inv s" and hs: "heap_start s \<noteq> 0"
    and last: "last_allocator_break s = cur_brk (os s)" and kb: "k_brk K (os s) (heap_start s)"
  shows "\<exists>s'. allocator_destroy K s = Inr s' \<and> heap_inv s' \<and> heap_blocks s' = [] \<and>
    cur_brk (os s') = heap_start s \<and> mappings (os s') = mappings (os s) \<and> global_stats s' = zero_stats"
proof -
  from inv obtain bs fs where wf: "wfd s bs fs {}" and mx: "\<not> alloc_mutex s" by (rule heap_invE)
  note D = wfdD [OF wf] and W = wfd_brk [OF wf]
  let ?s' = "(free_list_reset (s\<lparr>alloc_mutex := True, global_stats := zero_stats\<rparr>))\<lparr>
    os := (os s)\<lparr>cur_brk := heap_start s\<rparr>, initial_break := 0, heap_start := 0, last_allocator_break := 0,
    alloc_mutex := False\<rparr>"
  have e: "allocator_destroy K s = Inr ?s'"
    using mx hs W(3) last kb
    by (simp add: allocator_destroy_def mutex_lock_def mutex_unlock_def Let_def kernel_okD(1) [OF K]
        brk_def free_list_reset_def)
  have hb: "start_brk (os s) \<le> heap_start s" "heap_start s \<le> cur_brk (os s)" "cur_brk (os s) \<le> USER_TOP" "0 < start_brk (os s)"
    using D(1) hs tiles_le [of "heap_start s" bs "cur_brk (os s)"] by (auto simp: region_ok_def)
  have "mappings_ok ?s'" using D(2) hb by (fastforce simp: mappings_ok_def placed_def free_list_reset_def)
  then have wf': "wfd ?s' [] (replicate NUM_SIZE_CLASSES []) {}"
    using hb by (auto simp: wfd_def region_ok_def lists_ok_def dll_def)
  then have "heap_inv ?s'" using heap_invI by simp
  with e heap_blocks_wfd [OF wf'] show ?thesis by (intro exI [of _ ?s']) (simp add: free_list_reset_def)
qed

text \<open>
  A second \<^verbatim>\<open>allocator_init\<close> empties the lists but leaves the blocks marked free and linked to each
  other: unlinking a block that headed its list is taken for corruption, the others still come out.
\<close>

lemma head_prev:
  assumes wf: "wfd s bs fs {}" and b: "(b, k) \<in> set bs" "free_at (mem s) {} b" and K: "kernel_ok K"
  shows "prev_ptr (hdr (mem s) b) = 0 \<longleftrightarrow> b \<in> set (segregated_heads s)"
proof
  note L = lists_okD [OF wfdD(3) [OF wf]]
  have ok: "blk_ok (mem s) b k" using wfdD(5) [OF wf b(1)] by simp
  assume "prev_ptr (hdr (mem s) b) = 0"
  then have "segregated_heads s ! get_size_class_index k = b"
    using free_list_remove_unlinks [OF wf K b] ok region_block(8) [OF wfdD(1) [OF wf] b(1)]
    by (auto simp: free_list_remove_def Let_def blk_ok_def tags_ok_def split: if_splits)
  then show "b \<in> set (segregated_heads s)" using L(1) size_class_less [of k] nth_mem by metis
next
  note L = lists_okD [OF wfdD(3) [OF wf]]
  assume "b \<in> set (segregated_heads s)"
  then obtain i where i: "i < NUM_SIZE_CLASSES" "segregated_heads s ! i = b" using L(1) by (metis in_set_conv_nth)
  moreover have "b \<noteq> 0" using region_block(8) [OF wfdD(1) [OF wf] b(1)] by simp
  ultimately obtain vs where "fs ! i = b # vs" using lists_headI [OF wf i(1)] by metis
  then show "prev_ptr (hdr (mem s) b) = 0" using L(3) [OF i(1)] by (auto simp: dll_def)
qed

lemma allocator_init_again:
  assumes K: "kernel_ok K" and inv: "heap_inv s"
    and b: "(b, k) \<in> set (heap_blocks s)" "is_free (hdr (mem s) b) = 1"
  shows "\<exists>s'. allocator_init K s = Inr s' \<and> segregated_heads s' = replicate NUM_SIZE_CLASSES 0 \<and>
    is_free (hdr (mem s') b) = 1 \<and>
    free_list_remove K b s' =
      (if b \<in> set (segregated_heads s)
       then Inl (Abort ''[FATAL] Free-list head linkage corruption detected'')
       else Inr (unlink b s'))"
proof -
  from inv obtain bs fs where wf: "wfd s bs fs {}" and mx: "\<not> alloc_mutex s" and hb: "heap_blocks s = bs"
    by (rule heap_invE)
  have h: "(b, k) \<in> set bs" "free_at (mem s) {} b" using b hb by (simp_all add: free_at_def)
  note B = region_block [OF wfdD(1) [OF wf] h(1)] and W = wfd_brk [OF wf]
  have ok: "blk_ok (mem s) b k" using wfdD(5) [OF wf h(1)] by simp
  have hs: "initial_break s \<noteq> 0" "cur_brk (os s) mod 16 = 0" using B(1) W(3,4) by auto
  let ?s2 = "free_list_reset (s\<lparr>alloc_mutex := True, global_stats := zero_stats\<rparr>)"
  let ?s' = "?s2\<lparr>initial_break := initial_break s, heap_start := initial_break s,
      last_allocator_break := cur_brk (os s), alloc_mutex := False\<rparr>"
  have "ensure_break_aligned K ?s2 = (True, ?s2)"
    using ensure_break_aligned_ok(1) [OF K, of ?s2] W(1) hs(2)
    by (cases "ensure_break_aligned K ?s2") auto
  then have e: "allocator_init K s = Inr ?s'"
    using mx hs W(1) by (simp add: allocator_init_def mutex_lock_def mutex_unlock_def Let_def kernel_okD(1) [OF K])
  have lim: "\<not> cur_brk (os s) - b < k" "\<not> cur_brk (os s) \<le> b" using B(4,5) by auto
  have "free_list_remove K b ?s' = (if b \<in> set (segregated_heads s)
      then Inl (Abort ''[FATAL] Free-list head linkage corruption detected'') else Inr (unlink b ?s'))"
    using ok b(2) lim B(5,8) size_class_less [of k] head_prev [OF wf h K] free_list_remove_unlinks [OF wf K h]
    by (auto simp: free_list_remove_def Let_def kernel_okD(1) [OF K] blk_ok_def tags_ok_def split: if_splits)
  with e b(2) show ?thesis by simp
qed

end
