(* ===== verification/Allocator_Theorems.thy ===== *)
theory Allocator_Theorems
  imports Allocator_Facts
begin

text \<open>
  The properties of the allocator, each with a witness on a concrete run: in a fresh process
  whose break is at 8200, \<^verbatim>\<open>my_malloc(100)\<close> returns 8256, the payload of a block of 176 bytes at
  8208 (state \<open>demo_live\<close>), and \<^verbatim>\<open>my_free\<close> puts that block into the list of class 1
  (state \<open>demo_freed\<close>).
\<close>

subsection \<open>A concrete run\<close>

definition demo_live :: alloc_state where
  "demo_live = snd (projr (my_malloc demo_kernel 100 demo_boot))"

lemma total_size_100: "total_size_of 100 = 176"
  by (simp add: total_size_of_def ALIGN_eq add64_def)

definition demo_block :: "mem" where
  "demo_block = put_footer 8208 176 (set_requested_size 8208 100 (set_is_free 8208 0
     (set_prev 8208 0 (set_next 8208 0 (set_is_mmap 8208 0 (set_block_size 8208 176
       (set_magic_header 8208 ALLOC_MAGIC_HEADER (\<lambda>_. 0))))))))"

lemma demo_find: "free_list_find_fit demo_kernel t (demo_boot\<lparr>alloc_mutex := True\<rparr>) = Inr (0, demo_boot\<lparr>alloc_mutex := True\<rparr>)"
  using find_fit_spec [of "demo_boot\<lparr>alloc_mutex := True\<rparr>" "[]" "replicate NUM_SIZE_CLASSES []" "{}" demo_kernel t]
    boot_wfd [OF demo_boot] demo_kernel_ok by simp

lemma demo_malloc_eq:
  "my_malloc demo_kernel 100 demo_boot = Inr (8256,
     \<lparr>mem = demo_block, os = \<lparr>start_brk = 8192, cur_brk = 8384, mappings = []\<rparr>,
      segregated_heads = replicate NUM_SIZE_CLASSES 0,
      global_stats = \<lparr>total_allocated = 100, total_freed = 0, current_heap_size = 176,
        mmap_allocations = 0, sbrk_allocations = 1\<rparr>,
      heap_start = 8208, initial_break = 8208, last_allocator_break = 8384, alloc_mutex = False, errno = 0\<rparr>)"
  using demo_find [of 176]
  by (simp add: my_malloc_def SIZE_MAX_def total_size_100 MMAP_THRESHOLD_def mutex_lock_def)
    (simp add: demo_boot_def malloc_grow_def malloc_prepare_def ensure_break_aligned_def
      demo_kernel_def sbrk0_def sbrk_def ALIGNMENT_def BRK_FAILED_def SIZE_MAX_def USER_TOP_def Let_def
      malloc_finish_def stat_defs mem_simps demo_block_def add64_def zero_stats_def)

lemma demo_live_eq:
  "demo_live = \<lparr>mem = demo_block, os = \<lparr>start_brk = 8192, cur_brk = 8384, mappings = []\<rparr>,
      segregated_heads = replicate NUM_SIZE_CLASSES 0,
      global_stats = \<lparr>total_allocated = 100, total_freed = 0, current_heap_size = 176,
        mmap_allocations = 0, sbrk_allocations = 1\<rparr>,
      heap_start = 8208, initial_break = 8208, last_allocator_break = 8384, alloc_mutex = False, errno = 0\<rparr>"
  by (simp add: demo_live_def demo_malloc_eq)

lemma demo_malloc: "my_malloc demo_kernel 100 demo_boot = Inr (8256, demo_live)"
  by (simp add: demo_malloc_eq demo_live_eq)

lemma demo_live: "heap_inv demo_live" "\<exists>xs. heap_view demo_live 8256 = Some xs \<and> length xs = 100"
  using my_malloc_ok [OF demo_kernel_ok boot_inv(1) [OF demo_boot], of 100]
  by (auto simp: demo_malloc allocates_def)

lemma demo_hdr:
  "hdr demo_block 8208 = \<lparr>magic_header = ALLOC_MAGIC_HEADER, is_free = 0, requested_size = 100,
     block_size = 176, is_mmap = 0, next_ptr = 0, prev_ptr = 0\<rparr>"
  "ftr demo_block 8368 = \<lparr>magic_footer = ALLOC_MAGIC_FOOTER, f_block_size = 176\<rparr>"
proof -
  show "hdr demo_block 8208 = \<lparr>magic_header = ALLOC_MAGIC_HEADER, is_free = 0, requested_size = 100,
     block_size = 176, is_mmap = 0, next_ptr = 0, prev_ptr = 0\<rparr>"
    by (simp add: demo_block_def mem_simps magic_defs)
  show "ftr demo_block 8368 = \<lparr>magic_footer = ALLOC_MAGIC_FOOTER, f_block_size = 176\<rparr>"
    using put_footer_simps(1) [of 8208 176] by (simp add: demo_block_def)
qed

lemma heads8: "replicate NUM_SIZE_CLASSES (0::nat) = [0, 0, 0, 0, 0, 0, 0, 0]"
  by (simp add: NUM_SIZE_CLASSES_def eval_nat_numeral)

lemma demo_free_eq:
  "my_free demo_kernel 8256 demo_live = Inr (demo_live\<lparr>
     mem := set_is_free 8208 1 (set_prev 8208 0 (set_next 8208 0 (set_is_free 8208 1 demo_block))),
     segregated_heads := [0, 8208, 0, 0, 0, 0, 0, 0],
     global_stats := (global_stats demo_live)\<lparr>total_freed := 100\<rparr>\<rparr>)"
proof -
  have k: "sbrk0 demo_kernel s = cur_brk (os s)" for s by (rule kernel_okD(1) [OF demo_kernel_ok])
  have c: "my_free_checks demo_kernel 8208 (demo_live\<lparr>alloc_mutex := True\<rparr>) = None"
    by (simp add: my_free_checks_def block_checks_def Let_def k demo_live_eq demo_hdr BRK_FAILED_def SIZE_MAX_def)
  have h: "sub64 8256 48 = 8208" by (simp add: sub64_def)
  have n: "\<not> is_adjacent_free_block s 8384 8384" for s by (rule adjacent_free_end)
  show ?thesis
    using c h n by (simp add: my_free_def mutex_lock_def demo_live_eq demo_hdr stat_defs coalesce_next_def
        coalesce_prev_def Let_def k mem_simps free_list_insert_def size_class_eq heads8 add64_def)
qed

definition demo_freed :: alloc_state where
  "demo_freed = projr (my_free demo_kernel 8256 demo_live)"

lemma demo_free: "my_free demo_kernel 8256 demo_live = Inr demo_freed"
  by (simp add: demo_freed_def demo_free_eq)

lemma demo_freed_inv: "heap_inv demo_freed"
  using my_free_ok [OF demo_kernel_ok demo_live(1), of 8256] demo_live(2) demo_free by (auto simp: releases_def)

lemma demo_freed_mem:
  "mem demo_freed = set_is_free 8208 1 (set_prev 8208 0 (set_next 8208 0 (set_is_free 8208 1 demo_block)))"
  "segregated_heads demo_freed = [0, 8208, 0, 0, 0, 0, 0, 0]" "heap_start demo_freed = 8208"
  "cur_brk (os demo_freed) = 8384"
  unfolding demo_freed_def demo_free_eq by (simp_all add: demo_live_eq)

lemma demo_freed_blocks: "heap_blocks demo_freed = [(8208, 176)]" "is_free (hdr (mem demo_freed) 8208) = 1"
  by (simp_all add: heap_blocks_def demo_freed_mem blocks_from.simps mem_simps demo_hdr)

lemma demo_live_blocks: "heap_blocks demo_live = [(8208, 176)]"
  by (simp add: heap_blocks_def demo_live_eq blocks_from.simps demo_hdr)

text \<open>A second allocation, of 200 bytes, grows the heap: its payload is at 8432.\<close>

definition demo_two :: alloc_state where
  "demo_two = snd (projr (my_malloc demo_kernel 200 demo_live))"

lemma demo_find2:
  "free_list_find_fit demo_kernel t (demo_live\<lparr>alloc_mutex := True\<rparr>) = Inr (0, demo_live\<lparr>alloc_mutex := True\<rparr>)"
proof -
  from demo_live(1) obtain bs fs where "wfd demo_live bs fs {}" "heap_blocks demo_live = bs" by (rule heap_invE)
  then have "wfd (demo_live\<lparr>alloc_mutex := True\<rparr>) [(8208, 176)] fs {}" using demo_live_blocks by simp
  from find_fit_spec [OF this demo_kernel_ok, of t] show ?thesis
    by (auto simp: free_at_def demo_live_eq demo_hdr)
qed

lemma demo_malloc2: "my_malloc demo_kernel 200 demo_live = Inr (8432, demo_two)"
proof -
  have t: "total_size_of 200 = 272" by (simp add: total_size_of_def ALIGN_eq add64_def)
  have "\<exists>s'. my_malloc demo_kernel 200 demo_live = Inr (8432, s')"
    using demo_find2 [of 272]
    by (simp add: my_malloc_def SIZE_MAX_def t MMAP_THRESHOLD_def mutex_lock_def demo_live_eq)
      (simp add: malloc_grow_def malloc_prepare_def ensure_break_aligned_def demo_kernel_def sbrk0_def
        sbrk_def ALIGNMENT_def BRK_FAILED_def SIZE_MAX_def USER_TOP_def Let_def malloc_finish_def)
  then show ?thesis by (auto simp: demo_two_def)
qed

lemma demo_two: "heap_inv demo_two" "\<exists>xs. heap_view demo_two 8256 = Some xs \<and> length xs = 100"
  "\<exists>ys. heap_view demo_two 8432 = Some ys"
  using my_malloc_ok [OF demo_kernel_ok demo_live(1), of 200] demo_live(2)
  by (auto simp: demo_malloc2 allocates_def)

lemma demo_step1: "client_step demo_kernel demo_boot demo_live"
  by (rule client_step.request [of _ "Malloc 100" _ 8256]) (simp_all add: exec_request_def exec_with_def demo_malloc)

lemma demo_steps: "rtranclp (client_step demo_kernel) demo_boot demo_freed"
proof -
  have "client_step demo_kernel demo_live demo_freed"
    by (rule client_step.request [of _ "Free 8256" _ 0])
      (use demo_live(2) in \<open>auto simp: exec_request_def exec_with_def demo_free\<close>)
  with demo_step1 show ?thesis by (meson converse_rtranclp_into_rtranclp rtranclp.rtrancl_refl)
qed

lemma demo_two_steps: "rtranclp (client_step demo_kernel) demo_boot demo_two"
proof -
  have "client_step demo_kernel demo_live demo_two"
    by (rule client_step.request [of _ "Malloc 200" _ 8432]) (simp_all add: exec_request_def exec_with_def demo_malloc2)
  with demo_step1 show ?thesis by (meson converse_rtranclp_into_rtranclp rtranclp.rtrancl_refl)
qed

subsection \<open>Allocation\<close>

text \<open>
  C1. On a well-formed heap \<^verbatim>\<open>my_malloc\<close> returns (it neither aborts nor loops nor deadlocks) and
  leaves a well-formed heap. Either it returns \<^verbatim>\<open>NULL\<close> and no payload changed, or it returns a
  16-byte aligned pointer that was not live, whose payload has the requested size, and all
  other payloads keep their bytes.
\<close>

theorem my_malloc_correct:
  assumes "kernel_ok K" "heap_inv s"
  shows "\<exists>p s'. my_malloc K sz s = Inr (p, s') \<and> heap_inv s' \<and>
    (if p = 0 then heap_view s' = heap_view s
     else p mod 16 = 0 \<and> heap_view s p = None \<and>
       (\<exists>xs. length xs = sz \<and> heap_view s' = (heap_view s)(p \<mapsto> xs)))"
proof -
  from my_malloc_ok [OF assms, of sz] obtain p s' where
    m: "my_malloc K sz s = Inr (p, s')" "allocates sz s p s'" by blast
  have "p mod 16 = 0" if "p \<noteq> 0"
  proof -
    from m(2) that obtain xs where "heap_inv s'" "heap_view s' = (heap_view s)(p \<mapsto> xs)" by (rule allocates_fresh)
    then show ?thesis using view_bounds(2) [of s' p xs] by simp
  qed
  with m show ?thesis by (auto simp: allocates_def)
qed

theorem my_malloc_correct_witness:
  "\<exists>p s'. my_malloc demo_kernel 100 demo_boot = Inr (p, s') \<and> heap_inv s' \<and>
    (if p = 0 then heap_view s' = heap_view demo_boot
     else p mod 16 = 0 \<and> heap_view demo_boot p = None \<and>
       (\<exists>xs. length xs = 100 \<and> heap_view s' = (heap_view demo_boot)(p \<mapsto> xs)))"
  by (rule my_malloc_correct [OF demo_kernel_ok boot_inv(1) [OF demo_boot]])

text \<open>
  C2. \<^verbatim>\<open>my_free\<close> of a live pointer returns, leaves a well-formed heap, removes exactly that
  payload and adds its size to the freed bytes; every other payload keeps its bytes.
\<close>

theorem my_free_correct:
  assumes "kernel_ok K" "heap_inv s" "heap_view s p = Some xs"
  shows "\<exists>s'. my_free K p s = Inr s' \<and> heap_inv s' \<and> heap_view s' = (heap_view s)(p := None) \<and>
    total_freed (global_stats s') = add64 (total_freed (global_stats s)) (length xs)"
  using my_free_ok [OF assms] by (auto simp: releases_def)

theorem my_free_correct_witness:
  "\<exists>s'. my_free demo_kernel 8256 demo_live = Inr s' \<and> heap_inv s' \<and>
    heap_view s' = (heap_view demo_live)(8256 := None) \<and>
    total_freed (global_stats s') = add64 (total_freed (global_stats demo_live)) 100"
  using my_free_correct [OF demo_kernel_ok demo_live(1)] demo_live(2) by metis

text \<open>
  C3. \<^verbatim>\<open>my_realloc\<close> of a live pointer to a positive size returns and leaves a well-formed heap,
  whichever path it takes. If it returns \<^verbatim>\<open>NULL\<close> nothing changed and the old block is still
  live. Otherwise the payload moved to the returned pointer, has the new size and begins with
  the old bytes up to the smaller of the two sizes; every other payload keeps its bytes.
\<close>

theorem my_realloc_correct:
  assumes "kernel_ok K" "heap_inv s" "heap_view s p = Some xs" "0 < sz"
  shows "\<exists>q s'. my_realloc K p sz s = Inr (q, s') \<and> heap_inv s' \<and>
    (if q = 0 then heap_view s' = heap_view s
     else (q = p \<or> heap_view s q = None) \<and>
       (\<exists>ys. length ys = sz \<and> take (min (length xs) sz) ys = take (min (length xs) sz) xs \<and>
          heap_view s' = (heap_view s)(p := None, q \<mapsto> ys)))"
  using my_realloc_ok [OF assms] outcome_payload(2) unfolding moved_payload_def by blast

theorem my_realloc_correct_witness:
  "\<exists>xs. heap_view demo_live 8256 = Some xs \<and> length xs = 100 \<and>
    (\<exists>q s'. my_realloc demo_kernel 8256 5000 demo_live = Inr (q, s') \<and> heap_inv s' \<and>
      (if q = 0 then heap_view s' = heap_view demo_live
       else (q = 8256 \<or> heap_view demo_live q = None) \<and>
         (\<exists>ys. length ys = 5000 \<and> take (min (length xs) 5000) ys = take (min (length xs) 5000) xs \<and>
            heap_view s' = (heap_view demo_live)(8256 := None, q \<mapsto> ys))))"
proof -
  from demo_live(2) obtain xs where xs: "heap_view demo_live 8256 = Some xs" "length xs = 100" by blast
  have "(0::nat) < 5000" by simp
  from my_realloc_correct [OF demo_kernel_ok demo_live(1) xs(1) this] xs show ?thesis by blast
qed

text \<open>
  C4. \<^verbatim>\<open>my_calloc\<close> returns; a non-null result is a fresh live pointer to \<open>nmemb * sz\<close> zero bytes,
  and a product that does not fit into \<^verbatim>\<open>size_t\<close> always gives \<^verbatim>\<open>NULL\<close> with \<^verbatim>\<open>ENOMEM\<close>.
\<close>

theorem my_calloc_correct:
  assumes "kernel_ok K" "heap_inv s"
  shows "\<exists>p s'. my_calloc K nmemb sz s = Inr (p, s') \<and> heap_inv s' \<and>
    (if p = 0 then heap_view s' = heap_view s
     else heap_view s p = None \<and> heap_view s' = (heap_view s)(p \<mapsto> replicate (nmemb * sz) 0)) \<and>
    (SIZE_MAX < nmemb * sz \<longrightarrow> p = 0 \<and> errno s' = ENOMEM)"
proof -
  from my_calloc_ok [OF assms, of nmemb sz] obtain p s' where
    m: "my_calloc K nmemb sz s = Inr (p, s')" "allocates (nmemb * sz) s p s'"
      "p \<noteq> 0 \<longrightarrow> heap_view s' p = Some (replicate (nmemb * sz) 0)" by blast
  have v: "heap_view s p = None \<and> heap_view s' = (heap_view s)(p \<mapsto> replicate (nmemb * sz) 0)" if "p \<noteq> 0"
    using m(2,3) that by (auto simp: allocates_def)
  have "p = 0 \<and> errno s' = ENOMEM" if o: "SIZE_MAX < nmemb * sz"
  proof -
    have nz: "nmemb \<noteq> 0" "sz \<noteq> 0" using o by (metis mult_0 not_less_zero, metis mult_0_right not_less_zero)
    have "SIZE_MAX div nmemb < sz" using o nz by (simp add: div_less_iff_less_mult mult.commute)
    then show ?thesis using m(1) nz by (auto simp: my_calloc_def)
  qed
  then show ?thesis using m(1,2) v by (auto simp: allocates_def)
qed

theorem my_calloc_correct_witness:
  "\<exists>p s'. my_calloc demo_kernel 4 25 demo_boot = Inr (p, s') \<and> heap_inv s' \<and>
    (if p = 0 then heap_view s' = heap_view demo_boot
     else heap_view demo_boot p = None \<and> heap_view s' = (heap_view demo_boot)(p \<mapsto> replicate (4 * 25) 0)) \<and>
    (SIZE_MAX < 4 * 25 \<longrightarrow> p = 0 \<and> errno s' = ENOMEM)"
  by (rule my_calloc_correct [OF demo_kernel_ok boot_inv(1) [OF demo_boot]])

subsection \<open>Every caller\<close>

text \<open>
  C5. What a caller stores survives: at any time after process start a correct caller stores bytes
  inside a live payload and then makes any sequence of correct requests that do not free, resize or
  store into that payload (allocations, frees and resizes of other blocks, with all the splitting,
  coalescing and moving they cause). No request of the sequence faults, and at the end the stored
  bytes and the rest of the payload are in memory at the same addresses.
\<close>

theorem stored_bytes_survive:
  assumes "kernel_ok K" "boot s" "rtranclp (client_step K) s t" "heap_view t p = Some xs"
    and "i + length ys \<le> length xs" "correct_run K rs (poke (p + i) ys t)" "\<forall>r\<in>set rs. spares p r"
  shows "\<exists>u. run_requests K rs (poke (p + i) ys t) = Inr u \<and> heap_inv u \<and>
    map (mem u) [p..<p + length xs] = take i xs @ ys @ drop (i + length ys) xs"
proof -
  have t: "heap_inv t" using reachable_good [OF assms(1-3)] by simp
  note P = poke_view [OF t assms(4,5)]
  let ?zs = "take i xs @ ys @ drop (i + length ys) xs"
  have "heap_view (poke (p + i) ys t) p = Some ?zs" using P(2) by simp
  from run_requests_keeps [OF assms(1) P(1) this assms(6)] assms(7) spares_keeps obtain u where
    u: "run_requests K rs (poke (p + i) ys t) = Inr u" "heap_inv u" "heap_view u p = Some ?zs" by blast
  have "length ?zs = length xs" using assms(5) by simp
  then show ?thesis using u view_map [OF u(2,3)] by metis
qed

theorem stored_bytes_survive_witness:
  "\<exists>u. run_requests demo_kernel [Free 8432, Malloc 5000, Calloc 3 7] (poke (8256 + 90) [1, 2, 3] demo_two) = Inr u \<and>
    heap_inv u \<and> map (mem u) [8256..<8256 + 100] =
      take 90 (map (mem demo_two) [8256..<8256 + 100]) @ [1, 2, 3] @ drop 93 (map (mem demo_two) [8256..<8256 + 100])"
proof -
  obtain xs where x: "heap_view demo_two 8256 = Some xs" "length xs = 100" using demo_two(2) by blast
  have xs: "xs = map (mem demo_two) [8256..<8256 + 100]" using view_map [OF demo_two(1) x(1)] x(2) by metis
  have l: "90 + length [1, 2, 3::byte] \<le> length xs" using x(2) by simp
  have "heap_view (poke (8256 + 90) [1, 2, 3] demo_two) 8432 \<noteq> None"
    using poke_view(2) [OF demo_two(1) x(1) l] demo_two(3) by auto
  then have "correct_run demo_kernel [Free 8432, Malloc 5000, Calloc 3 7] (poke (8256 + 90) [1, 2, 3] demo_two)"
    by (auto simp: correct_run_def split: sum.splits)
  from stored_bytes_survive [OF demo_kernel_ok demo_boot demo_two_steps x(1) l this] x(2) show ?thesis
    unfolding xs [symmetric] by simp
qed

text \<open>
  C6. Invariant: from process start, whatever sequence of requests a correct caller makes, the
  heap stays well formed, no two neighbouring blocks are both free, the integrity check
  returns 0, and modulo \<open>2 ^ 64\<close> the bytes counted as allocated are those counted as freed
  plus the bytes that are live.
\<close>

theorem reachable_heap:
  assumes "kernel_ok K" "boot s" "rtranclp (client_step K) s t"
  shows "heap_inv t \<and> no_adj (\<lambda>a. is_free (hdr (mem t) a) = 1) (heap_blocks t) \<and>
    allocator_verify_integrity K t = Inr (0, t) \<and>
    total_allocated (global_stats t) mod 2 ^ 64 = (total_freed (global_stats t) + live_bytes t) mod 2 ^ 64"
proof -
  have g: "heap_inv t" "stats_balanced t" using reachable_good [OF assms] by auto
  from g(1) obtain bs fs where wf: "wfd t bs fs {}" "heap_blocks t = bs" by (rule heap_invE)
  have "free_at (mem t) {} = (\<lambda>a. is_free (hdr (mem t) a) = 1)" by (simp add: free_at_def fun_eq_iff)
  then have "no_adj (\<lambda>a. is_free (hdr (mem t) a) = 1) (heap_blocks t)" using wfdD(4) [OF wf(1)] wf(2) by simp
  then show ?thesis using g verify_integrity_ok [OF assms(1) g(1)] by (simp add: stats_balanced_def)
qed

theorem reachable_heap_witness:
  "heap_inv demo_freed \<and> no_adj (\<lambda>a. is_free (hdr (mem demo_freed) a) = 1) (heap_blocks demo_freed) \<and>
    allocator_verify_integrity demo_kernel demo_freed = Inr (0, demo_freed) \<and>
    total_allocated (global_stats demo_freed) mod 2 ^ 64 =
      (total_freed (global_stats demo_freed) + live_bytes demo_freed) mod 2 ^ 64"
  by (rule reachable_heap [OF demo_kernel_ok demo_boot demo_steps])

text \<open>
  C7. Safety: two pointers obtained from \<^verbatim>\<open>my_malloc\<close> never share memory. At any time after process
  start \<^verbatim>\<open>my_malloc\<close> returns \<open>p\<close>; the caller then makes any sequence of correct requests that do not free
  or resize \<open>p\<close>, and calls \<^verbatim>\<open>my_malloc\<close> again with the result \<open>q\<close>. Both pointers are 16-byte
  aligned, and between the end of the one payload and the start of the other there are at least
  the 64 bytes of a footer and a header.
\<close>

theorem live_payloads_apart:
  assumes "kernel_ok K" "boot s" "rtranclp (client_step K) s t"
    and "my_malloc K n t = Inr (p, t1)" "p \<noteq> 0" "correct_run K rs t1" "\<forall>r\<in>set rs. keeps p r"
    and "run_requests K rs t1 = Inr t2" "my_malloc K k t2 = Inr (q, t3)" "q \<noteq> 0"
  shows "p mod 16 = 0 \<and> q mod 16 = 0 \<and> (p + n + (HDR + FTR) \<le> q \<or> q + k + (HDR + FTR) \<le> p)"
proof -
  have t: "heap_inv t" using reachable_good [OF assms(1-3)] by simp
  have "allocates n t p t1" using my_malloc_ok [OF assms(1) t, of n] assms(4) by auto
  then obtain xs where a: "heap_inv t1" "length xs = n" "heap_view t1 = (heap_view t)(p \<mapsto> xs)"
    using assms(5) by (rule allocates_fresh)
  then have "heap_view t1 p = Some xs" by simp
  from run_requests_keeps [OF assms(1) a(1) this assms(6,7)] assms(8) a(2) obtain ys where
    b: "heap_inv t2" "heap_view t2 p = Some ys" "length ys = n" by auto
  have "allocates k t2 q t3" using my_malloc_ok [OF assms(1) b(1), of k] assms(9) by auto
  then obtain zs where c: "heap_inv t3" "length zs = k" "heap_view t3 = (heap_view t2)(q \<mapsto> zs)" "heap_view t2 q = None"
    using assms(10) by (rule allocates_fresh)
  then have v: "heap_view t3 p = Some ys" "heap_view t3 q = Some zs" "p \<noteq> q" using b(2) by auto
  show ?thesis using view_disjoint [OF c(1) v] view_bounds(2) [OF c(1)] v b(3) c(2) by simp
qed

theorem live_payloads_apart_witness:
  "my_malloc demo_kernel 100 demo_boot = Inr (8256, demo_live) \<and>
   my_malloc demo_kernel 200 demo_live = Inr (8432, demo_two) \<and>
   8256 mod 16 = (0::nat) \<and> 8432 mod 16 = (0::nat) \<and>
   (8256 + 100 + (HDR + FTR) \<le> 8432 \<or> 8432 + 200 + (HDR + FTR) \<le> 8256)"
  using live_payloads_apart [OF demo_kernel_ok demo_boot rtranclp.rtrancl_refl demo_malloc _ _ _ _ demo_malloc2, of "[]"]
    demo_malloc demo_malloc2 by (simp add: correct_run_def run_requests_def)

text \<open>
  C8. Best fit: if some free block is large enough for a small request, \<^verbatim>\<open>my_malloc\<close> succeeds without
  moving the break and uses a free block of the least sufficient size in the whole heap, although
  it searches the lists class by class.
\<close>

theorem my_malloc_best_fit:
  assumes "kernel_ok K" "heap_inv s" "0 < sz" "sz \<le> SIZE_MAX - 1024" "total_size_of sz < MMAP_THRESHOLD"
    and "(b, n) \<in> set (heap_blocks s)" "is_free (hdr (mem s) b) = 1" "total_size_of sz \<le> n"
  shows "\<exists>a k s'. my_malloc K sz s = Inr (a + HDR, s') \<and> (a, k) \<in> set (heap_blocks s) \<and>
    is_free (hdr (mem s) a) = 1 \<and> total_size_of sz \<le> k \<and> os s' = os s \<and>
    (\<forall>(c, l)\<in>set (heap_blocks s). is_free (hdr (mem s) c) = 1 \<longrightarrow> total_size_of sz \<le> l \<longrightarrow> k \<le> l)"
  by (rule my_malloc_fit [OF assms(1-3,5,4,6-8)])

theorem my_malloc_best_fit_witness:
  "\<exists>a k s'. my_malloc demo_kernel 100 demo_freed = Inr (a + HDR, s') \<and> (a, k) \<in> set (heap_blocks demo_freed) \<and>
    is_free (hdr (mem demo_freed) a) = 1 \<and> total_size_of 100 \<le> k \<and> os s' = os demo_freed \<and>
    (\<forall>(c, l)\<in>set (heap_blocks demo_freed).
       is_free (hdr (mem demo_freed) c) = 1 \<longrightarrow> total_size_of 100 \<le> l \<longrightarrow> k \<le> l)"
  by (rule my_malloc_best_fit [OF demo_kernel_ok demo_freed_inv, of 100 8208 176])
    (simp_all add: demo_freed_blocks total_size_100 MMAP_THRESHOLD_def SIZE_MAX_def)

subsection \<open>Misuse\<close>

text \<open>
  The message a second call on a freed block should give, read off the heap as it was before the
  first call: whether a free block ended where the block began.
\<close>

definition misuse_message :: "alloc_state \<Rightarrow> addr \<Rightarrow> string \<Rightarrow> string" where
  "misuse_message s header fn =
     (if \<exists>(c, k)\<in>set (heap_blocks s). c + k = header \<and> is_free (hdr (mem s) c) = 1
      then ''[FATAL] Heap corruption: Invalid magic footer canary in ''
      else ''[FATAL] Double free or use after free detected in '') @ fn"

text \<open>
  C9. Double free: after \<^verbatim>\<open>my_free\<close> of a heap block, a second \<^verbatim>\<open>my_free\<close> of the same pointer always ends
  the process, and so does \<^verbatim>\<open>my_realloc\<close> of it to any size up to \<^verbatim>\<open>SIZE_MAX - 1024\<close>; above that size
  \<^verbatim>\<open>my_realloc\<close> returns \<^verbatim>\<open>NULL\<close> with \<^verbatim>\<open>ENOMEM\<close> before it looks at the block. The message is the one for a
  double free, unless the block before the freed one was free: then the block was merged into it,
  and the message is the one for an invalid footer canary.
\<close>

theorem double_free_aborts:
  assumes "kernel_ok K" "heap_inv s" "heap_view s p = Some xs" "is_mmap (hdr (mem s) (p - HDR)) = 0"
  shows "\<exists>s'. my_free K p s = Inr s' \<and>
    my_free K p s' = Inl (Abort (misuse_message s (p - HDR) ''my_free'')) \<and>
    my_realloc K p n s' =
      (if n = 0 then Inl (Abort (misuse_message s (p - HDR) ''my_free''))
       else if n \<le> SIZE_MAX - 1024 then Inl (Abort (misuse_message s (p - HDR) ''my_realloc''))
       else Inr (0, s'\<lparr>errno := ENOMEM\<rparr>))"
proof -
  from my_free_ok [OF assms(1-3)] assms(4) obtain s' where f: "my_free K p s = Inr s'" "heap_inv s'"
    "stale s' (p - HDR) (free_before s (p - HDR))" by (auto simp: releases_def)
  have lk: "\<not> alloc_mutex s'" using f(2) by (simp add: heap_inv_def)
  note h = sub64_header [OF assms(2,3)]
  have "block_checks fn K (sub64 p HDR) (s'\<lparr>alloc_mutex := True\<rparr>) = Some (Abort (misuse_message s (p - HDR) fn))" for fn
    using block_checks_stale [OF assms(1), of "s'\<lparr>alloc_mutex := True\<rparr>"] f(3) h(1)
    by (simp add: misuse_message_def free_before_def)
  then have "my_free K p s' = Inl (Abort (misuse_message s (p - HDR) ''my_free''))"
    "0 < n \<Longrightarrow> n \<le> SIZE_MAX - 1024 \<Longrightarrow> my_realloc K p n s' = Inl (Abort (misuse_message s (p - HDR) ''my_realloc''))"
    using my_free_abort [OF lk h(2)] my_realloc_abort [OF lk h(2)] by blast+
  then show ?thesis using f(1) h(2) by (auto simp: my_realloc_def)
qed

theorem double_free_aborts_witness:
  "\<exists>s'. my_free demo_kernel 8256 demo_live = Inr s' \<and>
    my_free demo_kernel 8256 s' = Inl (Abort ''[FATAL] Double free or use after free detected in my_free'') \<and>
    my_realloc demo_kernel 8256 500 s' = Inl (Abort ''[FATAL] Double free or use after free detected in my_realloc'')"
proof -
  from demo_live(2) obtain xs where x: "heap_view demo_live 8256 = Some xs" by blast
  have "is_mmap (hdr (mem demo_live) (8256 - HDR)) = 0" by (simp add: demo_live_eq demo_hdr)
  from double_free_aborts [OF demo_kernel_ok demo_live(1) x this, of 500] show ?thesis
    by (simp add: misuse_message_def demo_live_blocks SIZE_MAX_def)
qed

text \<open>
  C10. Overflow detection: if a caller's stray stores changed the footer magic of the block of a
  live pointer and left its header alone, or changed the header magic, \<^verbatim>\<open>my_free\<close> of that
  pointer aborts with the corresponding message instead of using the block.
\<close>

theorem damaged_block_aborts:
  assumes "kernel_ok K" "heap_inv s" "heap_view s p = Some xs"
    and "magic_header (hdr m (p - HDR)) \<noteq> ALLOC_MAGIC_HEADER \<or>
      hdr m (p - HDR) = hdr (mem s) (p - HDR) \<and>
      magic_footer (ftr m (footer_of (p - HDR) (block_size (hdr m (p - HDR))))) \<noteq> ALLOC_MAGIC_FOOTER"
  shows "my_free K p (s\<lparr>mem := m\<rparr>) = Inl (Abort
    (if magic_header (hdr m (p - HDR)) \<noteq> ALLOC_MAGIC_HEADER
     then ''[FATAL] Heap corruption: Invalid magic header canary in my_free''
     else ''[FATAL] Heap corruption: Invalid magic footer canary in my_free''))"
proof (rule my_free_abort)
  note h = sub64_header [OF assms(2,3)]
  from assms(2) obtain bs fs where wf: "wfd s bs fs {}" and mx: "\<not> alloc_mutex s" by (rule heap_invE)
  show "\<not> alloc_mutex (s\<lparr>mem := m\<rparr>)" "p \<noteq> 0" using mx h(2) by simp_all
  from assms(3) obtain b n where b: "(b, n) \<in> al s bs {}" "p = b + HDR" unfolding heap_view_iff [OF wf] by blast
  have "block_checks ''my_free'' K b s = None" by (rule block_checks_ok [OF assms(1) wf b(1)])
  then show "block_checks ''my_free'' K (sub64 p HDR) (s\<lparr>mem := m, alloc_mutex := True\<rparr>) = Some (Abort
    (if magic_header (hdr m (p - HDR)) \<noteq> ALLOC_MAGIC_HEADER
     then ''[FATAL] Heap corruption: Invalid magic header canary in my_free''
     else ''[FATAL] Heap corruption: Invalid magic footer canary in my_free''))"
    using assms(4) h(1) b(2) kernel_okD(1) [OF assms(1)]
    by (auto simp: block_checks_def Let_def split: if_splits)
qed

theorem damaged_block_aborts_witness:
  "my_free demo_kernel 8256 (demo_live\<lparr>mem := wr 4 8368 0 (mem demo_live)\<rparr>) =
     Inl (Abort ''[FATAL] Heap corruption: Invalid magic footer canary in my_free'')"
proof -
  from demo_live(2) obtain xs where x: "heap_view demo_live 8256 = Some xs" by blast
  let ?m = "wr 4 8368 0 (mem demo_live)"
  have h: "hdr ?m 8208 = hdr (mem demo_live) 8208" by (rule hdr_cong) (simp add: wr_outside)
  have "magic_footer (ftr ?m 8368) = 0" using rd_wr_mod [of 4 8368 0 "mem demo_live"] by (simp add: ftr_def)
  then show ?thesis using damaged_block_aborts [OF demo_kernel_ok demo_live(1) x, of ?m] h
    by (simp add: demo_live_eq demo_hdr magic_defs)
qed

subsection \<open>The integrity check\<close>

text \<open>
  C11. Soundness of the integrity check: whenever \<^verbatim>\<open>allocator_verify_integrity\<close> returns 0 on an initialised
  heap, in whatever state the memory is, the heap really is a gapless sequence of blocks whose
  header and footer magics and sizes agree.
\<close>

theorem verify_integrity_sound:
  assumes "kernel_ok K" "allocator_verify_integrity K s = Inr (0, s')"
    and "heap_start s \<noteq> 0" "heap_start s \<le> cur_brk (os s)" "cur_brk (os s) < BRK_FAILED"
  shows "\<exists>bs. tiles (heap_start s) bs (cur_brk (os s)) \<and> (\<forall>(b, n)\<in>set bs. tags_ok (mem s) b n)"
proof (rule walk_sound)
  show "walk_heap (mem s) (cur_brk (os s)) (heap_start s) = 0"
    using assms by (auto simp: allocator_verify_integrity_def mutex_lock_def Let_def kernel_okD(1) [OF assms(1)]
        split: if_splits sum.splits)
qed (rule assms(4))

theorem verify_integrity_sound_witness:
  "\<exists>bs. tiles (heap_start demo_live) bs (cur_brk (os demo_live)) \<and> (\<forall>(b, n)\<in>set bs. tags_ok (mem demo_live) b n)"
  by (rule verify_integrity_sound [OF demo_kernel_ok verify_integrity_ok [OF demo_kernel_ok demo_live(1)]])
    (simp_all add: demo_live_eq BRK_FAILED_def SIZE_MAX_def)

subsection \<open>The life of the allocator\<close>

text \<open>
  C12. \<^verbatim>\<open>allocator_init\<close> in a fresh process returns with a well-formed empty heap, zeroed statistics and
  the memory untouched. If the break is a multiple of 16 or the kernel grants the padding, the heap
  begins at the break rounded up to a multiple of 16, and the break is there; only if the kernel
  refuses the padding is no heap started and the break left where it was.
\<close>

theorem allocator_init_fresh:
  assumes "kernel_ok K" "boot s"
  shows "\<exists>s'. allocator_init K s = Inr s' \<and> heap_inv s' \<and> heap_view s' = Map.empty \<and>
    global_stats s' = zero_stats \<and> mem s' = mem s \<and>
    (if cur_brk (os s) mod 16 = 0 \<or> k_sbrk K (os s) (16 - cur_brk (os s) mod 16)
     then heap_start s' = (cur_brk (os s) + 15) div 16 * 16 \<and> cur_brk (os s') = heap_start s' \<and>
       last_allocator_break s' = heap_start s' \<and> 0 < heap_start s'
     else heap_start s' = 0 \<and> os s' = os s)"
  using allocator_init_boot [OF assms] unfolding padding_granted_def padded_break_def by metis

theorem allocator_init_fresh_witness:
  "\<exists>s'. allocator_init demo_kernel demo_boot = Inr s' \<and> heap_inv s' \<and> heap_view s' = Map.empty \<and>
    global_stats s' = zero_stats \<and> heap_start s' = 8208 \<and> cur_brk (os s') = 8208 \<and> last_allocator_break s' = 8208"
  using allocator_init_fresh [OF demo_kernel_ok demo_boot]
  by (auto simp: demo_boot_def demo_kernel_def USER_TOP_def)



text \<open>
  C14. A second \<^verbatim>\<open>allocator_init\<close> on a used heap empties the lists without unmarking the free blocks in
  them: every free block stays marked free and linked to its neighbours in the dropped list. The next
  attempt to unlink it, which is what merging with it does, aborts as free-list corruption if the
  block headed its list; for a block behind the head the links still agree and it is unlinked.
\<close>

theorem allocator_init_twice:
  assumes "kernel_ok K" "heap_inv s" "(b, k) \<in> set (heap_blocks s)" "is_free (hdr (mem s) b) = 1"
  shows "\<exists>s'. allocator_init K s = Inr s' \<and> segregated_heads s' = replicate NUM_SIZE_CLASSES 0 \<and>
    is_free (hdr (mem s') b) = 1 \<and>
    free_list_remove K b s' =
      (if b \<in> set (segregated_heads s)
       then Inl (Abort ''[FATAL] Free-list head linkage corruption detected'')
       else Inr (unlink b s'))"
  by (rule allocator_init_again [OF assms])

theorem allocator_init_twice_witness:
  "\<exists>s'. allocator_init demo_kernel demo_freed = Inr s' \<and> segregated_heads s' = replicate NUM_SIZE_CLASSES 0 \<and>
    is_free (hdr (mem s') 8208) = 1 \<and>
    free_list_remove demo_kernel 8208 s' = Inl (Abort ''[FATAL] Free-list head linkage corruption detected'')"
  using allocator_init_twice [OF demo_kernel_ok demo_freed_inv _ demo_freed_blocks(2), of 176]
  by (simp add: demo_freed_mem(2) demo_freed_blocks(1))

text \<open>
  C15. Sizes: for every request \<^verbatim>\<open>my_malloc\<close> accepts, the block size computed in 64-bit
  arithmetic is exact (no wrap-around), a multiple of 16, has room for header, payload and
  footer and wastes at most 15 bytes.
\<close>

theorem total_size_bounds:
  assumes "sz \<le> SIZE_MAX - 1024"
  shows "total_size_of sz = HDR + (sz + 15) div 16 * 16 + FTR \<and> total_size_of sz mod 16 = 0 \<and>
    sz + (HDR + FTR) \<le> total_size_of sz \<and> total_size_of sz \<le> sz + (HDR + FTR) + 15 \<and>
    total_size_of sz + min_split \<le> SIZE_MAX"
proof -
  have "sz + 15 < 2 ^ 64" using assms by (simp add: SIZE_MAX_def)
  then show ?thesis using total_size_of_eq [OF assms] by (simp add: ALIGN_eq min_split_def SIZE_MAX_def)
qed

theorem total_size_bounds_witness:
  "total_size_of 100 = HDR + (100 + 15) div 16 * 16 + FTR \<and> total_size_of 100 mod 16 = 0 \<and>
    100 + (HDR + FTR) \<le> total_size_of 100 \<and> total_size_of 100 \<le> 100 + (HDR + FTR) + 15 \<and>
    total_size_of 100 + min_split \<le> SIZE_MAX"
  by (rule total_size_bounds) (simp add: SIZE_MAX_def)

text \<open>
  C16. Size classes: every size has a class below \<^verbatim>\<open>NUM_SIZE_CLASSES\<close>, larger sizes never have a
  smaller class, and a size belongs to class \<open>i\<close> exactly if it is at most the limit of class \<open>i\<close>
  and above the limit of the class before. The last class has no upper limit in the code: a free
  block above 128 KiB, as merging makes them, is kept in it, although the documentation gives
  128 KiB as the limit of class 7.
\<close>

theorem size_class_partition:
  "get_size_class_index n < NUM_SIZE_CLASSES \<and> (n \<le> k \<longrightarrow> get_size_class_index n \<le> get_size_class_index k) \<and>
   (i < NUM_SIZE_CLASSES \<longrightarrow>
     (get_size_class_index n = i \<longleftrightarrow> (i = 0 \<or> size_class_limits ! (i - 1) < n) \<and>
        (i = NUM_SIZE_CLASSES - 1 \<or> n \<le> size_class_limits ! i)))"
proof -
  have "get_size_class_index n = i \<longleftrightarrow> (i = 0 \<or> size_class_limits ! (i - 1) < n) \<and>
        (i = NUM_SIZE_CLASSES - 1 \<or> n \<le> size_class_limits ! i)" if "i < NUM_SIZE_CLASSES"
  proof -
    have "i \<in> {0, 1, 2, 3, 4, 5, 6, 7}" using that by (auto simp: NUM_SIZE_CLASSES_def)
    then show ?thesis
      by (elim insertE emptyE; simp add: size_class_eq size_class_limits_def NUM_SIZE_CLASSES_def; linarith?)
  qed
  then show ?thesis using size_class_less size_class_mono by blast
qed

theorem size_class_partition_witness:
  "get_size_class_index 176 = 1 \<longleftrightarrow> (1 = (0::nat) \<or> size_class_limits ! (1 - 1) < 176) \<and>
     (1 = NUM_SIZE_CLASSES - 1 \<or> 176 \<le> size_class_limits ! 1)"
  using size_class_partition [of 176 176 1] by (simp add: NUM_SIZE_CLASSES_def)

end
