(* ===== verification/Preload_Shim.thy ===== *)
theory Preload_Shim
  imports Allocator_Facts
begin

text \<open>
  The interposition layer of \<^verbatim>\<open>src/allocator/preload_shim.c\<close>: the C library's allocation
  functions on top of the allocator. While the thread is inside the allocator, requests are
  served from a static bootstrap buffer that is never reused. Larger alignments are obtained
  by over-allocating and writing a marker in front of the aligned pointer. The address of
  the buffer and the page size the system reports are parameters.
\<close>

subsection \<open>State\<close>

definition BOOTSTRAP_BUF_SIZE :: nat where
  "BOOTSTRAP_BUF_SIZE = 128 * 1024"

definition BOOTSTRAP_MAGIC :: nat where
  "BOOTSTRAP_MAGIC = 0xFEEDC0DECAFEFACE"

definition ALIGNED_BLOCK_MAGIC :: nat where
  "ALIGNED_BLOCK_MAGIC = 0xA116ED01"

definition EINVAL :: nat where
  "EINVAL = 22"

record shim_state =
  heap :: alloc_state
  bootstrap_buf :: addr
  bootstrap_offset :: nat
  in_allocator :: bool

text \<open>The two headers the shim writes, as read through a pointer to them.\<close>

record bootstrap_header_t =
  bs_magic :: nat
  bs_size :: nat

record aligned_header_t =
  ah_magic :: nat
  ah_offset :: nat
  ah_requested_size :: nat

definition bootstrap_header :: "mem \<Rightarrow> addr \<Rightarrow> bootstrap_header_t" where
  "bootstrap_header m a = \<lparr>bs_magic = rd 8 m a, bs_size = rd 8 m (a + 8)\<rparr>"

definition aligned_header :: "mem \<Rightarrow> addr \<Rightarrow> aligned_header_t" where
  "aligned_header m a =
     \<lparr>ah_magic = rd 4 m a, ah_offset = rd 8 m (a + 8), ah_requested_size = rd 8 m (a + 16)\<rparr>"

abbreviation upd_heap :: "(alloc_state \<Rightarrow> alloc_state) \<Rightarrow> shim_state \<Rightarrow> shim_state" where
  "upd_heap f s \<equiv> s\<lparr>heap := f (heap s)\<rparr>"

definition set_errno :: "nat \<Rightarrow> shim_state \<Rightarrow> shim_state" where
  "set_errno e s = upd_heap (\<lambda>h. h\<lparr>errno := e\<rparr>) s"

text \<open>A call into the allocator with the thread's flag raised around it.\<close>

definition guarded :: "(alloc_state \<Rightarrow> (addr \<times> alloc_state) outcome) \<Rightarrow> shim_state \<Rightarrow> (addr \<times> shim_state) outcome" where
  "guarded f s =
     (let s1 = s\<lparr>in_allocator := True\<rparr> in
      case f (heap s1) of
        Inl e \<Rightarrow> Inl e
      | Inr (p, h) \<Rightarrow> Inr (p, s1\<lparr>heap := h, in_allocator := False\<rparr>))"

subsection \<open>The bootstrap buffer\<close>

definition is_bootstrap_ptr :: "shim_state \<Rightarrow> addr \<Rightarrow> bool" where
  "is_bootstrap_ptr s ptr \<longleftrightarrow> bootstrap_buf s \<le> ptr \<and> ptr < bootstrap_buf s + BOOTSTRAP_BUF_SIZE"

definition bootstrap_alloc :: "nat \<Rightarrow> shim_state \<Rightarrow> addr \<times> shim_state" where
  "bootstrap_alloc sz s =
     (if sz > BOOTSTRAP_BUF_SIZE - 16 then (0, s)
      else
        let aligned_size = ALIGN sz;
            chunk_total = add64 16 aligned_size;
            prev_offset = bootstrap_offset s;
            s1 = s\<lparr>bootstrap_offset := add64 prev_offset chunk_total\<rparr>
        in if add64 prev_offset chunk_total > BOOTSTRAP_BUF_SIZE then (0, s1)
           else
             let bhdr = bootstrap_buf s + prev_offset
             in (bhdr + 16, upd_heap (upd_mem (\<lambda>m. wr 8 (bhdr + 8) sz (wr 8 bhdr BOOTSTRAP_MAGIC m))) s1))"

subsection \<open>Aligned blocks\<close>

text \<open>\<^verbatim>\<open>is_aligned_ptr\<close> with its output arguments as an optional result.\<close>

definition is_aligned_ptr :: "mem \<Rightarrow> addr \<Rightarrow> (addr \<times> nat) option" where
  "is_aligned_ptr m ptr =
     (if ptr = 0 \<or> ptr < HDR + 8 then None
      else if ptr mod 8 \<noteq> 0 then None
      else
        let ah = aligned_header m (ptr - HDR) in
        if ah_magic ah = ALIGNED_BLOCK_MAGIC \<and> ah_offset ah \<ge> HDR + 8 then
          if ptr < ah_offset ah then None
          else
            let real_hdr = ptr - ah_offset ah in
            if magic_header (hdr m real_hdr) = ALLOC_MAGIC_HEADER
            then Some (real_hdr, ah_requested_size ah) else None
        else None)"

text \<open>\<open>(raw + alignment - 1) & ~(alignment - 1)\<close> at the width of \<^verbatim>\<open>uintptr_t\<close>.\<close>

definition align_up :: "nat \<Rightarrow> nat \<Rightarrow> nat" where
  "align_up raw alignment =
     unat ((word_of_nat raw + word_of_nat alignment - 1) AND NOT (word_of_nat alignment - 1 :: 64 word))"

definition put_aligned_header :: "addr \<Rightarrow> nat \<Rightarrow> nat \<Rightarrow> mem \<Rightarrow> mem" where
  "put_aligned_header a off req m =
     wr 8 (a + 16) req (wr 8 (a + 8) off (wr 4 (a + 4) 0 (wr 4 a ALIGNED_BLOCK_MAGIC m)))"

definition aligned_alloc_internal ::
  "kernel \<Rightarrow> nat \<Rightarrow> nat \<Rightarrow> nat \<Rightarrow> shim_state \<Rightarrow> (addr \<times> shim_state) outcome" where
  "aligned_alloc_internal K alignment alloc_size req_size s =
     (if alloc_size > sub64 (sub64 SIZE_MAX alignment) HDR then Inr (0, set_errno ENOMEM s)
      else
        let total = add64 (add64 alloc_size alignment) HDR in
        case (if in_allocator s then Inr (bootstrap_alloc total s) else guarded (my_malloc K total) s) of
          Inl e \<Rightarrow> Inl e
        | Inr (base, s1) \<Rightarrow>
            if base = 0 then Inr (0, s1)
            else
              let aligned_ptr = align_up (base + HDR) alignment;
                  off = sub64 aligned_ptr (sub64 base HDR)
              in Inr (aligned_ptr, upd_heap (upd_mem (put_aligned_header (aligned_ptr - HDR) off req_size)) s1))"

subsection \<open>The C library's functions\<close>

definition malloc :: "kernel \<Rightarrow> nat \<Rightarrow> shim_state \<Rightarrow> (addr \<times> shim_state) outcome" where
  "malloc K sz s =
     (if in_allocator s then Inr (bootstrap_alloc sz s) else guarded (my_malloc K sz) s)"

definition free :: "kernel \<Rightarrow> addr \<Rightarrow> shim_state \<Rightarrow> shim_state outcome" where
  "free K ptr s =
     (if ptr = 0 then Inr s
      else if is_bootstrap_ptr s ptr then Inr s
      else
        case is_aligned_ptr (mem (heap s)) ptr of
          Some (real_hdr, _) \<Rightarrow>
            let s1 = upd_heap (upd_mem (wr 4 (ptr - HDR) 0)) s;
                base = real_hdr + HDR
            in if is_bootstrap_ptr s base then Inr s1
               else map_sum id (\<lambda>h. s1\<lparr>heap := h\<rparr>) (my_free K base (heap s1))
        | None \<Rightarrow> map_sum id (\<lambda>h. s\<lparr>heap := h\<rparr>) (my_free K ptr (heap s)))"

definition calloc :: "kernel \<Rightarrow> nat \<Rightarrow> nat \<Rightarrow> shim_state \<Rightarrow> (addr \<times> shim_state) outcome" where
  "calloc K nmemb sz s =
     (if in_allocator s then
        if nmemb \<noteq> 0 \<and> sz > SIZE_MAX div nmemb then Inr (0, set_errno ENOMEM s)
        else
          let total = mul64 nmemb sz; (p, s1) = bootstrap_alloc total s
          in if p \<noteq> 0 then Inr (p, upd_heap (upd_mem (memset0 p total)) s1) else Inr (p, s1)
      else guarded (my_calloc K nmemb sz) s)"

definition realloc :: "kernel \<Rightarrow> addr \<Rightarrow> nat \<Rightarrow> shim_state \<Rightarrow> (addr \<times> shim_state) outcome" where
  "realloc K ptr sz s =
     (if ptr = 0 then malloc K sz s
      else if is_bootstrap_ptr s ptr then
        if sz = 0 then Inr (0, s)
        else
          let bhdr = bootstrap_header (mem (heap s)) (ptr - 16);
              copy_size = (if bs_magic bhdr = BOOTSTRAP_MAGIC
                           then if bs_size bhdr < sz then bs_size bhdr else sz else 0)
          in case malloc K sz s of
               Inl e \<Rightarrow> Inl e
             | Inr (new_p, s1) \<Rightarrow>
                 Inr (new_p, if new_p \<noteq> 0 \<and> copy_size > 0
                             then upd_heap (upd_mem (memcpy new_p ptr copy_size)) s1 else s1)
      else
        case is_aligned_ptr (mem (heap s)) ptr of
          Some (_, orig_req_size) \<Rightarrow>
            if sz = 0 then (case free K ptr s of Inl e \<Rightarrow> Inl e | Inr s1 \<Rightarrow> Inr (0, s1))
            else
              (case malloc K sz s of
                 Inl e \<Rightarrow> Inl e
               | Inr (new_p, s1) \<Rightarrow>
                   if new_p \<noteq> 0 then
                     let copy_size = (if orig_req_size < sz then orig_req_size else sz);
                         s2 = (if copy_size > 0 then upd_heap (upd_mem (memcpy new_p ptr copy_size)) s1 else s1)
                     in (case free K ptr s2 of Inl e \<Rightarrow> Inl e | Inr s3 \<Rightarrow> Inr (new_p, s3))
                   else Inr (new_p, s1))
        | None \<Rightarrow>
            if in_allocator s then Inr (0, s) else guarded (my_realloc K ptr sz) s)"

text \<open>A power of two as the C test sees it: \<open>(a & (a - 1)) == 0\<close> at 64 bits.\<close>

definition pow2_test :: "nat \<Rightarrow> bool" where
  "pow2_test a \<longleftrightarrow> (word_of_nat a :: 64 word) AND (word_of_nat a - 1) = 0"

text \<open>\<^verbatim>\<open>posix_memalign\<close> returns the status and the pointer it stores through \<^verbatim>\<open>memptr\<close>, if any.\<close>

definition posix_memalign ::
  "kernel \<Rightarrow> nat \<Rightarrow> nat \<Rightarrow> shim_state \<Rightarrow> (nat \<times> addr option \<times> shim_state) outcome" where
  "posix_memalign K alignment sz s =
     (if alignment < 8 \<or> \<not> pow2_test alignment then Inr (EINVAL, None, s)
      else
        let alloc_size = (if sz = 0 then alignment else sz) in
        case (if alignment \<le> ALIGNMENT then malloc K alloc_size s
              else aligned_alloc_internal K alignment alloc_size sz s) of
          Inl e \<Rightarrow> Inl e
        | Inr (p, s1) \<Rightarrow> if p = 0 then Inr (ENOMEM, None, s1) else Inr (0, Some p, s1))"

definition aligned_alloc :: "kernel \<Rightarrow> nat \<Rightarrow> nat \<Rightarrow> shim_state \<Rightarrow> (addr \<times> shim_state) outcome" where
  "aligned_alloc K alignment sz s =
     (if alignment = 0 \<or> \<not> pow2_test alignment \<or> sz mod alignment \<noteq> 0 then Inr (0, set_errno EINVAL s)
      else if sz = 0 then Inr (0, s)
      else if alignment \<le> ALIGNMENT then malloc K sz s
      else aligned_alloc_internal K alignment sz sz s)"

definition reallocarray :: "kernel \<Rightarrow> addr \<Rightarrow> nat \<Rightarrow> nat \<Rightarrow> shim_state \<Rightarrow> (addr \<times> shim_state) outcome" where
  "reallocarray K ptr nmemb sz s =
     (if nmemb \<noteq> 0 \<and> sz > SIZE_MAX div nmemb then Inr (0, set_errno ENOMEM s)
      else realloc K ptr (mul64 nmemb sz) s)"

definition malloc_usable_size :: "addr \<Rightarrow> shim_state \<Rightarrow> nat" where
  "malloc_usable_size ptr s =
     (let m = mem (heap s) in
      if ptr = 0 then 0
      else if is_bootstrap_ptr s ptr then
        let bhdr = bootstrap_header m (ptr - 16)
        in if bs_magic bhdr = BOOTSTRAP_MAGIC then bs_size bhdr else 0
      else
        case is_aligned_ptr m ptr of
          Some (_, req_size) \<Rightarrow> req_size
        | None \<Rightarrow>
            if ptr \<ge> HDR then
              if magic_header (hdr m (ptr - HDR)) = ALLOC_MAGIC_HEADER
              then requested_size (hdr m (ptr - HDR)) else 0
            else 0)"

text \<open>The callers of \<^verbatim>\<open>posix_memalign\<close>: a status other than 0 becomes \<^verbatim>\<open>errno\<close> and \<^verbatim>\<open>NULL\<close>.\<close>

definition memalign_result :: "(nat \<times> addr option \<times> shim_state) outcome \<Rightarrow> (addr \<times> shim_state) outcome" where
  "memalign_result r =
     (case r of
        Inl e \<Rightarrow> Inl e
      | Inr (ret, p, s) \<Rightarrow>
          if ret \<noteq> 0 then Inr (0, set_errno ret s)
          else Inr (case p of None \<Rightarrow> 0 | Some q \<Rightarrow> q, s))"

definition memalign :: "kernel \<Rightarrow> nat \<Rightarrow> nat \<Rightarrow> shim_state \<Rightarrow> (addr \<times> shim_state) outcome" where
  "memalign K alignment sz s =
     memalign_result (posix_memalign K (if alignment < 8 then 8 else alignment) sz s)"

definition page_size :: "int \<Rightarrow> nat" where
  "page_size pagesize = nat (if pagesize \<le> 0 then 4096 else pagesize)"

definition valloc :: "kernel \<Rightarrow> int \<Rightarrow> nat \<Rightarrow> shim_state \<Rightarrow> (addr \<times> shim_state) outcome" where
  "valloc K pagesize sz s = memalign_result (posix_memalign K (page_size pagesize) sz s)"

definition pvalloc :: "kernel \<Rightarrow> int \<Rightarrow> nat \<Rightarrow> shim_state \<Rightarrow> (addr \<times> shim_state) outcome" where
  "pvalloc K pagesize sz s =
     (let ps = page_size pagesize in
      if sz = 0 then memalign_result (posix_memalign K ps ps s)
      else if sz > sub64 SIZE_MAX ps then Inr (0, set_errno ENOMEM s)
      else memalign_result (posix_memalign K ps (mul64 (sub64 (add64 sz ps) 1 div ps) ps) s))"

end
