(* ===== verification/Kernel_Frame.thy ===== *)
theory Kernel_Frame
  imports Allocator_Facts
begin

text \<open>
  What the allocator does to the address space: the start of the data segment stays, the break
  moves only by growth the kernel grants, and every mapping that appears was granted by the kernel
  for the state the call started in. The interposition layer uses it to keep its own static buffer
  apart from the heap.
\<close>

definition granted :: "kernel \<Rightarrow> kstate \<Rightarrow> addr \<times> nat \<Rightarrow> bool" where
  "granted K k x \<longleftrightarrow> k_mmap K k (snd x) = Some (fst x) \<or> (\<exists>b n. k_mremap K k b n (snd x) = Some (fst x))"

inductive brk_step :: "kernel \<Rightarrow> kstate \<Rightarrow> kstate \<Rightarrow> bool" for K where
  grow: "k_sbrk K k n \<Longrightarrow> brk_step K k (k\<lparr>cur_brk := cur_brk k + n\<rparr>)"

inductive_cases brk_stepE: "brk_step K k k'"

definition os_step :: "kernel \<Rightarrow> kstate \<Rightarrow> kstate \<Rightarrow> bool" where
  "os_step K k k' \<longleftrightarrow> start_brk k' = start_brk k \<and>
     set (mappings k') \<subseteq> set (mappings k) \<union> {x. granted K k x} \<and>
     (\<exists>j. rtranclp (brk_step K) k j \<and> cur_brk k' = cur_brk j)"

text \<open>A call that obtains no memory, and one that only moves the break.\<close>

definition os_shrinks :: "kstate \<Rightarrow> kstate \<Rightarrow> bool" where
  "os_shrinks k k' \<longleftrightarrow> start_brk k' = start_brk k \<and> set (mappings k') \<subseteq> set (mappings k) \<and> cur_brk k' = cur_brk k"

lemma os_step_same: "os_shrinks k k' \<Longrightarrow> os_step K k k'"
  by (auto simp: os_step_def os_shrinks_def)

lemma os_step_then: "os_step K k k' \<Longrightarrow> os_shrinks k' k'' \<Longrightarrow> os_step K k k''"
  by (auto simp: os_step_def os_shrinks_def)

lemma os_shrinks_refl [simp]: "os_shrinks k k"
  by (simp add: os_shrinks_def)

lemma os_step_refl [simp]: "os_step K k k"
  by (rule os_step_same) simp

lemma brk_steps_rest: "rtranclp (brk_step K) k k' \<Longrightarrow> start_brk k' = start_brk k \<and> mappings k' = mappings k"
  by (induction rule: rtranclp_induct) (auto elim: brk_stepE)

lemma os_step_brk: "rtranclp (brk_step K) k k' \<Longrightarrow> os_step K k k'"
  using brk_steps_rest by (fastforce simp: os_step_def)

lemma sbrk_os: "sbrk K n s = (r, s') \<Longrightarrow> rtranclp (brk_step K) (os s) (os s')"
  using r_into_rtranclp [of "brk_step K", OF brk_step.grow [of K "os s" n]]
  by (auto simp: sbrk_def split: if_splits)

subsection \<open>Release and allocation\<close>

lemma free_list_remove_os: "free_list_remove K b s = Inr s' \<Longrightarrow> os s' = os s"
  by (auto simp: free_list_remove_def Let_def split: if_splits)

lemma coalesce_os:
  "coalesce_next K a s = Inr s' \<Longrightarrow> os s' = os s" "coalesce_prev K a s = Inr (c, s') \<Longrightarrow> os s' = os s"
  by (auto simp: coalesce_next_def coalesce_prev_def Let_def dest: free_list_remove_os split: if_splits sum.splits)

lemma my_free_os:
  assumes "my_free K p s = Inr s'"
  shows "os_shrinks (os s) (os s')"
  using assms
  by (auto simp: os_shrinks_def my_free_def mutex_lock_def Let_def stat_defs munmap_def dest!: coalesce_os
      split: if_splits option.splits sum.splits)

lemma ensure_break_aligned_os:
  "ensure_break_aligned K s = (ok, s') \<Longrightarrow> rtranclp (brk_step K) (os s) (os s')"
  by (auto simp: ensure_break_aligned_def Let_def dest: sbrk_os split: if_splits prod.splits)

lemma malloc_prepare_os: "malloc_prepare K s = (ok, s') \<Longrightarrow> rtranclp (brk_step K) (os s) (os s')"
  by (auto simp: malloc_prepare_def Let_def dest!: ensure_break_aligned_os split: if_splits prod.splits)

lemma malloc_grow_os:
  assumes "malloc_grow K t s = (r, s')"
  shows "rtranclp (brk_step K) (os s) (os s')"
proof -
  obtain ok s1 where p: "malloc_prepare K s = (ok, s1)" by (cases "malloc_prepare K s")
  obtain a s2 where b: "sbrk K t s1 = (a, s2)" by (cases "sbrk K t s1")
  have "os s' = os s1 \<or> os s' = os s2"
    using assms p b by (auto simp: malloc_grow_def Let_def stat_defs split: if_splits)
  then show ?thesis using malloc_prepare_os [OF p] sbrk_os [OF b] by (metis rtranclp_trans)
qed

lemma find_fit_os: "find_fit_from K t i s = Inr (b, s') \<Longrightarrow> os s' = os s"
proof (induction K t i s rule: find_fit_from.induct)
  case (1 K t i s)
  then show ?case
    by (subst (asm) (2) find_fit_from.simps)
      (auto dest: free_list_remove_os split: if_splits option.splits sum.splits)
qed

lemma free_list_insert_os [simp]: "os (free_list_insert b s) = os s"
  by (simp add: free_list_insert_def Let_def)

lemma malloc_split_os [simp]: "os (malloc_split b t s) = os s"
  by (simp add: malloc_split_def Let_def)

lemma malloc_mmap_os: "os_step K (os s) (os (snd (malloc_mmap K sz t s)))"
  by (auto simp: malloc_mmap_def mmap_def os_step_def granted_def stat_defs Let_def split: option.splits)

lemma my_malloc_os:
  assumes "my_malloc K sz s = Inr (p, s')"
  shows "os_step K (os s) (os s')"
proof (cases "sz = 0 \<or> sz > SIZE_MAX - 1024")
  case True
  then show ?thesis using assms by (auto simp: my_malloc_def split: if_splits)
next
  case False
  let ?t = "total_size_of sz" and ?s1 = "s\<lparr>alloc_mutex := True\<rparr>"
  show ?thesis
  proof (cases "?t \<ge> MMAP_THRESHOLD")
    case True
    then have "malloc_mmap K sz ?t ?s1 = (p, s')"
      using assms False by (auto simp: my_malloc_def mutex_lock_def split: if_splits)
    then show ?thesis using malloc_mmap_os [of K ?s1 sz ?t] by simp
  next
    case small: False
    then obtain b s2 where f: "free_list_find_fit K ?t ?s1 = Inr (b, s2)"
      using assms False by (auto simp: my_malloc_def mutex_lock_def Let_def split: if_splits sum.splits)
    have o2: "os s2 = os s" using f find_fit_os unfolding free_list_find_fit_def by fastforce
    show ?thesis
    proof (cases "b = 0")
      case True
      then obtain r s3 where g: "malloc_grow K ?t s2 = (r, s3)" "os s' = os s3"
        using assms False small f by (cases "malloc_grow K ?t s2")
          (auto simp: my_malloc_def mutex_lock_def Let_def malloc_finish_def stat_defs split: if_splits option.splits)
      then show ?thesis using os_step_brk [OF malloc_grow_os [OF g(1)]] o2 by simp
    next
      case b: False
      then have "s' = snd (malloc_finish b sz (malloc_split b ?t s2))"
        using assms False small f by (auto simp: my_malloc_def mutex_lock_def Let_def split: if_splits)
      then show ?thesis using o2 by simp
    qed
  qed
qed

lemma my_calloc_os: "my_calloc K n sz s = Inr (p, s') \<Longrightarrow> os_step K (os s) (os s')"
  by (auto simp: my_calloc_def upd_mem_def Let_def dest!: my_malloc_os split: if_splits sum.splits)

subsection \<open>Reallocation\<close>

lemma realloc_mmap_os:
  assumes "realloc_mmap K h sz s = (r, s')"
  shows "os_step K (os s) (os s')" "r = Relocate old \<Longrightarrow> os s' = os s"
  using assms
  by (auto simp: realloc_mmap_def mremap_def os_step_def granted_def stat_defs Let_def split: if_splits option.splits)

lemma realloc_in_block_os: "realloc_in_block K h t e s = Inr s' \<Longrightarrow> os s' = os s"
  by (auto simp: realloc_in_block_def upd_mem_def Let_def dest!: free_list_remove_os split: if_splits sum.splits)

lemma realloc_expand_os: "realloc_expand K h t s = Inr s' \<Longrightarrow> os s' = os s"
  by (auto simp: realloc_expand_def upd_mem_def Let_def dest!: free_list_remove_os split: if_splits sum.splits)

lemma realloc_heap_os: "realloc_heap K p sz s = Inr (r, s') \<Longrightarrow> os s' = os s"
  by (auto simp: realloc_heap_def stats_resized_def stat_defs Let_def dest!: realloc_in_block_os realloc_expand_os
      split: if_splits sum.splits)

lemma my_realloc_locked_os:
  assumes "my_realloc_locked K p sz s = Inr (r, s')"
  shows "os_step K (os s) (os s')" "r = Relocate old \<Longrightarrow> os s' = os s"
  using assms realloc_mmap_os [of K "sub64 p HDR" sz "s\<lparr>alloc_mutex := True\<rparr>"]
  by (auto simp: my_realloc_locked_def mutex_lock_def Let_def dest!: realloc_heap_os
      split: if_splits option.splits)

lemma my_realloc_move_os:
  assumes "my_realloc_move K p sz old s = Inr (q, s')"
  shows "os_step K (os s) (os s')"
proof -
  from assms obtain p1 s1 where m: "my_malloc K sz s = Inr (p1, s1)"
    by (auto simp: my_realloc_move_def split: sum.splits)
  have "os s' = os s1 \<or> (\<exists>m'. my_free K p (s1\<lparr>mem := m'\<rparr>) = Inr s')"
    using assms m by (auto simp: my_realloc_move_def Let_def upd_mem_def split: if_splits sum.splits)
  then have "os_shrinks (os s1) (os s')" using my_free_os [of K p "s1\<lparr>mem := _\<rparr>" s'] by fastforce
  with my_malloc_os [OF m] show ?thesis by (rule os_step_then)
qed

lemma my_realloc_os:
  assumes "my_realloc K p sz s = Inr (q, s')"
  shows "os_step K (os s) (os s')"
proof (cases "p = 0 \<or> sz = 0 \<or> sz > SIZE_MAX - 1024")
  case True
  then show ?thesis using assms os_step_same [OF my_free_os, of K p s]
    by (auto simp: my_realloc_def dest: my_malloc_os split: if_splits sum.splits)
next
  case False
  then obtain r s1 where l: "my_realloc_locked K p sz s = Inr (r, s1)"
    using assms by (auto simp: my_realloc_def split: sum.splits)
  show ?thesis
  proof (cases r)
    case (Done a)
    then show ?thesis using assms False l my_realloc_locked_os(1) [OF l] by (simp add: my_realloc_def)
  next
    case (Relocate old)
    then have "my_realloc_move K p sz old s1 = Inr (q, s')" using assms False l by (simp add: my_realloc_def)
    then show ?thesis using my_realloc_locked_os(2) [OF l Relocate] my_realloc_move_os by fastforce
  qed
qed

end
