(* ===== verification/Shim_Correct.thy ===== *)
theory Shim_Correct
  imports Preload_Shim Kernel_Frame
begin

text \<open>
  Correctness of the interposition layer: aligned pointers are aligned, lie inside a live
  block with enough room, are recognised again and can be freed; the bootstrap buffer hands
  out disjoint pieces and never touches the heap.
\<close>

subsection \<open>Powers of two\<close>

lemma and_pred_pow2: "0 < a \<Longrightarrow> a AND (a - 1) = 0 \<Longrightarrow> \<exists>k. a = 2 ^ k" for a :: nat
proof (induction a rule: less_induct)
  case (less a)
  show ?case
  proof (cases "even a")
    case True
    then obtain b where b: "a = 2 * b" by blast
    have lt: "0 < b" "b < a" using b less.prems by auto
    have "(2 * b - 1) div 2 = b - 1" using lt(1) by (cases b) auto
    then have "a AND (a - 1) = 2 * (b AND (b - 1))"
      using lt(1) unfolding b by (subst and_nat_rec) simp
    then have "b AND (b - 1) = 0" using less.prems by simp
    then obtain k where "b = 2 ^ k" using less.IH [OF lt(2,1)] by blast
    then show ?thesis using b by (intro exI [of _ "Suc k"]) simp
  next
    case False
    then obtain b where b: "a = 2 * b + 1" by (auto elim: oddE)
    have "a AND (a - 1) = 2 * b" by (subst and_nat_rec) (simp add: b)
    then have "a = 2 ^ 0" using less.prems b by simp
    then show ?thesis by blast
  qed
qed

lemma pow2_test_iff:
  assumes "0 < a" "a < 2 ^ 64"
  shows "pow2_test a \<longleftrightarrow> (\<exists>k<64. a = 2 ^ k)"
proof
  let ?w = "word_of_nat a :: 64 word"
  have u: "unat ?w = a" using assms(2) by (simp add: unsigned_of_nat take_bit_nat_eq_self)
  then have "?w \<noteq> 0" using assms(1) by (metis unat_0 less_numeral_extra(3))
  then have u1: "unat (?w - 1) = a - 1" using u by (simp add: unat_minus_one)
  assume "pow2_test a"
  then have "unat (?w AND (?w - 1)) = 0" by (simp add: pow2_test_def)
  then have "a AND (a - 1) = 0" by (simp add: unsigned_and_eq u u1)
  then obtain k where k: "a = 2 ^ k" using and_pred_pow2 assms(1) by blast
  then have "k < 64" using assms(2) by (metis nat_power_less_imp_less one_less_numeral_iff power_inject_exp semiring_norm(76) zero_less_numeral)
  with k show "\<exists>k<64. a = 2 ^ k" by blast
next
  assume "\<exists>k<64. a = 2 ^ k"
  then obtain k where k: "k < 64" "a = 2 ^ k" by blast
  have "(2 ^ k :: 64 word) AND (2 ^ k - 1) = 0"
    by (rule bit_word_eqI) (auto simp: bit_simps mask_eq_decr_exp [symmetric])
  then show "pow2_test a" by (simp add: pow2_test_def k(2))
qed

lemma align_up_eq:
  assumes k: "k < 64" and raw: "raw + 2 ^ k \<le> 2 ^ 64"
  shows "align_up raw (2 ^ k) = (raw + (2 ^ k - 1)) div 2 ^ k * 2 ^ k"
proof -
  have m: "(word_of_nat (2 ^ k) - 1 :: 64 word) = mask k" by (simp add: mask_eq_decr_exp)
  obtain j where j: "(2::nat) ^ k = Suc j" by (metis not0_implies_Suc power_not_zero zero_neq_numeral)
  have "word_of_nat raw + word_of_nat (2 ^ k) - 1 = (word_of_nat (raw + (2 ^ k - 1)) :: 64 word)"
    unfolding j by simp
  moreover have "unat (word_of_nat (raw + (2 ^ k - 1)) :: 64 word) = raw + (2 ^ k - 1)"
  proof -
    have "raw + (2 ^ k - 1) < 2 ^ 64" using raw one_le_power [of "2::nat" k] by linarith
    then show ?thesis by (simp add: unsigned_of_nat take_bit_nat_eq_self)
  qed
  ultimately show ?thesis unfolding align_up_def m by (simp only: unat_and_not_mask)
qed

lemma align_up_bounds:
  assumes "k < 64" "raw + 2 ^ k \<le> 2 ^ 64"
  shows "raw \<le> align_up raw (2 ^ k)" "align_up raw (2 ^ k) < raw + 2 ^ k" "align_up raw (2 ^ k) mod 2 ^ k = 0"
proof -
  let ?a = "(2::nat) ^ k"
  have a: "0 < ?a" by simp
  have d: "(raw + (?a - 1)) div ?a * ?a + (raw + (?a - 1)) mod ?a = raw + (?a - 1)" by (rule div_mult_mod_eq)
  have "(raw + (?a - 1)) mod ?a < ?a" using a by simp
  then show "raw \<le> align_up raw ?a" "align_up raw ?a < raw + ?a" "align_up raw ?a mod ?a = 0"
    unfolding align_up_eq [OF assms] using d a by (linarith, linarith, simp)
qed

subsection \<open>The state between two calls\<close>

text \<open>
  The buffer is static data of the shim. It lies outside the region between the start of the data
  segment and the break: below it in a program that the shim is linked into, above it when the
  shim is a preloaded shared object, whose data the loader maps away from the heap. The kernel
  respects it like any mapped memory: it places no mapping over it, and it refuses to grow the
  break into it. Between two calls the flag of the thread is down.
\<close>

definition buffer :: "shim_state \<Rightarrow> addr \<times> nat" where
  "buffer s = (bootstrap_buf s, BOOTSTRAP_BUF_SIZE)"

definition reserves :: "kernel \<Rightarrow> addr \<Rightarrow> bool" where
  "reserves K buf \<longleftrightarrow>
     (\<forall>k n. k_sbrk K k n \<longrightarrow> cur_brk k \<le> buf \<longrightarrow> cur_brk k + n \<le> buf) \<and>
     (\<forall>k x. granted K k x \<longrightarrow> apart x (buf, BOOTSTRAP_BUF_SIZE))"

definition shim_inv :: "shim_state \<Rightarrow> bool" where
  "shim_inv s \<longleftrightarrow> heap_inv (heap s) \<and> \<not> in_allocator s \<and> 0 < bootstrap_buf s \<and>
     (bootstrap_buf s + BOOTSTRAP_BUF_SIZE \<le> start_brk (os (heap s)) \<or>
      cur_brk (os (heap s)) \<le> bootstrap_buf s) \<and>
     (\<forall>x\<in>set (mappings (os (heap s))). apart x (buffer s))"

lemma reserves_brk:
  "rtranclp (brk_step K) k k' \<Longrightarrow> reserves K buf \<Longrightarrow> cur_brk k \<le> buf \<Longrightarrow> cur_brk k' \<le> buf"
  by (induction rule: rtranclp_induct) (auto simp: reserves_def elim: brk_stepE)

definition shim_view :: "shim_state \<Rightarrow> addr \<rightharpoonup> byte list" where
  "shim_view s = heap_view (heap s)"

lemma shim_inv_heap:
  assumes s: "shim_inv s" and K: "reserves K (bootstrap_buf s)" and h: "heap_inv h" "os_step K (os (heap s)) (os h)"
  shows "shim_inv (s\<lparr>heap := h\<rparr>)"
proof -
  from h(2) obtain j where j: "rtranclp (brk_step K) (os (heap s)) j" "cur_brk (os h) = cur_brk j"
    by (auto simp: os_step_def)
  have "cur_brk (os h) \<le> bootstrap_buf s" if "cur_brk (os (heap s)) \<le> bootstrap_buf s"
    using reserves_brk [OF j(1) K that] j(2) by simp
  moreover have "apart x (buffer s)" if "x \<in> set (mappings (os h))" for x
    using that s h(2) K unfolding shim_inv_def os_step_def reserves_def buffer_def by blast
  ultimately show ?thesis using s h by (auto simp: shim_inv_def os_step_def buffer_def)
qed

lemma guarded_eq:
  assumes "\<not> in_allocator s"
  shows "guarded f s = (case f (heap s) of Inl e \<Rightarrow> Inl e | Inr (p, h) \<Rightarrow> Inr (p, s\<lparr>heap := h\<rparr>))"
proof -
  have "s\<lparr>in_allocator := True, heap := h, in_allocator := False\<rparr> = s\<lparr>heap := h\<rparr>" for h
    using assms by (cases s) simp
  then show ?thesis by (simp add: guarded_def Let_def split: sum.split)
qed

text \<open>The memory of a live block is apart from the buffer.\<close>

lemma live_apart_buffer:
  assumes s: "shim_inv s" and p: "shim_view s p = Some xs" and q: "p - HDR \<le> q" "q < p + length xs + FTR"
  shows "\<not> is_bootstrap_ptr s q"
proof -
  from s obtain bs fs where wf: "wfd (heap s) bs fs {}" by (auto simp: shim_inv_def elim: heap_invE)
  from p obtain b n where b: "(b, n) \<in> al (heap s) bs {}" "p = b + HDR" "xs = payload (mem (heap s)) b"
    unfolding shim_view_def heap_view_iff [OF wf] by blast
  have len: "length xs + 64 \<le> n" using al_requested(1) [OF wf b(1)] b(3) by simp
  consider "(b, n) \<in> set bs" | "(b, n) \<in> set (mappings (os (heap s)))" using b(1) by (auto simp: al_def)
  then show ?thesis
  proof cases
    case 1
    then show ?thesis using region_block(3,4) [OF wfdD(1) [OF wf] 1] s q b(2) len
      by (auto simp: shim_inv_def is_bootstrap_ptr_def)
  next
    case 2
    then show ?thesis using s q b(2) len by (auto simp: shim_inv_def is_bootstrap_ptr_def buffer_def apart_def)
  qed
qed

text \<open>A pointer of the allocator is not taken for an aligned one: its header carries the other magic.\<close>

lemma live_hdr:
  assumes "heap_inv s" "heap_view s p = Some xs"
  shows "magic_header (hdr (mem s) (p - HDR)) = ALLOC_MAGIC_HEADER"
    "requested_size (hdr (mem s) (p - HDR)) = length xs"
proof -
  from assms(1) obtain bs fs where wf: "wfd s bs fs {}" by (rule heap_invE)
  from assms(2) obtain b n where b: "(b, n) \<in> al s bs {}" "p = b + HDR" "xs = payload (mem s) b"
    unfolding heap_view_iff [OF wf] by blast
  show "magic_header (hdr (mem s) (p - HDR)) = ALLOC_MAGIC_HEADER"
    "requested_size (hdr (mem s) (p - HDR)) = length xs"
    using al_requested(3) [OF wf b(1)] b by (auto simp: tags_ok_def)
qed

lemma live_not_aligned:
  assumes "heap_inv s" "heap_view s p = Some xs"
  shows "is_aligned_ptr (mem s) p = None"
proof -
  have "ah_magic (aligned_header (mem s) (p - HDR)) = ALLOC_MAGIC_HEADER"
    using live_hdr(1) [OF assms] by (simp add: aligned_header_def hdr_def)
  then show ?thesis by (simp add: is_aligned_ptr_def Let_def magic_defs ALIGNED_BLOCK_MAGIC_def)
qed

subsection \<open>Pointers of the allocator through the shim\<close>

definition shim_ok :: "addr \<Rightarrow> shim_state \<Rightarrow> bool" where
  "shim_ok buf s \<longleftrightarrow> shim_inv s \<and> bootstrap_buf s = buf"

lemma shim_okD:
  assumes "shim_ok buf s"
  shows "heap_inv (heap s)" "\<not> in_allocator s" "bootstrap_buf s = buf" "shim_inv s"
  using assms by (auto simp: shim_ok_def shim_inv_def)

lemma shim_ok_heap:
  assumes "shim_ok buf s" "reserves K buf" "heap_inv h" "os_step K (os (heap s)) (os h)"
  shows "shim_ok buf (s\<lparr>heap := h\<rparr>)"
  using assms shim_inv_heap by (simp add: shim_ok_def)

lemma malloc_ok:
  assumes K: "kernel_ok K" "reserves K buf" and s: "shim_ok buf s"
  shows "\<exists>p h. malloc K n s = Inr (p, s\<lparr>heap := h\<rparr>) \<and> allocates n (heap s) p h \<and> shim_ok buf (s\<lparr>heap := h\<rparr>)"
proof -
  from my_malloc_ok [OF K(1) shim_okD(1) [OF s], of n] obtain p h where
    m: "my_malloc K n (heap s) = Inr (p, h)" "allocates n (heap s) p h" by blast
  have "malloc K n s = Inr (p, s\<lparr>heap := h\<rparr>)" using shim_okD(2) [OF s] m(1) by (simp add: malloc_def guarded_eq)
  moreover have "heap_inv h" using m(2) by (simp add: allocates_def)
  ultimately show ?thesis using m(2) my_malloc_os [OF m(1)] shim_ok_heap [OF s K(2)] by blast
qed

lemma calloc_ok:
  assumes K: "kernel_ok K" "reserves K buf" and s: "shim_ok buf s"
  shows "\<exists>p h. calloc K k n s = Inr (p, s\<lparr>heap := h\<rparr>) \<and> allocates (k * n) (heap s) p h \<and>
    (p \<noteq> 0 \<longrightarrow> heap_view h p = Some (replicate (k * n) 0)) \<and> shim_ok buf (s\<lparr>heap := h\<rparr>)"
proof -
  from my_calloc_ok [OF K(1) shim_okD(1) [OF s], of k n] obtain p h where
    m: "my_calloc K k n (heap s) = Inr (p, h)" "allocates (k * n) (heap s) p h"
      "p \<noteq> 0 \<longrightarrow> heap_view h p = Some (replicate (k * n) 0)" by blast
  have "calloc K k n s = Inr (p, s\<lparr>heap := h\<rparr>)" using shim_okD(2) [OF s] m(1) by (simp add: calloc_def guarded_eq)
  moreover have "heap_inv h" using m(2) by (simp add: allocates_def)
  ultimately show ?thesis using m(2,3) my_calloc_os [OF m(1)] shim_ok_heap [OF s K(2)] by blast
qed

lemma live_shim:
  assumes s: "shim_ok buf s" and p: "shim_view s p = Some xs"
  shows "p \<noteq> 0" "\<not> is_bootstrap_ptr s p" "is_aligned_ptr (mem (heap s)) p = None"
  using view_bounds(1) [OF shim_okD(1) [OF s], of p xs] live_apart_buffer [OF shim_okD(4) [OF s] p, of p]
    live_not_aligned [OF shim_okD(1) [OF s], of p xs] p by (auto simp: shim_view_def)

lemma free_live:
  assumes s: "shim_ok buf s" and p: "shim_view s p = Some xs"
  shows "free K p s = map_sum id (\<lambda>h. s\<lparr>heap := h\<rparr>) (my_free K p (heap s))"
  using live_shim [OF s p] by (simp add: free_def)

lemma free_ok:
  assumes K: "kernel_ok K" "reserves K buf" and s: "shim_ok buf s" and p: "shim_view s p = Some xs"
  shows "\<exists>h. free K p s = Inr (s\<lparr>heap := h\<rparr>) \<and> my_free K p (heap s) = Inr h \<and> releases p xs (heap s) h \<and>
    shim_ok buf (s\<lparr>heap := h\<rparr>)"
proof -
  from my_free_ok [OF K(1) shim_okD(1) [OF s]] p obtain h where
    f: "my_free K p (heap s) = Inr h" "releases p xs (heap s) h" by (auto simp: shim_view_def)
  have "free K p s = Inr (s\<lparr>heap := h\<rparr>)" using f(1) free_live [OF s p] by simp
  moreover have "heap_inv h" using f(2) by (simp add: releases_def)
  ultimately show ?thesis using f os_step_same [OF my_free_os [OF f(1)]] shim_ok_heap [OF s K(2)] by blast
qed

lemma realloc_live:
  assumes s: "shim_ok buf s" and p: "shim_view s p = Some xs"
  shows "realloc K p n s =
    (case my_realloc K p n (heap s) of Inl e \<Rightarrow> Inl e | Inr (q, h) \<Rightarrow> Inr (q, s\<lparr>heap := h\<rparr>))"
  using live_shim [OF s p] shim_okD(2) [OF s] by (simp add: realloc_def guarded_eq)

lemma realloc_ok:
  assumes K: "kernel_ok K" "reserves K buf" and s: "shim_ok buf s" and p: "shim_view s p = Some xs" and n: "0 < n"
  shows "\<exists>q h. realloc K p n s = Inr (q, s\<lparr>heap := h\<rparr>) \<and> reallocates p xs n (heap s) q h \<and>
    shim_ok buf (s\<lparr>heap := h\<rparr>)"
proof -
  have "heap_view (heap s) p = Some xs" using p by (simp add: shim_view_def)
  from my_realloc_ok [OF K(1) shim_okD(1) [OF s] this n] obtain q h where
    r: "my_realloc K p n (heap s) = Inr (q, h)" "reallocates p xs n (heap s) q h" by blast
  have "realloc K p n s = Inr (q, s\<lparr>heap := h\<rparr>)" using r(1) realloc_live [OF s p] by simp
  moreover have "heap_inv h" using r(2) by (simp add: reallocates_def)
  ultimately show ?thesis using r(2) my_realloc_os [OF r(1)] shim_ok_heap [OF s K(2)] by blast
qed

text \<open>A store of the caller inside a live payload.\<close>

definition shim_poke :: "addr \<Rightarrow> byte list \<Rightarrow> shim_state \<Rightarrow> shim_state" where
  "shim_poke a ys s = upd_heap (poke a ys) s"

lemma shim_poke_ok:
  assumes s: "shim_ok buf s" and p: "shim_view s p = Some xs" and i: "i + length ys \<le> length xs"
  shows "shim_ok buf (shim_poke (p + i) ys s) \<and>
    shim_view (shim_poke (p + i) ys s) = (shim_view s)(p \<mapsto> take i xs @ ys @ drop (i + length ys) xs)"
  using poke_view [OF shim_okD(1) [OF s] _ i] p s
  by (auto simp: shim_view_def shim_poke_def shim_ok_def shim_inv_def buffer_def poke_def)

text \<open>The shim's functions implement the interface of the allocator.\<close>

interpretation shim: heap_allocator
  "\<lambda>K. kernel_ok K \<and> reserves K buf" "shim_ok buf" shim_view malloc calloc realloc free shim_poke for buf
proof (unfold_locales, goal_cases)
  case (1 s)
  then show ?case using heap_view_null shim_okD(1) by (simp add: shim_view_def)
next
  case (2 e s n)
  then show ?case using malloc_ok [of e buf s n] outcome_payload(1) by (fastforce simp: shim_view_def)
next
  case (3 e s k n)
  then show ?case using calloc_ok [of e buf s k n] outcome_payload(1) by (fastforce simp: shim_view_def)
next
  case (4 e s p xs n)
  then show ?case using realloc_ok [of e buf s p xs n] outcome_payload(2) by (fastforce simp: shim_view_def)
next
  case (5 e n s)
  then show ?case by (simp add: realloc_def)
next
  case (6 e s p xs)
  then show ?case
    using realloc_live [OF 6(2,3), of e 0] free_live [OF 6(2,3), of e] live_shim(1) [OF 6(2,3)]
    by (auto simp: my_realloc_def split: sum.split)
next
  case (7 e s p xs)
  then show ?case using free_ok [of e buf s p xs] by (fastforce simp: shim_view_def releases_def)
next
  case (8 e s)
  then show ?case by (simp add: free_def)
next
  case (9 s p xs i ys)
  then show ?case using shim_poke_ok by blast
qed

end
