(* ===== verification/Shim_Aligned.thy ===== *)
theory Shim_Aligned
  imports Shim_Correct
begin

text \<open>
  Aligned pointers: \<^verbatim>\<open>aligned_alloc_internal\<close> returns an aligned pointer inside a fresh live
  block with a marker in front of it; the marker is recognised by \<^verbatim>\<open>free\<close>, \<^verbatim>\<open>realloc\<close> and
  \<^verbatim>\<open>malloc_usable_size\<close>.
\<close>

text \<open>
  \<open>p\<close> is an aligned pointer for \<open>req\<close> bytes inside the live block of \<open>base\<close>.
\<close>

definition aligned_in :: "shim_state \<Rightarrow> addr \<Rightarrow> nat \<Rightarrow> addr \<Rightarrow> bool" where
  "aligned_in s p req base \<longleftrightarrow>
     is_aligned_ptr (mem (heap s)) p = Some (base - HDR, req) \<and>
     (case shim_view s base of None \<Rightarrow> False | Some xs \<Rightarrow> base + HDR \<le> p \<and> p + req \<le> base + length xs)"

lemma put_aligned_header_simps:
  "aligned_header (put_aligned_header a off req m) a =
     \<lparr>ah_magic = ALIGNED_BLOCK_MAGIC, ah_offset = off mod 2 ^ 64, ah_requested_size = req mod 2 ^ 64\<rparr>"
  "x < a \<or> a + 24 \<le> x \<Longrightarrow> put_aligned_header a off req m x = m x"
  by (auto simp: aligned_header_def put_aligned_header_def mem_simps wr_outside ALIGNED_BLOCK_MAGIC_def)

lemma is_aligned_after_put:
  assumes p: "HDR < base" "base + HDR \<le> p" "p < 2 ^ 64" "p mod 8 = 0" "req < 2 ^ 64" "off = p - (base - HDR)"
    and m: "magic_header (hdr m (base - HDR)) = ALLOC_MAGIC_HEADER"
  shows "is_aligned_ptr (put_aligned_header (p - HDR) off req m) p = Some (base - HDR, req)"
proof -
  let ?m = "put_aligned_header (p - HDR) off req m"
  have ah: "aligned_header ?m (p - HDR) =
      \<lparr>ah_magic = ALIGNED_BLOCK_MAGIC, ah_offset = off, ah_requested_size = req\<rparr>"
    using p by (simp add: put_aligned_header_simps)
  have "hdr ?m (base - HDR) = hdr m (base - HDR)"
    using p by (intro hdr_cong) (auto intro!: put_aligned_header_simps(2))
  moreover have "p - off = base - HDR" "HDR + 8 \<le> off" "off \<le> p" using p by auto
  ultimately show ?thesis using p(1-4) m by (simp add: is_aligned_ptr_def ah)
qed

lemma shim_write:
  assumes s: "shim_ok buf s" and p: "shim_view s p = Some xs"
    and same: "\<And>x. x < p \<or> p + length xs \<le> x \<Longrightarrow> f (mem (heap s)) x = mem (heap s) x"
  shows "shim_ok buf (upd_heap (upd_mem f) s)"
    "\<exists>ys. length ys = length xs \<and> shim_view (upd_heap (upd_mem f) s) = (shim_view s)(p \<mapsto> ys)"
proof -
  have v: "heap_view (heap s) p = Some xs" using p by (simp add: shim_view_def)
  note W = view_write [OF shim_okD(1) [OF s] v, of "f (mem (heap s))", OF same]
  show "shim_ok buf (upd_heap (upd_mem f) s)"
    using s W(1) by (auto simp: shim_ok_def shim_inv_def buffer_def upd_mem_def)
  show "\<exists>ys. length ys = length xs \<and> shim_view (upd_heap (upd_mem f) s) = (shim_view s)(p \<mapsto> ys)"
    using W(2) by (intro exI [of _ "map (f (mem (heap s))) [p..<p + length xs]"]) (simp add: shim_view_def upd_mem_def)
qed

text \<open>The marker written into a fresh block of \<open>n + 2 ^ k + HDR\<close> bytes.\<close>

lemma place_aligned:
  assumes s: "shim_ok buf s" and v: "shim_view s base = Some xs" and len: "length xs = n + 2 ^ k + HDR"
    and k: "4 < k" "k < 64" and r: "req \<le> n"
    and p: "p = align_up (base + HDR) (2 ^ k)" and off: "off = sub64 p (sub64 base HDR)"
    and s': "s' = upd_heap (upd_mem (put_aligned_header (p - HDR) off req)) s"
  shows "shim_ok buf s'" "\<exists>ys. shim_view s' = (shim_view s)(base \<mapsto> ys) \<and> length ys = length xs"
    "p mod 2 ^ k = 0" "0 < p" "p + n \<le> base + length xs" "aligned_in s' p req base"
proof -
  have vh: "heap_view (heap s) base = Some xs" using v by (simp add: shim_view_def)
  note B = view_bounds [OF shim_okD(1) [OF s] vh]
  have raw: "base + HDR + 2 ^ k \<le> 2 ^ 64" using B(3) len by simp
  note P = align_up_bounds [OF k(2) raw, folded p]
  have p64: "p < 2 ^ 64" using P(2) raw by linarith
  have "8 dvd (2::nat) ^ k" using k(1) le_imp_power_dvd [of 3 k "2::nat"] by simp
  then have p8: "p mod 8 = 0" using P(3) by (meson dvd_trans mod_0_imp_dvd dvd_imp_mod_0)
  have off': "off = p - (base - HDR)" using P(1) p64 B(1,4) by (simp add: off sub64_no_wrap)
  have same: "put_aligned_header (p - HDR) off req m x = m x" if "x < base \<or> base + length xs \<le> x" for m x
    using that P(1,2) len by (intro put_aligned_header_simps(2)) auto
  note W = shim_write [OF s v, of "put_aligned_header (p - HDR) off req", OF same, folded s']
  show "shim_ok buf s'" by (rule W(1))
  show "\<exists>ys. shim_view s' = (shim_view s)(base \<mapsto> ys) \<and> length ys = length xs" using W(2) by auto
  then obtain ys where y: "shim_view s' = (shim_view s)(base \<mapsto> ys)" "length ys = length xs" by blast
  show "p mod 2 ^ k = 0" "0 < p" "p + n \<le> base + length xs" using P B(1) len by auto
  have "is_aligned_ptr (mem (heap s')) p = Some (base - HDR, req)"
    using is_aligned_after_put [OF B(1) P(1) p64 p8 _ off' live_hdr(1) [OF shim_okD(1) [OF s] vh], of req] r B(3) len
    by (simp add: s' upd_mem_def)
  then show "aligned_in s' p req base" using y P r len by (simp add: aligned_in_def)
qed

lemma aligned_alloc_internal_ok:
  assumes K: "kernel_ok K" "reserves K buf" and s: "shim_ok buf s"
    and k: "4 < k" "k < 64" and r: "req \<le> n"
  shows "\<exists>p s'. aligned_alloc_internal K (2 ^ k) n req s = Inr (p, s') \<and> shim_ok buf s' \<and>
    (if p = 0 then shim_view s' = shim_view s
     else p mod 2 ^ k = 0 \<and> (\<exists>base ys. shim_view s base = None \<and> shim_view s' = (shim_view s)(base \<mapsto> ys) \<and>
       p + n \<le> base + length ys \<and> aligned_in s' p req base))"
proof -
  let ?a = "(2::nat) ^ k"
  have a: "32 \<le> ?a" "?a \<le> 2 ^ 63" using power_increasing [of 5 k "2::nat"] power_increasing [of k 63 "2::nat"] k by auto
  have lim: "sub64 (sub64 SIZE_MAX ?a) HDR = SIZE_MAX - ?a - HDR"
    using a by (simp add: sub64_no_wrap SIZE_MAX_def)
  show ?thesis
  proof (cases "n > SIZE_MAX - ?a - HDR")
    case True
    then show ?thesis using s lim
      by (auto simp: aligned_alloc_internal_def set_errno_def shim_ok_def shim_inv_def buffer_def shim_view_def)
  next
    case False
    let ?t = "n + ?a + HDR"
    have t: "add64 (add64 n ?a) HDR = ?t" using False a by (simp add: add64_no_wrap SIZE_MAX_def)
    from malloc_ok [OF K s, of ?t] obtain base h where
      b: "malloc K ?t s = Inr (base, s\<lparr>heap := h\<rparr>)" "allocates ?t (heap s) base h" "shim_ok buf (s\<lparr>heap := h\<rparr>)" by blast
    have g: "(if in_allocator s then Inr (bootstrap_alloc ?t s) else guarded (my_malloc K ?t) s) = Inr (base, s\<lparr>heap := h\<rparr>)"
      using b(1) by (simp add: malloc_def)
    show ?thesis
    proof (cases "base = 0")
      case True
      then show ?thesis using b lim False t g
        by (simp add: aligned_alloc_internal_def allocates_def shim_view_def)
    next
      case nz: False
      with b(2) obtain xs where x: "heap_view (heap s) base = None" "length xs = ?t"
        "heap_view h = (heap_view (heap s))(base \<mapsto> xs)" by (rule allocates_fresh)
      have v: "shim_view (s\<lparr>heap := h\<rparr>) base = Some xs" using x(3) by (simp add: shim_view_def)
      define p where "p = align_up (base + HDR) ?a"
      define off where "off = sub64 p (sub64 base HDR)"
      define s' where "s' = upd_heap (upd_mem (put_aligned_header (p - HDR) off req)) (s\<lparr>heap := h\<rparr>)"
      have eq: "aligned_alloc_internal K ?a n req s = Inr (p, s')"
        using lim False t g nz by (simp add: aligned_alloc_internal_def p_def off_def s'_def Let_def)
      note P = place_aligned [OF b(3) v x(2) k r p_def off_def s'_def]
      from P(2) obtain ys where "shim_view s' = (shim_view s)(base \<mapsto> ys)" "length ys = length xs"
        using x(3) by (auto simp: shim_view_def)
      moreover have "shim_view s base = None" using x(1) by (simp add: shim_view_def)
      ultimately have "\<exists>base ys. shim_view s base = None \<and> shim_view s' = (shim_view s)(base \<mapsto> ys) \<and>
          p + n \<le> base + length ys \<and> aligned_in s' p req base" using P(5,6) by metis
      then show ?thesis using eq P(1,3,4) by simp
    qed
  qed
qed

subsection \<open>Release of an aligned pointer\<close>

lemma aligned_in_not_bootstrap:
  assumes s: "shim_ok buf s" and p: "aligned_in s p req base" and v: "shim_view s base = Some xs"
  shows "p \<noteq> 0" "\<not> is_bootstrap_ptr s p" "\<not> is_bootstrap_ptr s base" "HDR < base" "base + HDR \<le> p" "p + req \<le> base + length xs"
proof -
  have "heap_view (heap s) base = Some xs" using v by (simp add: shim_view_def)
  note B = view_bounds [OF shim_okD(1) [OF s] this]
  show p: "p \<noteq> 0" "HDR < base" "base + HDR \<le> p" "p + req \<le> base + length xs" using p v B(1) by (auto simp: aligned_in_def)
  show "\<not> is_bootstrap_ptr s p" "\<not> is_bootstrap_ptr s base"
    using live_apart_buffer [OF shim_okD(4) [OF s] v] p by auto
qed

lemma free_aligned:
  assumes K: "kernel_ok K" "reserves K buf" and s: "shim_ok buf s"
    and p: "aligned_in s p req base" and v: "shim_view s base = Some xs"
  shows "\<exists>s'. free K p s = Inr s' \<and> shim_ok buf s' \<and> shim_view s' = (shim_view s)(base := None)"
proof -
  note N = aligned_in_not_bootstrap [OF s p v]
  let ?f = "wr 4 (p - HDR) 0" and ?s1 = "upd_heap (upd_mem (wr 4 (p - HDR) 0)) s"
  have "?f m x = m x" if "x < base \<or> base + length xs \<le> x" for m x
    using that N(5,6) by (intro wr_outside) auto
  note W = shim_write [OF s v, of ?f, OF this]
  from W(2) obtain ys where y: "length ys = length xs" "shim_view ?s1 = (shim_view s)(base \<mapsto> ys)" by blast
  then have "shim_view ?s1 base = Some ys" by simp
  from free_ok [OF K W(1) this] obtain h where
    h: "my_free K base (heap ?s1) = Inr h" "releases base ys (heap ?s1) h" "shim_ok buf (?s1\<lparr>heap := h\<rparr>)" by blast
  have "free K p s = Inr (?s1\<lparr>heap := h\<rparr>)"
    using N h(1) p by (simp add: free_def aligned_in_def)
  moreover have "shim_view (?s1\<lparr>heap := h\<rparr>) = (shim_view s)(base := None)"
    using h(2) y(2) by (simp add: releases_def shim_view_def)
  ultimately show ?thesis using h(3) by blast
qed

subsection \<open>Reallocation of an aligned pointer\<close>

lemma view_same_bytes:
  assumes "heap_inv s" "heap_view s b = Some xs" "heap_inv s'" "heap_view s' b = Some xs" "b \<le> x" "x < b + length xs"
  shows "mem s' x = mem s x"
  using view_bytes [OF assms(1,2), of "x - b"] view_bytes [OF assms(3,4), of "x - b"] assms(5,6) by simp

text \<open>An aligned pointer stays one as long as its block keeps its bytes.\<close>

lemma aligned_in_frame:
  assumes s: "shim_ok buf s" and p: "aligned_in s p req base" and v: "shim_view s base = Some xs"
    and s': "shim_ok buf s'" and v': "shim_view s' base = Some xs"
  shows "aligned_in s' p req base"
proof -
  note N = aligned_in_not_bootstrap [OF s p v]
  note i = shim_okD(1) [OF s] and i' = shim_okD(1) [OF s']
  note w = v [unfolded shim_view_def] and w' = v' [unfolded shim_view_def]
  have "mem (heap s') x = mem (heap s) x" if "x \<in> {p - HDR..<p - HDR + 24}" for x
    using view_same_bytes [OF i w i' w', of x] that N by auto
  then have ah: "aligned_header (mem (heap s')) (p - HDR) = aligned_header (mem (heap s)) (p - HDR)"
    by (auto simp: aligned_header_def intro!: rd_cong)
  have "is_aligned_ptr (mem (heap s')) p = is_aligned_ptr (mem (heap s)) p"
    using p live_hdr(1) [OF i w] live_hdr(1) [OF i' w']
    by (auto simp: aligned_in_def is_aligned_ptr_def ah Let_def split: if_splits)
  then show ?thesis using p v v' by (simp add: aligned_in_def)
qed

lemma memcpy_none [simp]: "memcpy q p 0 m = m"
  by (auto simp: memcpy_def fun_eq_iff)

text \<open>The bytes copied from an aligned pointer into another live block are those it had.\<close>

lemma copied_bytes:
  assumes s: "shim_ok buf s" and p: "aligned_in s p req base" and v: "shim_view s base = Some xs"
    and s1: "shim_ok buf s1" "shim_view s1 base = Some xs"
    and s2: "s2 = upd_heap (upd_mem (memcpy q p k)) s1" "shim_ok buf s2" "shim_view s2 q = Some ys"
    and k: "k \<le> req" "k \<le> length ys"
  shows "take k ys = map (mem (heap s)) [p..<p + k]"
proof -
  note N = aligned_in_not_bootstrap [OF s p v]
  have "ys ! i = mem (heap s) (p + i)" if i: "i < k" for i
  proof -
    have "ys ! i = mem (heap s2) (q + i)"
      using view_bytes [OF shim_okD(1) [OF s2(2)], of q ys i] s2(3) i k by (simp add: shim_view_def)
    also have "\<dots> = mem (heap s1) (p + i)" using i by (simp add: s2(1) upd_mem_def memcpy_def)
    also have "\<dots> = mem (heap s) (p + i)"
      using view_same_bytes [OF shim_okD(1) [OF s], of base xs "heap s1" "p + i"] shim_okD(1) [OF s1(1)] v s1(2) N i k
      by (simp add: shim_view_def)
    finally show ?thesis .
  qed
  then show ?thesis using k by (intro nth_equalityI) auto
qed

lemma realloc_aligned:
  assumes K: "kernel_ok K" "reserves K buf" and s: "shim_ok buf s" and n: "0 < n"
    and p: "aligned_in s p req base" and v: "shim_view s base = Some xs"
  shows "\<exists>q s'. realloc K p n s = Inr (q, s') \<and> shim_ok buf s' \<and>
    (if q = 0 then shim_view s' = shim_view s \<and> aligned_in s' p req base
     else shim_view s q = None \<and> (\<exists>ys. length ys = n \<and> shim_view s' = (shim_view s)(base := None, q \<mapsto> ys) \<and>
       take (min req n) ys = map (mem (heap s)) [p..<p + min req n]))"
proof -
  note N = aligned_in_not_bootstrap [OF s p v]
  from malloc_ok [OF K s, of n] obtain q h where
    m: "malloc K n s = Inr (q, s\<lparr>heap := h\<rparr>)" "allocates n (heap s) q h" "shim_ok buf (s\<lparr>heap := h\<rparr>)" by blast
  let ?s1 = "s\<lparr>heap := h\<rparr>"
  have a: "is_aligned_ptr (mem (heap s)) p = Some (base - HDR, req)" using p by (simp add: aligned_in_def)
  show ?thesis
  proof (cases "q = 0")
    case True
    then have vw: "shim_view ?s1 = shim_view s" using m(2) by (simp add: allocates_def shim_view_def)
    have "realloc K p n s = Inr (0, ?s1)" using N a n m(1) True by (simp add: realloc_def)
    then show ?thesis using True m(3) vw aligned_in_frame [OF s p v m(3)] v by simp
  next
    case False
    with m(2) obtain zs where z: "heap_view (heap s) q = None" "length zs = n" "heap_view h = (heap_view (heap s))(q \<mapsto> zs)"
      by (rule allocates_fresh)
    have qb: "q \<noteq> base" using z(1) v by (auto simp: shim_view_def)
    have v1: "shim_view ?s1 base = Some xs" "shim_view ?s1 q = Some zs" "shim_view s q = None"
      using z v qb by (simp_all add: shim_view_def)
    let ?k = "min req n"
    define s2 where "s2 = upd_heap (upd_mem (memcpy q p ?k)) ?s1"
    have "memcpy q p ?k m x = m x" if "x < q \<or> q + length zs \<le> x" for m x
      using that z(2) by (auto simp: memcpy_def)
    note W = shim_write [OF m(3) v1(2), of "memcpy q p ?k", OF this, folded s2_def]
    from W(2) obtain ys where y: "length ys = n" "shim_view s2 = (shim_view ?s1)(q \<mapsto> ys)" using z(2) by auto
    have v2: "shim_view s2 base = Some xs" using y(2) v1 qb by simp
    note al = aligned_in_frame [OF m(3) aligned_in_frame [OF s p v m(3) v1(1)] v1(1) W(1) v2]
    from free_aligned [OF K W(1) al v2] obtain s3 where
      f: "free K p s2 = Inr s3" "shim_ok buf s3" "shim_view s3 = (shim_view s2)(base := None)" by blast
    have s2: "s2 = (if (if req < n then req else n) > 0
        then upd_heap (upd_mem (memcpy q p (if req < n then req else n))) ?s1 else ?s1)"
      using n by (auto simp: s2_def upd_mem_def min_def)
    have eq: "realloc K p n s = Inr (q, s3)" using N a n m(1) False f(1) s2 by (simp add: realloc_def Let_def)
    have "take ?k ys = map (mem (heap s)) [p..<p + ?k]"
      using copied_bytes [OF s p v m(3) v1(1) s2_def W(1)] y by simp
    moreover have "shim_view s3 = (shim_view s)(base := None, q \<mapsto> ys)"
      using f(3) y(2) z(3) qb by (auto simp: shim_view_def fun_upd_twist)
    ultimately show ?thesis using eq f(2) False v1(3) y(1) by auto
  qed
qed

subsection \<open>Sizes and the memalign family\<close>

lemma usable_live:
  assumes s: "shim_ok buf s" and p: "shim_view s p = Some xs"
  shows "malloc_usable_size p s = length xs"
proof -
  have v: "heap_view (heap s) p = Some xs" using p by (simp add: shim_view_def)
  show ?thesis
    using live_shim [OF s p] live_hdr [OF shim_okD(1) [OF s] v] view_bounds(1) [OF shim_okD(1) [OF s] v]
    by (simp add: malloc_usable_size_def Let_def)
qed

lemma usable_aligned:
  assumes s: "shim_ok buf s" and p: "aligned_in s p req base"
  shows "malloc_usable_size p s = req"
proof -
  from p obtain xs where "shim_view s base = Some xs" by (auto simp: aligned_in_def split: option.splits)
  from aligned_in_not_bootstrap [OF s p this] p show ?thesis
    by (simp add: malloc_usable_size_def Let_def aligned_in_def)
qed

text \<open>
  \<open>p\<close> is a pointer for at least \<open>n\<close> bytes in a block that was not live before; freeing it brings
  the view back.
\<close>

definition fresh_for :: "kernel \<Rightarrow> addr \<Rightarrow> nat \<Rightarrow> shim_state \<Rightarrow> addr \<Rightarrow> shim_state \<Rightarrow> bool" where
  "fresh_for K buf n s p s' \<longleftrightarrow>
     n \<le> malloc_usable_size p s' \<and>
     (\<exists>base ys. shim_view s base = None \<and> shim_view s' = (shim_view s)(base \<mapsto> ys) \<and>
        base \<le> p \<and> p + n \<le> base + length ys) \<and>
     (\<exists>s''. free K p s' = Inr s'' \<and> shim_ok buf s'' \<and> shim_view s'' = shim_view s)"

lemma fresh_for_malloc:
  assumes K: "kernel_ok K" "reserves K buf" and s: "shim_ok buf s'" and n: "n \<le> length xs"
    and p: "shim_view s p = None" "shim_view s' = (shim_view s)(p \<mapsto> xs)"
  shows "fresh_for K buf n s p s'"
proof -
  have v: "shim_view s' p = Some xs" using p(2) by simp
  from free_ok [OF K s v] obtain h where "free K p s' = Inr (s'\<lparr>heap := h\<rparr>)" "shim_ok buf (s'\<lparr>heap := h\<rparr>)"
    "shim_view (s'\<lparr>heap := h\<rparr>) = (shim_view s')(p := None)" by (auto simp: releases_def shim_view_def)
  moreover have "(shim_view s')(p := None) = shim_view s" using p by (simp add: fun_upd_idem)
  moreover have "\<exists>base ys. shim_view s base = None \<and> shim_view s' = (shim_view s)(base \<mapsto> ys) \<and>
      base \<le> p \<and> p + n \<le> base + length ys" using p n by (intro exI [of _ p] exI [of _ xs]) simp
  ultimately show ?thesis using usable_live [OF s v] n unfolding fresh_for_def by metis
qed

lemma fresh_for_aligned:
  assumes K: "kernel_ok K" "reserves K buf" and s: "shim_ok buf s'" and p: "aligned_in s' p n base"
    and v: "shim_view s base = None" "shim_view s' = (shim_view s)(base \<mapsto> ys)"
  shows "fresh_for K buf n s p s'"
proof -
  have b: "shim_view s' base = Some ys" using v(2) by simp
  note N = aligned_in_not_bootstrap [OF s p b]
  have "(shim_view s')(base := None) = shim_view s" using v by (simp add: fun_upd_idem)
  then have "\<exists>s''. free K p s' = Inr s'' \<and> shim_ok buf s'' \<and> shim_view s'' = shim_view s"
    using free_aligned [OF K s p b] by simp
  moreover have "\<exists>base ys. shim_view s base = None \<and> shim_view s' = (shim_view s)(base \<mapsto> ys) \<and>
      base \<le> p \<and> p + n \<le> base + length ys" using v N by (intro exI [of _ base] exI [of _ ys]) simp
  ultimately show ?thesis using usable_aligned [OF s p] unfolding fresh_for_def by simp
qed

lemma posix_memalign_ok:
  assumes K: "kernel_ok K" "reserves K buf" and s: "shim_ok buf s" and k: "3 \<le> k" "k < 64"
  shows "\<exists>r po s'. posix_memalign K (2 ^ k) n s = Inr (r, po, s') \<and> shim_ok buf s' \<and>
    (case po of None \<Rightarrow> r = ENOMEM \<and> shim_view s' = shim_view s
     | Some p \<Rightarrow> r = 0 \<and> p \<noteq> 0 \<and> p mod 2 ^ k = 0 \<and> fresh_for K buf n s p s')"
proof -
  let ?a = "(2::nat) ^ k" and ?n = "if n = 0 then 2 ^ k else n"
  have a: "\<not> ?a < 8" "0 < ?a" "?a < 2 ^ 64" using power_increasing [of 3 k "2::nat"] power_strict_increasing [of k 64 "2::nat"] k by auto
  then have pow: "pow2_test ?a" using pow2_test_iff k(2) by blast
  have step: "posix_memalign K ?a n s =
      (case (if ?a \<le> ALIGNMENT then malloc K ?n s else aligned_alloc_internal K ?a ?n n s) of
         Inl e \<Rightarrow> Inl e | Inr (p, s1) \<Rightarrow> if p = 0 then Inr (ENOMEM, None, s1) else Inr (0, Some p, s1))"
    using a pow by (simp add: posix_memalign_def Let_def)
  show ?thesis
  proof (cases "k \<le> 4")
    case True
    then have le: "?a \<le> ALIGNMENT" "?a dvd 16"
      using power_increasing [of k 4 "2::nat"] le_imp_power_dvd [of k 4 "2::nat"] by (auto simp: ALIGNMENT_def)
    from malloc_ok [OF K s, of ?n] obtain p h where
      m: "malloc K ?n s = Inr (p, s\<lparr>heap := h\<rparr>)" "allocates ?n (heap s) p h" "shim_ok buf (s\<lparr>heap := h\<rparr>)" by blast
    let ?s' = "s\<lparr>heap := h\<rparr>"
    show ?thesis
    proof (cases "p = 0")
      case True
      then show ?thesis using step le m by (simp add: allocates_def shim_view_def)
    next
      case False
      with m(2) obtain xs where x: "heap_inv h" "heap_view (heap s) p = None" "length xs = ?n"
        "heap_view h = (heap_view (heap s))(p \<mapsto> xs)" by (rule allocates_fresh)
      have "fresh_for K buf n s p ?s'"
        by (rule fresh_for_malloc [OF K m(3), of _ xs]) (use x in \<open>auto simp: shim_view_def\<close>)
      moreover have "p mod ?a = 0" using view_bounds(2) [OF x(1), of p xs] x(4) le(2) by (metis dvd_imp_mod_0 dvd_trans fun_upd_same mod_0_imp_dvd)
      ultimately show ?thesis using step le m False by simp
    qed
  next
    case False
    then have gt: "\<not> ?a \<le> ALIGNMENT" using power_increasing [of 5 k "2::nat"] by (auto simp: ALIGNMENT_def)
    have "4 < k" "n \<le> ?n" using False by auto
    from aligned_alloc_internal_ok [OF K s this(1) k(2) this(2)] obtain p s' where
      al: "aligned_alloc_internal K ?a ?n n s = Inr (p, s')" "shim_ok buf s'"
        "if p = 0 then shim_view s' = shim_view s
         else p mod ?a = 0 \<and> (\<exists>base ys. shim_view s base = None \<and> shim_view s' = (shim_view s)(base \<mapsto> ys) \<and>
           p + ?n \<le> base + length ys \<and> aligned_in s' p n base)" by blast
    then show ?thesis using step gt fresh_for_aligned [OF K al(2)] by (auto split: if_splits)
  qed
qed

end
