(* ===== verification/Bootstrap.thy ===== *)
theory Bootstrap
  imports Shim_Correct
begin

text \<open>
  The bootstrap buffer: a bump allocator whose offset only grows, also on requests it cannot
  serve. Successive chunks are disjoint as long as the offset has not wrapped, which takes at
  least \<open>2 ^ 46\<close> requests.
\<close>

lemma bootstrap_alloc_cases:
  assumes off: "bootstrap_offset s + BOOTSTRAP_BUF_SIZE < 2 ^ 64" "bootstrap_offset s mod 16 = 0"
    and a: "bootstrap_alloc sz s = (p, s')"
  obtains (none) "p = 0" "bootstrap_offset s \<le> bootstrap_offset s'"
      "bootstrap_offset s' \<le> bootstrap_offset s + BOOTSTRAP_BUF_SIZE" "bootstrap_offset s' mod 16 = 0"
      "bootstrap_buf s' = bootstrap_buf s" "heap s' = heap s"
  | (chunk) "p = bootstrap_buf s + bootstrap_offset s + 16" "sz \<le> ALIGN sz" "ALIGN sz mod 16 = 0"
      "bootstrap_offset s' = bootstrap_offset s + 16 + ALIGN sz" "bootstrap_offset s' \<le> BOOTSTRAP_BUF_SIZE"
      "bootstrap_buf s' = bootstrap_buf s" "sz \<le> BOOTSTRAP_BUF_SIZE - 16" "ALIGN sz \<le> BOOTSTRAP_BUF_SIZE - 16"
      "heap s' = upd_mem (\<lambda>m. wr 8 (bootstrap_buf s + bootstrap_offset s + 8) sz
        (wr 8 (bootstrap_buf s + bootstrap_offset s) BOOTSTRAP_MAGIC m)) (heap s)"
proof (cases "sz > BOOTSTRAP_BUF_SIZE - 16")
  case True
  then show ?thesis using a off none by (simp add: bootstrap_alloc_def)
next
  case False
  then have sz: "sz \<le> 131056" by (simp add: BOOTSTRAP_BUF_SIZE_def)
  note A = ALIGN_bounds [of sz]
  have al: "sz \<le> ALIGN sz" "ALIGN sz mod 16 = 0" "ALIGN sz \<le> 131056" using A sz ALIGN_eq [of sz] by auto
  have "add64 16 (ALIGN sz) = 16 + ALIGN sz" using al(3) by (simp add: add64_no_wrap)
  moreover have "add64 (bootstrap_offset s) (16 + ALIGN sz) = bootstrap_offset s + 16 + ALIGN sz"
    using al(3) off(1) by (simp add: add64_no_wrap BOOTSTRAP_BUF_SIZE_def)
  moreover have "(bootstrap_offset s + 16 + ALIGN sz) mod 16 = 0" using al(2) off(2) by presburger
  ultimately show ?thesis using a none chunk False al
    by (cases "bootstrap_offset s + 16 + ALIGN sz > BOOTSTRAP_BUF_SIZE")
      (auto simp: bootstrap_alloc_def Let_def BOOTSTRAP_BUF_SIZE_def)
qed

text \<open>A sequence of requests with the chunks it was given.\<close>

fun bootstrap_seq :: "nat list \<Rightarrow> shim_state \<Rightarrow> (addr \<times> nat) list \<times> shim_state" where
  "bootstrap_seq [] s = ([], s)"
| "bootstrap_seq (n # ns) s =
     (let (p, s1) = bootstrap_alloc n s; (cs, s2) = bootstrap_seq ns s1
      in (if p = 0 then cs else (p, n) # cs, s2))"

lemma bootstrap_seq_ok:
  assumes "0 < buf" "bootstrap_buf s = buf" "bootstrap_offset s mod 16 = 0" "buf mod 16 = 0"
    "bootstrap_offset s + (length ns + 1) * BOOTSTRAP_BUF_SIZE < 2 ^ 64"
    "bootstrap_seq ns s = (cs, s')"
  shows "(\<forall>(p, n)\<in>set cs. buf + bootstrap_offset s + 16 \<le> p \<and> p + n \<le> buf + BOOTSTRAP_BUF_SIZE \<and> p mod 16 = 0) \<and>
    sorted_wrt (\<lambda>(p, n) (q, k). p + n + 16 \<le> q) cs"
  using assms(2-)
proof (induction ns arbitrary: s cs s')
  case (Cons n ns)
  obtain p s1 where a: "bootstrap_alloc n s = (p, s1)" by (cases "bootstrap_alloc n s")
  obtain ds s2 where b: "bootstrap_seq ns s1 = (ds, s2)" by (cases "bootstrap_seq ns s1")
  have cs: "cs = (if p = 0 then ds else (p, n) # ds)" using Cons.prems(5) a b by simp
  have off: "bootstrap_offset s + BOOTSTRAP_BUF_SIZE < 2 ^ 64" using Cons.prems(4) by (simp add: BOOTSTRAP_BUF_SIZE_def)
  from off Cons.prems(2) a show ?case
  proof (cases rule: bootstrap_alloc_cases)
    case none
    have "bootstrap_offset s1 + (length ns + 1) * BOOTSTRAP_BUF_SIZE < 2 ^ 64"
      using none(3) Cons.prems(4) by (simp add: algebra_simps)
    with Cons.IH [OF _ none(4) Cons.prems(3) this b] none Cons.prems(1) cs show ?thesis by force
  next
    case chunk
    have "bootstrap_offset s1 mod 16 = 0" using chunk(3,4) Cons.prems(2) by presburger
    moreover have "bootstrap_offset s1 + (length ns + 1) * BOOTSTRAP_BUF_SIZE < 2 ^ 64"
      using chunk(4,8) Cons.prems(4) by (simp add: algebra_simps BOOTSTRAP_BUF_SIZE_def)
    ultimately have ih: "(\<forall>(q, k)\<in>set ds. buf + bootstrap_offset s1 + 16 \<le> q \<and> q + k \<le> buf + BOOTSTRAP_BUF_SIZE \<and> q mod 16 = 0) \<and>
        sorted_wrt (\<lambda>(p, n) (q, k). p + n + 16 \<le> q) ds"
      using Cons.IH [OF _ _ Cons.prems(3) _ b] chunk(6) Cons.prems(1) by simp
    have p: "p \<noteq> 0" "p = buf + bootstrap_offset s + 16" "p + n \<le> buf + bootstrap_offset s1"
      using chunk(1,2,4) Cons.prems(1) by auto
    have "p mod 16 = 0" using p(2) Cons.prems(2,3) by presburger
    moreover have "p + n \<le> buf + BOOTSTRAP_BUF_SIZE" using p(3) chunk(5) by simp
    moreover have "p + n + 16 \<le> q" if "(q, k) \<in> set ds" for q k using ih that p(3) by fastforce
    moreover have "buf + bootstrap_offset s + 16 \<le> q" if "(q, k) \<in> set ds" for q k using ih that chunk(4) by fastforce
    ultimately show ?thesis using ih p cs by fastforce
  qed
qed simp

lemma bootstrap_usable:
  assumes off: "bootstrap_offset s + BOOTSTRAP_BUF_SIZE < 2 ^ 64" "bootstrap_offset s mod 16 = 0"
    and a: "bootstrap_alloc sz s = (p, s')" "p \<noteq> 0" "0 < sz" "0 < bootstrap_buf s"
  shows "is_bootstrap_ptr s' p" "malloc_usable_size p s' = sz" "free K p s' = Inr s'"
proof -
  have "is_bootstrap_ptr s' p \<and> bootstrap_header (mem (heap s')) (p - 16) = \<lparr>bs_magic = BOOTSTRAP_MAGIC, bs_size = sz\<rparr>"
    using off a(1)
  proof (cases rule: bootstrap_alloc_cases)
    case chunk
    have "bootstrap_header (mem (heap s')) (p - 16) = \<lparr>bs_magic = BOOTSTRAP_MAGIC, bs_size = sz\<rparr>"
      using chunk(1,7) by (simp add: chunk(9) upd_mem_def bootstrap_header_def mem_simps BOOTSTRAP_MAGIC_def BOOTSTRAP_BUF_SIZE_def)
    then show ?thesis using chunk a(3) by (simp add: is_bootstrap_ptr_def)
  qed (use a(2) in simp)
  then show "is_bootstrap_ptr s' p" "malloc_usable_size p s' = sz" "free K p s' = Inr s'"
    using a(2) by (simp_all add: malloc_usable_size_def free_def)
qed

end
