(* ===== verification/Shim_Theorems.thy ===== *)
theory Shim_Theorems
  imports Shim_Aligned Bootstrap
begin

text \<open>
  The properties of the interposition layer, with witnesses on a fresh process whose break is at
  1048576 and whose bootstrap buffer is at 2147483648, in the data of the shared object that the loader
  mapped above the break. There \<^verbatim>\<open>posix_memalign\<close> for 100 bytes at
  alignment 64 returns 1048704, inside the block whose payload starts at 1048624.
\<close>

subsection \<open>A concrete run\<close>

definition demo_shim :: shim_state where
  "demo_shim = \<lparr>heap = demo_boot\<lparr>os := \<lparr>start_brk = 1048576, cur_brk = 1048576, mappings = []\<rparr>\<rparr>,
     bootstrap_buf = 2147483648, bootstrap_offset = 0, in_allocator = False\<rparr>"

text \<open>
  A kernel that has mapped the data of a shared object at \<open>buf\<close>: it behaves like the given kernel on
  an address space with one more mapping. It then respects the buffer.
\<close>

definition with_image :: "addr \<Rightarrow> kstate \<Rightarrow> kstate" where
  "with_image buf k = k\<lparr>mappings := (buf, BOOTSTRAP_BUF_SIZE) # mappings k\<rparr>"

definition loaded :: "addr \<Rightarrow> kernel \<Rightarrow> kernel" where
  "loaded buf K = K\<lparr>
     k_sbrk := (\<lambda>k. k_sbrk K (with_image buf k)), k_brk := (\<lambda>k. k_brk K (with_image buf k)),
     k_mmap := (\<lambda>k. k_mmap K (with_image buf k)), k_munmap := (\<lambda>k. k_munmap K (with_image buf k)),
     k_mremap := (\<lambda>k a n n'. if (a, n) = (buf, BOOTSTRAP_BUF_SIZE) then None
                               else k_mremap K (with_image buf k) a n n')\<rparr>"

lemma with_image_simps [simp]:
  "start_brk (with_image buf k) = start_brk k" "cur_brk (with_image buf k) = cur_brk k"
  "set (mappings (with_image buf k)) = insert (buf, BOOTSTRAP_BUF_SIZE) (set (mappings k))"
  "placed (with_image buf k) = placed k"
  by (simp_all add: with_image_def placed_def fun_eq_iff)

lemma loaded_ok:
  assumes K: "kernel_ok K"
  shows "kernel_ok (loaded buf K)" "reserves (loaded buf K) buf"
proof -
  note S = kernel_okD(2,3) [OF K, where k = "with_image buf _", simplified]
  note M = kernel_okD(4,5) [OF K, where k = "with_image buf _", simplified]
  note R = kernel_okD(7-9) [OF K, where k = "with_image buf _", simplified]
  have z: "k_sbrk K k 0" for k using K by (simp add: kernel_ok_def)
  show "kernel_ok (loaded buf K)" unfolding kernel_ok_def
  proof (intro conjI allI impI)
    fix k a n n' a' assume "k_mremap (loaded buf K) k a n n' = Some a'"
    then have m: "k_mremap K (with_image buf k) a n n' = Some a'" by (auto simp: loaded_def split: if_splits)
    show "placed k a' n'" "a' = a \<or> apart (a', n') (a, n)" using R(1,2) [OF m] by simp_all
    show "\<forall>x\<in>set (mappings k). x \<noteq> (a, n) \<longrightarrow> apart (a', n') x" using R(3) [OF m] by simp
  next
    fix k n a l assume "0 < n" "k_sbrk (loaded buf K) k n" "(a, l) \<in> set (mappings k)" "cur_brk k \<le> a"
    then show "cur_brk k + n \<le> a" using S(2) [of k n a l] by (simp add: loaded_def)
  qed (use z S(1) M kernel_okD(6) [OF K] in \<open>auto simp: loaded_def\<close>)
  have "apart (a, n) (buf, BOOTSTRAP_BUF_SIZE)" if "granted (loaded buf K) k (a, n)" for k a n
    using that M(2) [of k n a "(buf, BOOTSTRAP_BUF_SIZE)"] R(3) [of k _ _ n a "(buf, BOOTSTRAP_BUF_SIZE)"]
    by (auto simp: granted_def loaded_def split: if_splits)
  moreover have "cur_brk k + n \<le> buf" if "k_sbrk (loaded buf K) k n" "cur_brk k \<le> buf" for k n
    using that S(2) [of k n buf BOOTSTRAP_BUF_SIZE] by (cases "n = 0") (auto simp: loaded_def)
  ultimately show "reserves (loaded buf K) buf" by (auto simp: reserves_def)
qed

definition demo_preload :: kernel where
  "demo_preload = loaded 2147483648 demo_kernel"

lemma demo_preload_ok: "kernel_ok demo_preload" "reserves demo_preload 2147483648"
  unfolding demo_preload_def by (rule loaded_ok [OF demo_kernel_ok])+

lemma demo_shim_boot: "boot (heap demo_shim)"
  by (simp add: boot_def demo_shim_def demo_boot_def USER_TOP_def)

lemma demo_shim_ok: "shim_ok 2147483648 demo_shim"
  using boot_inv(1) [OF demo_shim_boot] by (simp add: shim_ok_def shim_inv_def demo_shim_def BOOTSTRAP_BUF_SIZE_def)

lemma demo_shim_malloc: "\<exists>h. my_malloc demo_preload 212 (heap demo_shim) = Inr (1048624, h)"
proof -
  have t: "total_size_of 212 = 288" by (simp add: total_size_of_def ALIGN_eq add64_def)
  let ?s = "(heap demo_shim)\<lparr>alloc_mutex := True\<rparr>"
  have f: "free_list_find_fit demo_preload 288 ?s = Inr (0, ?s)"
    using find_fit_spec [of ?s "[]" "replicate NUM_SIZE_CLASSES []" "{}" demo_preload 288]
      boot_wfd [OF demo_shim_boot] demo_preload_ok(1) by simp
  then show ?thesis
    by (simp add: my_malloc_def SIZE_MAX_def t MMAP_THRESHOLD_def mutex_lock_def demo_shim_def demo_boot_def)
      (simp add: malloc_grow_def malloc_prepare_def ensure_break_aligned_def demo_preload_def loaded_def demo_kernel_def sbrk0_def
        sbrk_def ALIGNMENT_def BRK_FAILED_def SIZE_MAX_def USER_TOP_def Let_def malloc_finish_def)
qed

subsection \<open>Pointers of the allocator\<close>

definition shim_request :: "kernel \<Rightarrow> request \<Rightarrow> shim_state \<Rightarrow> (addr \<times> shim_state) outcome" where
  "shim_request K = exec_with (malloc K) (calloc K) (realloc K) (free K) shim_poke"

text \<open>
  C17. Refinement, for a bootstrap buffer below the data segment or above the break that the kernel
  keeps the heap out of: the interposed \<^verbatim>\<open>malloc\<close>, \<^verbatim>\<open>calloc\<close>, \<^verbatim>\<open>realloc\<close> and \<^verbatim>\<open>free\<close>, called from outside the
  allocator, answer every request of a correct caller without a fault and are steps of the
  same abstract allocator as the functions they wrap: the shim never takes a live pointer for
  a bootstrap chunk or for an aligned pointer.
\<close>

theorem shim_refines:
  assumes "kernel_ok K" "reserves K buf" "shim_ok buf s" "allowed (shim_view s) r"
  shows "\<exists>p s'. shim_request K r s = Inr (p, s') \<and> shim_ok buf s' \<and> serves (shim_view s) r p (shim_view s')"
  unfolding shim_request_def by (rule shim.exec_serves) (use assms in simp_all)

theorem shim_refines_witness:
  "\<exists>p s'. shim_request demo_preload (Calloc 10 20) demo_shim = Inr (p, s') \<and> shim_ok 2147483648 s' \<and>
     serves (shim_view demo_shim) (Calloc 10 20) p (shim_view s')"
  by (rule shim_refines [OF demo_preload_ok demo_shim_ok]) simp

subsection \<open>Aligned pointers\<close>

text \<open>
  C18. Round trip, under the same assumption on the buffer: for an alignment \<open>2 ^ k\<close> of at least 8, \<^verbatim>\<open>posix_memalign\<close> either reports
  \<^verbatim>\<open>ENOMEM\<close> and changes no payload, or stores a pointer that is a multiple of the alignment, with
  room for the requested bytes inside a block that was not live before and with a usable size
  of at least the request; \<^verbatim>\<open>free\<close> of that pointer returns and restores the payloads of before.
\<close>

theorem posix_memalign_correct:
  assumes "kernel_ok K" "reserves K buf" "shim_ok buf s" "3 \<le> k" "k < 64"
  shows "\<exists>r po s'. posix_memalign K (2 ^ k) n s = Inr (r, po, s') \<and> shim_ok buf s' \<and>
    (case po of
       None \<Rightarrow> r = ENOMEM \<and> shim_view s' = shim_view s
     | Some p \<Rightarrow> r = 0 \<and> p mod 2 ^ k = 0 \<and> n \<le> malloc_usable_size p s' \<and>
         (\<exists>base ys. shim_view s base = None \<and> shim_view s' = (shim_view s)(base \<mapsto> ys) \<and>
            base \<le> p \<and> p + n \<le> base + length ys) \<and>
         (\<exists>s''. free K p s' = Inr s'' \<and> shim_ok buf s'' \<and> shim_view s'' = shim_view s))"
proof -
  from posix_memalign_ok [OF assms, of n] obtain r po s' where
    "posix_memalign K (2 ^ k) n s = Inr (r, po, s')" "shim_ok buf s'"
    "case po of None \<Rightarrow> r = ENOMEM \<and> shim_view s' = shim_view s
     | Some p \<Rightarrow> r = 0 \<and> p \<noteq> 0 \<and> p mod 2 ^ k = 0 \<and> fresh_for K buf n s p s'" by blast
  then show ?thesis unfolding fresh_for_def
    by (intro exI [of _ r] exI [of _ po] exI [of _ s']) (simp split: option.splits)
qed

theorem posix_memalign_correct_witness:
  "\<exists>r po s'. posix_memalign demo_preload (2 ^ 6) 100 demo_shim = Inr (r, po, s') \<and> shim_ok 2147483648 s' \<and>
    (case po of
       None \<Rightarrow> r = ENOMEM \<and> shim_view s' = shim_view demo_shim
     | Some p \<Rightarrow> r = 0 \<and> p mod 2 ^ 6 = 0 \<and> 100 \<le> malloc_usable_size p s' \<and>
         (\<exists>base ys. shim_view demo_shim base = None \<and> shim_view s' = (shim_view demo_shim)(base \<mapsto> ys) \<and>
            base \<le> p \<and> p + 100 \<le> base + length ys) \<and>
         (\<exists>s''. free demo_preload p s' = Inr s'' \<and> shim_ok 2147483648 s'' \<and> shim_view s'' = shim_view demo_shim))"
  by (rule posix_memalign_correct [OF demo_preload_ok demo_shim_ok]) simp_all

text \<open>
  C19. Under the same assumption on the buffer, \<^verbatim>\<open>realloc\<close> of an aligned pointer to a positive size returns. If it returns \<^verbatim>\<open>NULL\<close> no payload
  changed and the pointer is still valid; otherwise the result is a pointer that was not live,
  its payload has the new size and begins with the bytes at the old pointer up to the smaller
  of the two sizes, and the old block is gone.
\<close>

theorem realloc_aligned_correct:
  assumes "kernel_ok K" "reserves K buf" "shim_ok buf s" "0 < n" "aligned_in s p req base"
  shows "\<exists>q s'. realloc K p n s = Inr (q, s') \<and> shim_ok buf s' \<and>
    (if q = 0 then shim_view s' = shim_view s \<and> aligned_in s' p req base
     else shim_view s q = None \<and> (\<exists>ys. length ys = n \<and> shim_view s' = (shim_view s)(base := None, q \<mapsto> ys) \<and>
       take (min req n) ys = map (mem (heap s)) [p..<p + min req n]))"
proof -
  from assms(5) obtain xs where "shim_view s base = Some xs" by (auto simp: aligned_in_def split: option.splits)
  from realloc_aligned [OF assms this] show ?thesis .
qed

lemma demo_aligned: "\<exists>p s. shim_ok 2147483648 s \<and> aligned_in s p 100 1048624"
proof -
  from demo_shim_malloc obtain h where h: "my_malloc demo_preload 212 (heap demo_shim) = Inr (1048624, h)" ..
  let ?s = "demo_shim\<lparr>heap := h\<rparr>"
  have g: "malloc demo_preload 212 demo_shim = Inr (1048624, ?s)"
    using h shim_okD(2) [OF demo_shim_ok] by (simp add: malloc_def guarded_eq)
  have ok: "shim_ok 2147483648 ?s" using malloc_ok [OF demo_preload_ok demo_shim_ok, of 212] g by auto
  have "allocates 212 (heap demo_shim) 1048624 h"
    using my_malloc_ok [OF demo_preload_ok(1) shim_okD(1) [OF demo_shim_ok], of 212] h by auto
  then obtain xs where "heap_view h 1048624 = Some xs" "length xs = 212" by (auto simp: allocates_def)
  then have x: "shim_view ?s 1048624 = Some xs" "length xs = 100 + 2 ^ 6 + HDR" by (simp_all add: shim_view_def)
  have k: "4 < (6::nat)" "6 < (64::nat)" "100 \<le> (100::nat)" by simp_all
  from place_aligned(1,6) [OF ok x k refl refl refl] show ?thesis by blast
qed

theorem realloc_aligned_correct_witness:
  "\<exists>p s. shim_ok 2147483648 s \<and> aligned_in s p 100 1048624 \<and>
   (\<exists>q s'. realloc demo_preload p 30 s = Inr (q, s') \<and> shim_ok 2147483648 s' \<and>
    (if q = 0 then shim_view s' = shim_view s \<and> aligned_in s' p 100 1048624
     else shim_view s q = None \<and> (\<exists>ys. length ys = 30 \<and> shim_view s' = (shim_view s)(1048624 := None, q \<mapsto> ys) \<and>
       take (min 100 30) ys = map (mem (heap s)) [p..<p + min 100 30])))"
proof -
  from demo_aligned obtain p s where a: "shim_ok 2147483648 s" "aligned_in s p 100 1048624" by blast
  have "(0::nat) < 30" by simp
  from realloc_aligned_correct [OF demo_preload_ok a(1) this a(2)] a show ?thesis by blast
qed

lemma aligned_overflow:
  assumes "k < 64" "n \<le> SIZE_MAX" "SIZE_MAX < n + 2 ^ k + HDR"
  shows "aligned_alloc_internal K (2 ^ k) n r s = Inr (0, set_errno ENOMEM s)"
proof -
  have "(2::nat) ^ k \<le> 2 ^ 63" using assms(1) by (intro power_increasing) auto
  then have "sub64 (sub64 SIZE_MAX (2 ^ k)) HDR = SIZE_MAX - (2 ^ k + HDR)" "2 ^ k + HDR \<le> SIZE_MAX"
    by (simp_all add: u64_simps SIZE_MAX_def)
  then have "sub64 (sub64 SIZE_MAX (2 ^ k)) HDR < n" using assms(3) by linarith
  then show ?thesis by (simp add: aligned_alloc_internal_def)
qed

lemma pow2_alignment:
  assumes "k < 64"
  shows "pow2_test (2 ^ k)" "2 ^ k < (8::nat) \<longleftrightarrow> k < 3" "2 ^ k \<le> ALIGNMENT \<longleftrightarrow> k \<le> 4"
proof -
  have "(2::nat) ^ k < 2 ^ 64" using assms by (intro power_strict_increasing) auto
  then show "pow2_test (2 ^ k)" using pow2_test_iff [of "2 ^ k"] assms by auto
  show "2 ^ k < (8::nat) \<longleftrightarrow> k < 3" using power_strict_increasing_iff [of "2::nat" k 3] by simp
  show "2 ^ k \<le> ALIGNMENT \<longleftrightarrow> k \<le> 4" using power_increasing_iff [of "2::nat" k 4] by (simp add: ALIGNMENT_def)
qed

text \<open>
  C20. Errors of the memalign family, in any state: \<^verbatim>\<open>posix_memalign\<close> reports \<^verbatim>\<open>EINVAL\<close>, stores nothing
  and changes nothing for an alignment that is below 8 or no power of two; \<^verbatim>\<open>aligned_alloc\<close>
  gives \<^verbatim>\<open>NULL\<close> with \<^verbatim>\<open>EINVAL\<close> for one that is no power of two or does not divide the size. For an
  alignment \<open>2 ^ k\<close> above 16 and a size whose sum with the alignment and the header exceeds
  \<^verbatim>\<open>SIZE_MAX\<close>, \<^verbatim>\<open>posix_memalign\<close> reports \<^verbatim>\<open>ENOMEM\<close> and stores nothing and \<^verbatim>\<open>aligned_alloc\<close> gives \<^verbatim>\<open>NULL\<close>
  with \<^verbatim>\<open>ENOMEM\<close>; \<^verbatim>\<open>pvalloc\<close> does so for a size that cannot be rounded up to pages and \<^verbatim>\<open>reallocarray\<close>
  for a product that overflows. In all these cases the heap is not touched.
\<close>

theorem memalign_errors:
  assumes "a < 2 ^ 64" "\<nexists>k. a = 2 ^ k" "4 < k" "k < 64" "big \<le> SIZE_MAX" "SIZE_MAX < big + 2 ^ k + HDR"
  shows "posix_memalign K a n s = Inr (EINVAL, None, s) \<and>
    aligned_alloc K a n s = Inr (0, set_errno EINVAL s) \<and>
    (b < 8 \<longrightarrow> posix_memalign K b n s = Inr (EINVAL, None, s)) \<and>
    (n mod b \<noteq> 0 \<longrightarrow> aligned_alloc K b n s = Inr (0, set_errno EINVAL s)) \<and>
    (0 < big \<longrightarrow> posix_memalign K (2 ^ k) big s = Inr (ENOMEM, None, set_errno ENOMEM s)) \<and>
    (0 < big \<longrightarrow> big mod 2 ^ k = 0 \<longrightarrow> aligned_alloc K (2 ^ k) big s = Inr (0, set_errno ENOMEM s)) \<and>
    (0 < pg \<longrightarrow> pg \<le> SIZE_MAX \<longrightarrow> SIZE_MAX < n + pg \<longrightarrow> pvalloc K (int pg) n s = Inr (0, set_errno ENOMEM s)) \<and>
    (SIZE_MAX < j * n \<longrightarrow> reallocarray K p j n s = Inr (0, set_errno ENOMEM s))"
proof -
  have "a = 0 \<or> \<not> pow2_test a" using pow2_test_iff [of a] assms by blast
  then have "posix_memalign K a n s = Inr (EINVAL, None, s)" "aligned_alloc K a n s = Inr (0, set_errno EINVAL s)"
    by (auto simp: posix_memalign_def aligned_alloc_def)
  moreover have "reallocarray K p j n s = Inr (0, set_errno ENOMEM s)" if "SIZE_MAX < j * n"
  proof -
    have nz: "j \<noteq> 0" using that by (cases j) auto
    have "SIZE_MAX div j < n" using that nz by (simp add: div_less_iff_less_mult mult.commute)
    then show ?thesis using nz by (simp add: reallocarray_def)
  qed
  moreover have "pvalloc K (int pg) n s = Inr (0, set_errno ENOMEM s)"
    if "0 < pg" "pg \<le> SIZE_MAX" "SIZE_MAX < n + pg"
    using that by (auto simp: pvalloc_def page_size_def u64_simps SIZE_MAX_def)
  moreover note pow2_alignment [OF assms(4)] aligned_overflow [OF assms(4-6)] assms(3)
  ultimately show ?thesis by (auto simp: posix_memalign_def aligned_alloc_def)
qed

lemma not_pow2_48: "\<nexists>k. (48::nat) = 2 ^ k"
proof
  assume "\<exists>k. (48::nat) = 2 ^ k"
  then obtain k where "(48::nat) = 2 ^ k" ..
  then show False using power_increasing [of k 5 "2::nat"] power_increasing [of 6 k "2::nat"]
    by (cases "k \<le> 5") auto
qed

theorem memalign_errors_witness:
  "posix_memalign demo_preload 48 100 demo_shim = Inr (EINVAL, None, demo_shim) \<and>
    aligned_alloc demo_preload 48 100 demo_shim = Inr (0, set_errno EINVAL demo_shim) \<and>
    posix_memalign demo_preload 4 100 demo_shim = Inr (EINVAL, None, demo_shim) \<and>
    posix_memalign demo_preload (2 ^ 6) 18446744073709551552 demo_shim = Inr (ENOMEM, None, set_errno ENOMEM demo_shim) \<and>
    aligned_alloc demo_preload (2 ^ 6) 18446744073709551552 demo_shim = Inr (0, set_errno ENOMEM demo_shim) \<and>
    reallocarray demo_preload 0 (2 ^ 62) 100 demo_shim = Inr (0, set_errno ENOMEM demo_shim)"
  using memalign_errors [OF _ not_pow2_48, where K = demo_preload and n = 100 and s = demo_shim and b = 4 and
      j = "2 ^ 62" and p = 0 and k = 6 and big = 18446744073709551552]
  by (simp add: SIZE_MAX_def)

subsection \<open>The bootstrap buffer\<close>

text \<open>
  C21. Safety: the chunks that a sequence of fewer than \<open>2 ^ 46\<close> requests gets from the bootstrap buffer
  (from process start, also when some of them fail) lie inside the buffer, are 16-byte aligned
  and pairwise disjoint, each separated from the next by its 16-byte header.
\<close>

theorem bootstrap_chunks_apart:
  assumes "0 < buf" "buf mod 16 = 0" "bootstrap_buf s = buf" "bootstrap_offset s = 0" "length ns < 2 ^ 46"
  shows "list_all (\<lambda>(p, n). buf + 16 \<le> p \<and> p + n \<le> buf + BOOTSTRAP_BUF_SIZE \<and> p mod 16 = 0)
      (fst (bootstrap_seq ns s)) \<and>
    sorted_wrt (\<lambda>(p, n) (q, k). p + n + 16 \<le> q) (fst (bootstrap_seq ns s))"
proof -
  have "bootstrap_offset s + (length ns + 1) * BOOTSTRAP_BUF_SIZE < 2 ^ 64"
    using assms(4,5) by (simp add: BOOTSTRAP_BUF_SIZE_def)
  from bootstrap_seq_ok [OF assms(1,3) _ assms(2) this, of "fst (bootstrap_seq ns s)" "snd (bootstrap_seq ns s)"] assms(4)
  show ?thesis by (simp add: list_all_iff)
qed

theorem bootstrap_chunks_apart_witness:
  "list_all (\<lambda>(p, n). 2147483648 + 16 \<le> p \<and> p + n \<le> 2147483648 + BOOTSTRAP_BUF_SIZE \<and> p mod 16 = 0)
      (fst (bootstrap_seq [100, 0, 200000, 7] demo_shim)) \<and>
    sorted_wrt (\<lambda>(p, n) (q, k). p + n + 16 \<le> q) (fst (bootstrap_seq [100, 0, 200000, 7] demo_shim))"
  by (rule bootstrap_chunks_apart) (simp_all add: demo_shim_def)

text \<open>
  C22. A chunk for a positive size from the bootstrap buffer is recognised again: its usable size is
  the requested one and \<^verbatim>\<open>free\<close> leaves it alone. A request for 0 bytes that exactly fills the
  buffer gets the address one past its end, which \<^verbatim>\<open>is_bootstrap_ptr\<close> does not recognise.
\<close>

theorem bootstrap_recognised:
  assumes "bootstrap_offset s \<le> BOOTSTRAP_BUF_SIZE" "bootstrap_offset s mod 16 = 0" "0 < bootstrap_buf s"
    "bootstrap_alloc sz s = (p, s')" "p \<noteq> 0"
  shows "if 0 < sz then is_bootstrap_ptr s' p \<and> malloc_usable_size p s' = sz \<and> free K p s' = Inr s'
    else is_bootstrap_ptr s' p = (bootstrap_offset s + 16 < BOOTSTRAP_BUF_SIZE)"
proof -
  have off: "bootstrap_offset s + BOOTSTRAP_BUF_SIZE < 2 ^ 64" using assms(1) by (simp add: BOOTSTRAP_BUF_SIZE_def)
  show ?thesis
  proof (cases "0 < sz")
    case True
    then show ?thesis using bootstrap_usable [OF off assms(2,4,5) True assms(3)] by simp
  next
    case False
    from off assms(2,4) show ?thesis
      by (cases rule: bootstrap_alloc_cases) (use False assms(5) in \<open>simp_all add: is_bootstrap_ptr_def\<close>)
  qed
qed

theorem bootstrap_recognised_witness:
  "\<exists>p s'. bootstrap_alloc 0 (demo_shim\<lparr>bootstrap_offset := 131056\<rparr>) = (p, s') \<and> \<not> is_bootstrap_ptr s' p"
proof -
  let ?s = "demo_shim\<lparr>bootstrap_offset := 131056\<rparr>"
  obtain p s' where a: "bootstrap_alloc 0 ?s = (p, s')" by (cases "bootstrap_alloc 0 ?s")
  have "p = 2147483648 + 131056 + 16"
    using a by (auto simp: bootstrap_alloc_def ALIGN_eq add64_def BOOTSTRAP_BUF_SIZE_def demo_shim_def Let_def)
  then have "p \<noteq> 0" by simp
  from bootstrap_recognised [of ?s 0 p s', OF _ _ _ a this] a show ?thesis
    by (simp add: BOOTSTRAP_BUF_SIZE_def demo_shim_def)
qed

end
