(* ===== verification/C_Text.thy ===== *)
theory C_Text
  imports Main "HOL-Library.Sublist"
begin

text \<open>
  The parts of the C string library the monitor uses. A C string is the list of its characters
  before the terminating zero, a \<^verbatim>\<open>char *\<close> into it is a suffix; the search functions return the
  index of the first occurrence. Decimal conversion follows \<^verbatim>\<open>strtol\<close> with base 10 for a 64-bit
  \<^verbatim>\<open>long\<close>, decimal output the \<^verbatim>\<open>printf\<close> conversions \<^verbatim>\<open>%d\<close>, \<^verbatim>\<open>%lu\<close> and \<^verbatim>\<open>%zu\<close>.
\<close>

named_theorems text_simps \<open>character classes and decimal conversion\<close>

subsection \<open>Characters\<close>

definition NUL :: char where
  "NUL = CHR 0x00"

definition crlf :: string where
  "crlf = [CHR 0x0D, CHR 0x0A]"

definition isspace :: "char \<Rightarrow> bool" where
  "isspace c \<longleftrightarrow> c \<in> {CHR '' '', CHR 0x09, CHR 0x0A, CHR 0x0B, CHR 0x0C, CHR 0x0D}"

definition isdigit :: "char \<Rightarrow> bool" where
  "isdigit c \<longleftrightarrow> (48 :: nat) \<le> of_char c \<and> of_char c \<le> (57 :: nat)"

definition tolower :: "char \<Rightarrow> char" where
  "tolower c = (if (65 :: nat) \<le> of_char c \<and> of_char c \<le> (90 :: nat) then char_of (of_char c + 32 :: nat) else c)"

text \<open>The characters of a buffer up to its first zero.\<close>

definition c_str :: "string \<Rightarrow> string" where
  "c_str buf = takeWhile (\<lambda>c. c \<noteq> NUL) buf"

subsection \<open>Comparison and search\<close>

text \<open>\<^verbatim>\<open>strncmp(s, lit, strlen(lit)) == 0\<close> and the same for \<^verbatim>\<open>strncasecmp\<close>.\<close>

definition has_prefix :: "string \<Rightarrow> string \<Rightarrow> bool" where
  "has_prefix lit s \<longleftrightarrow> take (length lit) s = lit"

definition has_prefix_nocase :: "string \<Rightarrow> string \<Rightarrow> bool" where
  "has_prefix_nocase lit s \<longleftrightarrow> map tolower (take (length lit) s) = map tolower lit"

fun strstr :: "string \<Rightarrow> string \<Rightarrow> nat option" where
  "strstr [] p = (if p = [] then Some 0 else None)"
| "strstr (c # cs) p = (if has_prefix p (c # cs) then Some 0 else map_option Suc (strstr cs p))"

fun strchr :: "string \<Rightarrow> char \<Rightarrow> nat option" where
  "strchr [] x = None"
| "strchr (c # cs) x = (if c = x then Some 0 else map_option Suc (strchr cs x))"

fun strrchr :: "string \<Rightarrow> char \<Rightarrow> nat option" where
  "strrchr [] x = None"
| "strrchr (c # cs) x =
     (case strrchr cs x of Some i \<Rightarrow> Some (Suc i) | None \<Rightarrow> if c = x then Some 0 else None)"

subsection \<open>Decimal numbers\<close>

definition digit_value :: "char \<Rightarrow> nat" where
  "digit_value c = of_char c - 48"

definition digits_value :: "string \<Rightarrow> nat" where
  "digits_value ds = foldl (\<lambda>a d. 10 * a + digit_value d) 0 ds"

fun show_nat :: "nat \<Rightarrow> string" where
  "show_nat n = (if n < 10 then [char_of (48 + n)] else show_nat (n div 10) @ [char_of (48 + n mod 10)])"

declare show_nat.simps [simp del]

definition show_int :: "int \<Rightarrow> string" where
  "show_int i = (if i < 0 then CHR ''-'' # show_nat (nat (- i)) else show_nat (nat i))"

definition LONG_MAX :: int where
  "LONG_MAX = 2 ^ 63 - 1"

definition LONG_MIN :: int where
  "LONG_MIN = - (2 ^ 63)"

text \<open>The result, the rest of the string (\<^verbatim>\<open>endptr\<close>) and whether \<^verbatim>\<open>errno\<close> was set to \<^verbatim>\<open>ERANGE\<close>.\<close>

definition strtol :: "string \<Rightarrow> int \<times> string \<times> bool" where
  "strtol s =
     (let t = dropWhile isspace s;
          neg = (t \<noteq> [] \<and> hd t = CHR ''-'');
          u = (if t \<noteq> [] \<and> (hd t = CHR ''-'' \<or> hd t = CHR ''+'') then tl t else t);
          ds = takeWhile isdigit u;
          rest = dropWhile isdigit u;
          v = (if neg then - int (digits_value ds) else int (digits_value ds))
      in if ds = [] then (0, s, False)
         else if v > LONG_MAX then (LONG_MAX, rest, True)
         else if v < LONG_MIN then (LONG_MIN, rest, True)
         else (v, rest, False))"

subsection \<open>Facts about the search functions\<close>

lemma has_prefix_iff: "has_prefix p s \<longleftrightarrow> (\<exists>r. s = p @ r)"
  by (auto simp: has_prefix_def) (metis append_take_drop_id)

lemma strstr_Some:
  "strstr s p = Some i \<Longrightarrow> i \<le> length s \<and> (\<exists>r. s = take i s @ p @ r)"
proof (induction s p arbitrary: i rule: strstr.induct)
  case (2 c cs p)
  show ?case
  proof (cases "has_prefix p (c # cs)")
    case True
    with 2 show ?thesis by (auto simp: has_prefix_iff)
  next
    case False
    with 2 show ?thesis by auto
  qed
qed (auto split: if_splits)

lemma strstr_None: "strstr s p = None \<longleftrightarrow> (\<nexists>u r. s = u @ p @ r)"
proof (induction s p rule: strstr.induct)
  case (2 c cs p)
  have "(\<exists>u r. c # cs = u @ p @ r) \<longleftrightarrow> (\<exists>r. c # cs = p @ r) \<or> (\<exists>u r. cs = u @ p @ r)"
    by (metis append_Cons append_Nil list.exhaust list.inject)
  with 2 show ?case by (auto simp: has_prefix_iff)
qed auto

text \<open>No occurrence starts before the one that is found.\<close>

lemma strstr_first: "strstr s p = Some i \<Longrightarrow> j < i \<Longrightarrow> \<not> has_prefix p (drop j s)"
proof (induction s p arbitrary: i j rule: strstr.induct)
  case (2 c cs p)
  then show ?case by (cases j) (auto split: if_splits)
qed (auto split: if_splits)

lemma strstr_iff:
  "strstr s p = Some i \<longleftrightarrow> i \<le> length s \<and> has_prefix p (drop i s) \<and> (\<forall>j<i. \<not> has_prefix p (drop j s))"
proof
  assume a: "strstr s p = Some i"
  then obtain r where "s = take i s @ p @ r" and i: "i \<le> length s" using strstr_Some by blast
  then have "drop i s = p @ r" by (metis append_eq_conv_conj length_take min.absorb2)
  then show "i \<le> length s \<and> has_prefix p (drop i s) \<and> (\<forall>j<i. \<not> has_prefix p (drop j s))"
    using i strstr_first [OF a] by (auto simp: has_prefix_iff)
next
  assume a: "i \<le> length s \<and> has_prefix p (drop i s) \<and> (\<forall>j<i. \<not> has_prefix p (drop j s))"
  then obtain r where "drop i s = p @ r" by (auto simp: has_prefix_iff)
  then have "s = take i s @ p @ r" by (metis append_take_drop_id)
  then obtain k where k: "strstr s p = Some k" using strstr_None [of s p] by (cases "strstr s p") auto
  obtain r' where "s = take k s @ p @ r'" "k \<le> length s" using strstr_Some [OF k] by blast
  then have "has_prefix p (drop k s)" by (metis append_eq_conv_conj has_prefix_iff length_take min.absorb2)
  then show "strstr s p = Some i" using k a strstr_first [OF k, of i] by (metis linorder_neqE_nat)
qed

lemma strstr_room: "strstr s p = Some i \<Longrightarrow> i + length p \<le> length s"
  by (auto simp: strstr_iff has_prefix_def) (metis add.commute le_diff_conv2 length_drop length_take min.cobounded1)

lemma has_prefix_take:
  "p \<noteq> [] \<Longrightarrow> has_prefix p (drop j (take n s)) \<longleftrightarrow> has_prefix p (drop j s) \<and> j + length p \<le> n"
proof -
  assume p: "p \<noteq> []"
  have "take (length p) (drop j (take n s)) = take (min (length p) (n - j)) (drop j s)"
    by (simp add: drop_take)
  moreover have "take (min (length p) (n - j)) (drop j s) = p \<longleftrightarrow> take (length p) (drop j s) = p \<and> length p \<le> n - j"
    by (metis length_take min.absorb1 min.cobounded1 min.cobounded2 min_def le_trans)
  ultimately show ?thesis using p unfolding has_prefix_def by (cases p) auto
qed

text \<open>Searching in a prefix of the text.\<close>

lemma strstr_take:
  assumes "strstr s p = Some i" "p \<noteq> []"
  shows "strstr (take n s) p = (if i + length p \<le> n then Some i else None)"
proof (cases "i + length p \<le> n")
  case True
  then have "strstr (take n s) p = Some i"
    using assms(1) by (auto simp: strstr_iff has_prefix_take [OF assms(2)])
  with True show ?thesis by simp
next
  case False
  have "strstr (take n s) p \<noteq> Some j" for j
  proof
    assume "strstr (take n s) p = Some j"
    then have "has_prefix p (drop j s)" "j + length p \<le> n" by (auto simp: strstr_iff has_prefix_take [OF assms(2)])
    then show False using assms(1) False by (auto simp: strstr_iff)
  qed
  with False show ?thesis by (cases "strstr (take n s) p") auto
qed

lemma strchr_Some: "strchr s x = Some i \<Longrightarrow> i < length s \<and> s ! i = x \<and> x \<notin> set (take i s)"
proof (induction s x arbitrary: i rule: strchr.induct)
  case (2 c cs x)
  then show ?case by (cases i) (auto split: if_splits)
qed simp

lemma strrchr_Some: "strrchr s x = Some i \<Longrightarrow> i < length s \<and> s ! i = x \<and> x \<notin> set (drop (Suc i) s)"
proof (induction s x arbitrary: i rule: strrchr.induct)
  case (2 c cs x)
  have n: "x \<notin> set cs" if "strrchr cs x = None"
    using that by (induction cs) (auto split: option.splits if_splits)
  show ?case using 2 n by (cases i) (auto split: option.splits if_splits)
qed simp

lemma strrchr_None: "strrchr s x = None \<longleftrightarrow> x \<notin> set s"
  by (induction s) (auto split: option.splits)

lemma strchr_None: "strchr s x = None \<longleftrightarrow> x \<notin> set s"
  by (induction s) auto

subsection \<open>Facts about decimal numbers\<close>

lemma isdigit_char [text_simps]: "n < 10 \<Longrightarrow> isdigit (char_of (48 + n :: nat))"
  by (simp add: isdigit_def)

lemma digit_value_char [text_simps]: "n < 10 \<Longrightarrow> digit_value (char_of (48 + n :: nat)) = n"
  by (simp add: digit_value_def)

lemma digits_value_append [text_simps]: "digits_value (ds @ [d]) = 10 * digits_value ds + digit_value d"
  by (simp add: digits_value_def)

lemma show_nat_digits: "list_all isdigit (show_nat n)" "show_nat n \<noteq> []"
proof -
  show "list_all isdigit (show_nat n)"
  proof (induction n rule: show_nat.induct)
    case (1 n)
    then show ?case by (subst show_nat.simps) (auto simp: text_simps)
  qed
  show "show_nat n \<noteq> []" by (subst show_nat.simps) simp
qed

lemma digits_value_show: "digits_value (show_nat n) = n"
proof (induction n rule: show_nat.induct)
  case (1 n)
  then show ?case by (subst show_nat.simps) (auto simp: text_simps digits_value_def)
qed

lemma isdigit_not: "isdigit c \<Longrightarrow> \<not> isspace c \<and> c \<noteq> CHR ''-'' \<and> c \<noteq> CHR ''+''"
  by (auto simp: isdigit_def isspace_def)

text \<open>\<^verbatim>\<open>strtol\<close> reads back what \<^verbatim>\<open>%d\<close> printed.\<close>

lemma strtol_digits:
  assumes "list_all isdigit ds" "ds \<noteq> []" "rest = [] \<or> \<not> isdigit (hd rest)" "int (digits_value ds) \<le> LONG_MAX"
  shows "strtol (ds @ rest) = (int (digits_value ds), rest, False)"
proof -
  obtain d es where ds: "ds = d # es" using assms(2) by (cases ds) auto
  have d: "isdigit d" using assms(1) ds by simp
  have t: "dropWhile isspace (ds @ rest) = ds @ rest" using isdigit_not [OF d] ds by simp
  have "takeWhile isdigit (ds @ rest) = ds" "dropWhile isdigit (ds @ rest) = rest"
    using assms(1,3) by (induction ds) (cases rest; simp)+
  moreover have "hd (ds @ rest) \<noteq> CHR ''-''" "hd (ds @ rest) \<noteq> CHR ''+''" using isdigit_not [OF d] ds by auto
  ultimately show ?thesis using assms(2,4) by (simp add: strtol_def t Let_def LONG_MIN_def)
qed

lemma strtol_show_nat: "int n \<le> LONG_MAX \<Longrightarrow> strtol (show_nat n) = (int n, [], False)"
  using strtol_digits [of "show_nat n" "[]"] show_nat_digits digits_value_show by simp

end
