(* ===== verification/Gui_Request.thy ===== *)
theory Gui_Request
  imports C_Text "HOL-Library.Word"
begin

text \<open>
  The text functions of \<^verbatim>\<open>src/monitor/gui_server.c\<close>: JSON escaping, the constant-time comparison,
  the authentication check over the request headers and the extraction of a JSON field.
\<close>

unbundle bit_operations_syntax

subsection \<open>JSON escaping\<close>

definition hex_chars :: string where
  "hex_chars = ''0123456789abcdef''"

definition escape_char :: "char \<Rightarrow> string" where
  "escape_char c =
     (if c = CHR 0x22 then [CHR 0x5C, CHR 0x22]
      else if c = CHR 0x5C then [CHR 0x5C, CHR 0x5C]
      else if c = CHR 0x08 then [CHR 0x5C, CHR ''b'']
      else if c = CHR 0x0C then [CHR 0x5C, CHR ''f'']
      else if c = CHR 0x0A then [CHR 0x5C, CHR ''n'']
      else if c = CHR 0x0D then [CHR 0x5C, CHR ''r'']
      else if c = CHR 0x09 then [CHR 0x5C, CHR ''t'']
      else if of_char c < (32 :: nat) then
        [CHR 0x5C, CHR ''u'', CHR ''0'', CHR ''0'', hex_chars ! (of_char c div 16), hex_chars ! (of_char c mod 16)]
      else [c])"

text \<open>The loop: \<open>out\<close> holds the characters written so far, \<^verbatim>\<open>idx\<close> is their number.\<close>

fun escape_loop :: "string \<Rightarrow> string \<Rightarrow> nat \<Rightarrow> string" where
  "escape_loop [] out max_out = out"
| "escape_loop (c # cs) out max_out =
     (if length out + 6 < max_out then escape_loop cs (out @ escape_char c) max_out else out)"

definition escape_json_string :: "string \<Rightarrow> nat \<Rightarrow> string" where
  "escape_json_string s max_out = escape_loop s [] max_out"

subsection \<open>Authentication\<close>

definition uchar :: "char \<Rightarrow> 8 word" where
  "uchar c = of_char c"

definition constant_time_streq :: "string \<Rightarrow> string \<Rightarrow> nat \<Rightarrow> bool" where
  "constant_time_streq a b len =
     (foldl (\<lambda>result i. result OR (uchar (a ! i) XOR uchar (b ! i))) 0 [0..<len] = 0)"

definition token_header :: string where
  "token_header = ''X-Auth-Token: ''"

definition bearer_header :: string where
  "bearer_header = ''Authorization: Bearer ''"

text \<open>The two header forms of one line of \<open>line_len\<close> characters at the start of \<open>rest\<close>.\<close>

definition line_authorizes :: "string \<Rightarrow> string \<Rightarrow> nat \<Rightarrow> bool" where
  "line_authorizes token rest line_len =
     (if line_len > 14 \<and> has_prefix_nocase token_header rest then
        line_len - 14 = length token \<and> constant_time_streq (drop 14 rest) token (length token)
      else if line_len > 22 \<and> has_prefix_nocase bearer_header rest then
        line_len - 22 = length token \<and> constant_time_streq (drop 22 rest) token (length token)
      else False)"

function auth_loop :: "string \<Rightarrow> string \<Rightarrow> nat \<Rightarrow> nat \<Rightarrow> bool" where
  "auth_loop token buffer header_len pos =
     (if pos < header_len then
        let rest = drop pos buffer;
            line_end = strstr rest crlf;
            line_len = (case line_end of Some i \<Rightarrow> i | None \<Rightarrow> header_len - pos)
        in if line_authorizes token rest line_len then True
           else
             case line_end of
               None \<Rightarrow> False
             | Some i \<Rightarrow> if pos + i \<ge> header_len then False else auth_loop token buffer header_len (pos + i + 2)
      else False)"
  by pat_completeness auto
termination
  by (relation "measure (\<lambda>(token, buffer, header_len, pos). header_len - pos)") auto

declare auth_loop.simps [simp del]

definition header_length :: "string \<Rightarrow> nat" where
  "header_length buffer = (case strstr buffer (crlf @ crlf) of Some h \<Rightarrow> h | None \<Rightarrow> length buffer)"

definition check_auth :: "string \<Rightarrow> string \<Rightarrow> bool" where
  "check_auth token buffer =
     (if length token = 0 then True else auth_loop token buffer (header_length buffer) 0)"

subsection \<open>JSON fields\<close>

definition json_space :: "char \<Rightarrow> bool" where
  "json_space c \<longleftrightarrow> c = CHR '' '' \<or> c = CHR 0x09 \<or> c = CHR 0x0D \<or> c = CHR 0x0A"

definition quoted_key :: "string \<Rightarrow> string" where
  "quoted_key key = CHR 0x22 # key @ [CHR 0x22]"

text \<open>The search for the key: the text of the value behind the first occurrence that stands in
  key position.\<close>

function find_value :: "string \<Rightarrow> string \<Rightarrow> nat \<Rightarrow> string option" where
  "find_value json key p =
     (case strstr (drop p json) (quoted_key key) of
        None \<Rightarrow> None
      | Some i \<Rightarrow>
          let q = p + i;
              sk_len = length (quoted_key key);
              back = dropWhile json_space (rev (take q json));
              after = dropWhile json_space (drop (q + sk_len) json)
          in if back \<noteq> [] \<and> hd back \<noteq> CHR ''{'' \<and> hd back \<noteq> CHR '','' then find_value json key (q + sk_len)
             else if after = [] \<or> hd after \<noteq> CHR '':'' then find_value json key (q + sk_len)
             else Some (dropWhile json_space (tl after)))"
  by pat_completeness auto
termination
proof -
  have "length json - (p + i + length (quoted_key key)) < length json - p"
    if "strstr (drop p json) (quoted_key key) = Some i" for json key p i
    using strstr_room [OF that] by (simp add: quoted_key_def)
  then show ?thesis by (relation "measure (\<lambda>(json, key, p). length json - p)") simp_all
qed

declare find_value.simps [simp del]

fun quoted_value :: "string \<Rightarrow> nat \<Rightarrow> string" where
  "quoted_value [] room = []"
| "quoted_value (c # cs) room =
     (if c = CHR 0x22 \<or> room = 0 then []
      else if c = CHR 0x5C \<and> cs \<noteq> [] then hd cs # quoted_value (tl cs) (room - 1)
      else c # quoted_value cs (room - 1))"

definition bare_char :: "char \<Rightarrow> bool" where
  "bare_char c \<longleftrightarrow> c \<noteq> CHR '','' \<and> c \<noteq> CHR ''}'' \<and> c \<noteq> CHR '']'' \<and> \<not> json_space c"

definition bare_value :: "string \<Rightarrow> nat \<Rightarrow> string" where
  "bare_value s room = take room (takeWhile bare_char s)"

definition parse_json_field :: "string \<Rightarrow> string \<Rightarrow> nat \<Rightarrow> string" where
  "parse_json_field json key max_len =
     (if length (quoted_key key) \<ge> 128 then []
      else
        case find_value json key 0 of
          None \<Rightarrow> []
        | Some after \<Rightarrow>
            if after \<noteq> [] \<and> hd after = CHR 0x22 then quoted_value (tl after) (max_len - 1)
            else bare_value after (max_len - 1))"

end
