(* ===== verification/Output_Loop.thy ===== *)
theory Output_Loop
  imports C_Text
begin

text \<open>
  Loops around partial writes: \<^verbatim>\<open>write_unbuffered\<close> of \<^verbatim>\<open>src/allocator/allocator.c\<close> (and of
  \<^verbatim>\<open>free_list.c\<close>) and \<^verbatim>\<open>send_all\<close> of \<^verbatim>\<open>src/monitor/gui_server.c\<close>. The kernel's answers are a
  parameter: the \<open>k\<close>-th call, offered \<open>n\<close> bytes, accepts some of them or fails. The two loops
  differ only in the errors after which they try again; a loop that tries forever has no
  result.
\<close>

datatype io_errno = EINTR | EAGAIN | EWOULDBLOCK | EPIPE | EIO

datatype io_answer = Accepted nat | Failed io_errno

type_synonym device = "nat \<Rightarrow> nat \<Rightarrow> io_answer"

text \<open>What reached the other side of the descriptor, and the number of calls made so far.\<close>

record wire =
  sent :: string
  calls :: nat

partial_function (option) out_loop ::
  "(io_errno \<Rightarrow> bool) \<Rightarrow> device \<Rightarrow> string \<Rightarrow> wire \<Rightarrow> (int \<times> wire) option" where
  "out_loop retry dev buf w =
     (if buf = [] then Some (0, w)
      else
        let w1 = w\<lparr>calls := Suc (calls w)\<rparr> in
        case dev (calls w) (length buf) of
          Failed e \<Rightarrow> if retry e then out_loop retry dev buf w1 else Some (-1, w1)
        | Accepted n \<Rightarrow>
            if n = 0 then Some (-1, w1)
            else out_loop retry dev (drop n buf) (w1\<lparr>sent := sent w @ take n buf\<rparr>))"

definition send_retry :: "io_errno \<Rightarrow> bool" where
  "send_retry e \<longleftrightarrow> e = EINTR \<or> e = EAGAIN \<or> e = EWOULDBLOCK"

definition send_all :: "device \<Rightarrow> string \<Rightarrow> wire \<Rightarrow> (int \<times> wire) option" where
  "send_all = out_loop send_retry"

definition write_retry :: "io_errno \<Rightarrow> bool" where
  "write_retry e \<longleftrightarrow> e = EINTR"

definition write_unbuffered :: "device \<Rightarrow> string \<Rightarrow> wire \<Rightarrow> wire option" where
  "write_unbuffered dev buf w = map_option snd (out_loop write_retry dev buf w)"

subsection \<open>Log lines of the allocator\<close>

text \<open>
  \<^verbatim>\<open>snprintf\<close> into a buffer of \<open>n\<close> bytes keeps the first \<open>n - 1\<close> characters. The message is what
  \<^verbatim>\<open>vsnprintf\<close> makes of the format; \<open>strerr\<close> is the text of \<^verbatim>\<open>strerror\<close>.
\<close>

definition snprintf :: "nat \<Rightarrow> string \<Rightarrow> string" where
  "snprintf n s = take (n - 1) s"

definition log_error_line :: "string \<Rightarrow> int \<Rightarrow> string \<Rightarrow> string" where
  "log_error_line file line msg =
     snprintf 512 (''[ERROR] ['' @ file @ '':'' @ show_int line @ ''] '' @ snprintf 256 msg @ [CHR 0x0A])"

definition log_errno_error_line :: "string \<Rightarrow> int \<Rightarrow> string \<Rightarrow> string \<Rightarrow> string" where
  "log_errno_error_line file line strerr msg =
     snprintf 512 (''[ERROR] ['' @ file @ '':'' @ show_int line @ ''] '' @ snprintf 256 msg @
       '' (errno: '' @ strerr @ '')'' @ [CHR 0x0A])"

definition log_error_write :: "device \<Rightarrow> string \<Rightarrow> int \<Rightarrow> string \<Rightarrow> wire \<Rightarrow> wire option" where
  "log_error_write dev file line msg w = write_unbuffered dev (log_error_line file line msg) w"

definition log_errno_error_write :: "device \<Rightarrow> string \<Rightarrow> int \<Rightarrow> string \<Rightarrow> string \<Rightarrow> wire \<Rightarrow> wire option" where
  "log_errno_error_write dev file line strerr msg w =
     write_unbuffered dev (log_errno_error_line file line strerr msg) w"

subsection \<open>What a loop that returns has sent\<close>

definition sent_some :: "string \<Rightarrow> wire \<Rightarrow> int \<times> wire \<Rightarrow> bool" where
  "sent_some buf w y \<longleftrightarrow> (\<exists>n\<le>length buf. sent (snd y) = sent w @ take n buf \<and>
     (fst y = 0 \<and> n = length buf \<or> fst y = - 1 \<and> n < length buf))"

lemma sent_some_step:
  assumes "sent_some (drop k buf) (w\<lparr>calls := c, sent := sent w @ take k buf\<rparr>) y"
  shows "sent_some buf w y"
proof -
  from assms obtain n where n: "n \<le> length buf - k" "sent (snd y) = sent w @ take k buf @ take n (drop k buf)"
    "fst y = 0 \<and> n = length buf - k \<or> fst y = - 1 \<and> n < length buf - k" by (auto simp: sent_some_def)
  have "sent (snd y) = sent w @ take (min k (length buf) + n) buf"
    using n(1,2) take_add [of "min k (length buf)" n buf] by (cases "k \<le> length buf") (auto simp: min_def)
  then show ?thesis using n(1,3) unfolding sent_some_def by (intro exI [of _ "min k (length buf) + n"]) auto
qed

text \<open>Induction along the calls of a loop that returns.\<close>

lemma out_loop_induct [consumes 1, case_names finish fail again zero more]:
  assumes "out_loop retry dev buf w = Some y"
    and finish: "\<And>w. P [] w (0, w)"
    and fail: "\<And>buf w e. buf \<noteq> [] \<Longrightarrow> dev (calls w) (length buf) = Failed e \<Longrightarrow> \<not> retry e \<Longrightarrow>
      P buf w (- 1, w\<lparr>calls := Suc (calls w)\<rparr>)"
    and again: "\<And>buf w e y. buf \<noteq> [] \<Longrightarrow> dev (calls w) (length buf) = Failed e \<Longrightarrow> retry e \<Longrightarrow>
      P buf (w\<lparr>calls := Suc (calls w)\<rparr>) y \<Longrightarrow> P buf w y"
    and zero: "\<And>buf w. buf \<noteq> [] \<Longrightarrow> dev (calls w) (length buf) = Accepted 0 \<Longrightarrow>
      P buf w (- 1, w\<lparr>calls := Suc (calls w)\<rparr>)"
    and more: "\<And>buf w n y. buf \<noteq> [] \<Longrightarrow> dev (calls w) (length buf) = Accepted n \<Longrightarrow> 0 < n \<Longrightarrow>
      P (drop n buf) (w\<lparr>calls := Suc (calls w), sent := sent w @ take n buf\<rparr>) y \<Longrightarrow> P buf w y"
  shows "P buf w y"
proof -
  have "retry = retry \<longrightarrow> dev = dev \<longrightarrow> P buf w y"
  proof (rule out_loop.raw_induct [of "\<lambda>r d b w y. r = retry \<longrightarrow> d = dev \<longrightarrow> P b w y", OF _ assms(1)], intro impI)
    fix f r d b and w :: wire and y
    assume IH: "\<And>r d b w y. f r d b w = Some y \<Longrightarrow> r = retry \<longrightarrow> d = dev \<longrightarrow> P b w y"
    let ?w = "w\<lparr>calls := Suc (calls w)\<rparr>"
    assume eq: "(if b = [] then Some (0, w)
        else let w1 = ?w in
          case d (calls w) (length b) of
            Accepted n \<Rightarrow> if n = 0 then Some (- 1, w1) else f r d (drop n b) (w1\<lparr>sent := sent w @ take n b\<rparr>)
          | Failed e \<Rightarrow> if r e then f r d b w1 else Some (- 1, w1)) = Some y"
      and rd: "r = retry" "d = dev"
    show "P b w y"
    proof (cases "b = []")
      case True
      with eq finish show ?thesis by auto
    next
      case ne: False
      show ?thesis
      proof (cases "dev (calls w) (length b)")
        case (Failed e)
        then show ?thesis using eq ne rd IH [of retry dev b ?w y] fail [OF ne Failed] again [OF ne Failed]
          by (auto simp: Let_def split: if_splits)
      next
        case (Accepted n)
        then show ?thesis using eq ne rd IH [of retry dev "drop n b" "?w\<lparr>sent := sent w @ take n b\<rparr>" y]
            zero [OF ne] more [OF ne Accepted] by (auto simp: Let_def split: if_splits)
      qed
    qed
  qed
  then show ?thesis by simp
qed

lemma out_loop_sound: "out_loop retry dev buf w = Some y \<Longrightarrow> sent_some buf w y"
proof (induction rule: out_loop_induct)
  case (more buf w n y)
  from more(4) show ?case by (rule sent_some_step)
qed (auto simp: sent_some_def)

text \<open>A device that takes at least one byte or asks for another try, at every call.\<close>

definition lossless :: "(io_errno \<Rightarrow> bool) \<Rightarrow> device \<Rightarrow> bool" where
  "lossless retry dev \<longleftrightarrow> (\<forall>k n. case dev k n of Accepted m \<Rightarrow> 0 < m \<or> n = 0 | Failed e \<Rightarrow> retry e)"

lemma out_loop_code: "out_loop retry dev buf w = Some y \<Longrightarrow> lossless retry dev \<Longrightarrow> fst y = 0"
proof (induction rule: out_loop_induct)
  case (fail buf w e)
  then show ?case unfolding lossless_def by (metis io_answer.case(2))
next
  case (zero buf w)
  then show ?case unfolding lossless_def by (metis io_answer.case(1) length_0_conv less_irrefl)
qed simp_all

text \<open>A device that never takes a byte and always asks for another try: the loop has no result.\<close>

definition stalled :: "(io_errno \<Rightarrow> bool) \<Rightarrow> device \<Rightarrow> bool" where
  "stalled retry dev \<longleftrightarrow> (\<forall>k n. case dev k n of Accepted m \<Rightarrow> False | Failed e \<Rightarrow> retry e)"

lemma out_loop_stalled:
  assumes "stalled retry dev" "buf \<noteq> []" shows "out_loop retry dev buf w = None"
proof -
  have "buf = []" if "out_loop retry dev buf w = Some y" for y
    using that assms(1)
  proof (induction rule: out_loop_induct)
    case (fail buf w e)
    then show ?case unfolding stalled_def by (metis io_answer.case(2))
  next
    case (zero buf w)
    then show ?case unfolding stalled_def by (metis io_answer.case(1))
  next
    case (more buf w n y)
    then show ?case unfolding stalled_def by (metis io_answer.case(1))
  qed simp_all
  then show ?thesis using assms(2) by (cases "out_loop retry dev buf w") auto
qed

subsection \<open>When a loop returns\<close>

text \<open>The device does not ask for another try forever.\<close>

definition fair :: "(io_errno \<Rightarrow> bool) \<Rightarrow> device \<Rightarrow> bool" where
  "fair retry dev \<longleftrightarrow> (\<forall>k. \<exists>j\<ge>k. \<forall>n e. dev j n = Failed e \<longrightarrow> \<not> retry e)"

lemma out_loop_returns:
  assumes "fair retry dev"
  shows "\<exists>y. out_loop retry dev buf w = Some y"
proof (induction "length buf" arbitrary: buf w rule: less_induct)
  case less
  from assms obtain j where j: "calls w \<le> j" "\<And>n e. dev j n = Failed e \<Longrightarrow> \<not> retry e"
    unfolding fair_def by blast
  from j(1) show ?case
  proof (induction "j - calls w" arbitrary: w)
    case 0
    then have c: "calls w = j" by simp
    show ?case
    proof (cases "dev j (length buf)")
      case (Failed e)
      then show ?thesis using j(2) c by (subst out_loop.simps) auto
    next
      case (Accepted n)
      show ?thesis
      proof (cases "buf = [] \<or> n = 0")
        case True
        then show ?thesis using Accepted c by (subst out_loop.simps) auto
      next
        case False
        then have "length (drop n buf) < length buf" by (cases buf) auto
        from less [OF this] False show ?thesis using Accepted c by (subst out_loop.simps) auto
      qed
    qed
  next
    case (Suc d)
    let ?w = "w\<lparr>calls := Suc (calls w)\<rparr>"
    have ih: "\<exists>y. out_loop retry dev buf ?w = Some y" using Suc.hyps(1) [of ?w] Suc.hyps(2) by simp
    have "\<exists>y. out_loop retry dev (drop n buf) (?w\<lparr>sent := s\<rparr>) = Some y" if "n \<noteq> 0" "buf \<noteq> []" for n s
    proof -
      have "length (drop n buf) < length buf" using that by (cases buf) auto
      from less [OF this] show ?thesis .
    qed
    with ih show ?case by (subst out_loop.simps) (auto simp: Let_def split: io_answer.split)
  qed
qed

lemma out_loop_delivers:
  assumes "fair retry dev" "lossless retry dev"
  shows "\<exists>w'. out_loop retry dev buf w = Some (0, w') \<and> sent w' = sent w @ buf"
proof -
  obtain y where y: "out_loop retry dev buf w = Some y" using out_loop_returns [OF assms(1)] by blast
  have "fst y = 0" "sent_some buf w y" using out_loop_code [OF y assms(2)] out_loop_sound [OF y] .
  then show ?thesis using y by (cases y) (auto simp: sent_some_def)
qed

end
