(* ===== verification/Float32.thy ===== *)
theory Float32
  imports Complex_Main C_Text
begin

text \<open>
  The single-precision arithmetic of the monitor's percentages. A \<^verbatim>\<open>float\<close> is the rational number
  it stands for; every operation rounds its exact result to 24 significant bits, half to even.
  The quotients and products the monitor computes are zero or lie between \<open>2 ^ -64\<close> and \<open>2 ^ 110\<close>,
  so that neither subnormal numbers nor infinities occur. The \<^verbatim>\<open>%.2f\<close> conversion rounds the exact
  value to two decimals.
\<close>

subsection \<open>Rounding\<close>

definition round_half_even :: "rat \<Rightarrow> int" where
  "round_half_even x =
     (let f = \<lfloor>x\<rfloor>; d = x - of_int f
      in if d < 1 / 2 then f else if d > 1 / 2 then f + 1 else if even f then f else f + 1)"

fun bit_len :: "nat \<Rightarrow> nat" where
  "bit_len n = (if n = 0 then 0 else Suc (bit_len (n div 2)))"

declare bit_len.simps [simp del]

text \<open>The exponent \<open>e\<close> with \<open>2 ^ e \<le> x < 2 ^ (e + 1)\<close>.\<close>

definition exponent :: "rat \<Rightarrow> int" where
  "exponent x =
     (let (n, d) = quotient_of x; e = int (bit_len (nat n)) - int (bit_len (nat d))
      in if 2 powi e \<le> x then e else e - 1)"

definition fl32 :: "rat \<Rightarrow> rat" where
  "fl32 x =
     (if x = 0 then 0
      else
        let q = 2 powi (exponent \<bar>x\<bar> - 23)
        in sgn x * of_int (round_half_even (\<bar>x\<bar> / q)) * q)"

subsection \<open>Decimal output\<close>

definition show_2f :: "rat \<Rightarrow> string" where
  "show_2f x =
     (let h = round_half_even (\<bar>x\<bar> * 100); f = h mod 100
      in (if x < 0 then ''-'' else []) @ show_int (h div 100) @ ''.'' @ show_int (f div 10) @ show_int (f mod 10))"

subsection \<open>Rounding is monotone and keeps integers\<close>

lemma round_half_even_int [simp]: "round_half_even (of_int k) = k"
  by (simp add: round_half_even_def Let_def)

lemma round_half_even_bounds: "\<lfloor>x\<rfloor> \<le> round_half_even x" "round_half_even x \<le> \<lfloor>x\<rfloor> + 1"
  by (simp_all add: round_half_even_def Let_def)

lemma round_half_even_mono: "x \<le> y \<Longrightarrow> round_half_even x \<le> round_half_even y"
proof -
  assume xy: "x \<le> y"
  then have f: "\<lfloor>x\<rfloor> \<le> \<lfloor>y\<rfloor>" by (rule floor_mono)
  show ?thesis
  proof (cases "\<lfloor>x\<rfloor> = \<lfloor>y\<rfloor>")
    case True
    then show ?thesis using xy by (auto simp: round_half_even_def Let_def)
  next
    case False
    then show ?thesis using f round_half_even_bounds [of x] round_half_even_bounds [of y] by linarith
  qed
qed

lemma bit_len_bounds: "0 < n \<Longrightarrow> 2 ^ (bit_len n - 1) \<le> n \<and> n < 2 ^ bit_len n \<and> 0 < bit_len n"
proof (induction n rule: bit_len.induct)
  case (1 n)
  show ?case
  proof (cases "n = 1")
    case True
    then show ?thesis by (simp add: bit_len.simps [of "Suc 0"] bit_len.simps [of 0])
  next
    case False
    then have "0 < n div 2" using 1 by simp
    with 1 have ih: "2 ^ (bit_len (n div 2) - 1) \<le> n div 2" "n div 2 < 2 ^ bit_len (n div 2)" "0 < bit_len (n div 2)" by auto
    have b: "bit_len n = Suc (bit_len (n div 2))" using 1 by (simp add: bit_len.simps [of n])
    obtain k where k: "bit_len (n div 2) = Suc k" using ih(3) by (cases "bit_len (n div 2)") auto
    have "2 * (n div 2) \<le> n" "n < 2 * (n div 2) + 2" by simp_all
    then show ?thesis using ih unfolding b k by auto
  qed
qed

lemma exponent_bounds:
  assumes "0 < x"
  shows "2 powi (exponent x) \<le> x" "x < 2 powi (exponent x + 1)"
proof -
  obtain n d where q: "quotient_of x = (n, d)" by (cases "quotient_of x")
  have d: "0 < d" using quotient_of_denom_pos [OF q] .
  have x: "x = of_int n / of_int d" using quotient_of_div [OF q] .
  have n: "0 < n" using assms x d by (simp add: zero_less_divide_iff)
  let ?a = "bit_len (nat n)" and ?b = "bit_len (nat d)"
  note A = bit_len_bounds [of "nat n"] and B = bit_len_bounds [of "nat d"]
  have cast: "(2::rat) ^ k \<le> of_int m \<longleftrightarrow> 2 ^ k \<le> nat m" "of_int m < (2::rat) ^ k \<longleftrightarrow> nat m < 2 ^ k" if "0 < m" for k m
  proof -
    have "(of_nat (nat m) :: rat) = of_int m" "(of_nat (2 ^ k) :: rat) = 2 ^ k" using that by (simp_all add: of_nat_nat)
    then show "(2::rat) ^ k \<le> of_int m \<longleftrightarrow> 2 ^ k \<le> nat m" "of_int m < (2::rat) ^ k \<longleftrightarrow> nat m < 2 ^ k"
      by (metis of_nat_le_iff, metis of_nat_less_iff)
  qed
  have c: "(2::rat) ^ (?a - 1) \<le> of_int n" "of_int n < (2::rat) ^ ?a" "(2::rat) ^ (?b - 1) \<le> of_int d" "of_int d < (2::rat) ^ ?b"
    using A B n d by (simp_all add: cast)
  have quot: "(2::rat) ^ i / 2 ^ j = 2 powi (int i - int j)" for i j by (simp add: power_int_diff)
  let ?e = "int ?a - int ?b"
  have "x < 2 ^ ?a / 2 ^ (?b - 1)" unfolding x by (rule frac_less) (use c n d in auto)
  moreover have "int ?a - int (?b - 1) = ?e + 1" using B d by simp
  ultimately have up: "x < 2 powi (?e + 1)" by (simp only: quot)
  have "2 ^ (?a - 1) / 2 ^ ?b \<le> x" unfolding x by (rule frac_le) (use c n d in auto)
  moreover have "int (?a - 1) - int ?b = ?e - 1" using A n by simp
  ultimately have lo: "2 powi (?e - 1) \<le> x" by (simp only: quot)
  have "exponent x = (if 2 powi ?e \<le> x then ?e else ?e - 1)" by (simp add: exponent_def q Let_def)
  then show "2 powi (exponent x) \<le> x" "x < 2 powi (exponent x + 1)" using up lo by auto
qed

lemma exponent_mono:
  assumes "0 < x" "x \<le> y" shows "exponent x \<le> exponent y"
proof (rule ccontr)
  assume "\<not> exponent x \<le> exponent y"
  then have "(2::rat) powi (exponent y + 1) \<le> 2 powi (exponent x)" by (intro power_int_increasing) auto
  then show False using exponent_bounds [of x] exponent_bounds [of y] assms by linarith
qed

lemma fl32_pos: "0 < x \<Longrightarrow> fl32 x = of_int (round_half_even (x / 2 powi (exponent x - 23))) * 2 powi (exponent x - 23)"
  by (simp add: fl32_def Let_def)

text \<open>A number with at most 24 significant bits at the scale of \<open>x\<close> bounds \<open>fl32 x\<close> when it bounds \<open>x\<close>.\<close>

lemma fl32_scale:
  assumes "0 < x" "q = 2 powi (exponent x - 23)"
  shows "x \<le> of_int k * q \<Longrightarrow> fl32 x \<le> of_int k * q" "of_int k * q \<le> x \<Longrightarrow> of_int k * q \<le> fl32 x"
proof -
  have q: "0 < q" using assms(2) by simp
  have f: "fl32 x = of_int (round_half_even (x / q)) * q" using fl32_pos [OF assms(1)] assms(2) by simp
  show "fl32 x \<le> of_int k * q" if "x \<le> of_int k * q"
  proof -
    have "x / q \<le> of_int k" using that q by (simp add: divide_le_eq)
    then have "round_half_even (x / q) \<le> k" using round_half_even_mono [of "x / q" "of_int k"] by simp
    then show ?thesis unfolding f using q by (simp add: mult_right_mono)
  qed
  show "of_int k * q \<le> fl32 x" if "of_int k * q \<le> x"
  proof -
    have "of_int k \<le> x / q" using that q by (simp add: le_divide_eq)
    then have "k \<le> round_half_even (x / q)" using round_half_even_mono [of "of_int k" "x / q"] by simp
    then show ?thesis unfolding f using q by (simp add: mult_right_mono)
  qed
qed

lemma fl32_binade:
  assumes "0 < x"
  shows "2 powi (exponent x) \<le> fl32 x" "fl32 x \<le> 2 powi (exponent x + 1)"
proof -
  let ?q = "(2::rat) powi (exponent x - 23)"
  have e: "2 powi (exponent x) = of_int (2 ^ 23) * ?q" "2 powi (exponent x + 1) = of_int (2 ^ 24) * ?q"
    using power_int_add [of "2::rat" 23 "exponent x - 23"] power_int_add [of "2::rat" 24 "exponent x - 23"]
    by (simp_all add: add.commute)
  show "2 powi (exponent x) \<le> fl32 x" "fl32 x \<le> 2 powi (exponent x + 1)"
    using fl32_scale [OF assms refl] exponent_bounds [OF assms] unfolding e by (metis, metis less_imp_le)
qed

lemma fl32_zero [simp]: "fl32 0 = 0"
  by (simp add: fl32_def)

lemma fl32_positive: "0 < x \<Longrightarrow> 0 < fl32 x"
  using fl32_binade(1) [of x] zero_less_power_int [of "2::rat" "exponent x"] by linarith

lemma fl32_nonneg: "0 \<le> x \<Longrightarrow> 0 \<le> fl32 x"
  using fl32_positive [of x] by (cases "x = 0") auto

lemma fl32_mono:
  assumes "0 \<le> x" "x \<le> y" shows "fl32 x \<le> fl32 y"
proof (cases "x = 0")
  case True
  then show ?thesis using assms fl32_nonneg [of y] by simp
next
  case False
  then have x: "0 < x" and y: "0 < y" using assms by auto
  show ?thesis
  proof (cases "exponent x = exponent y")
    case True
    then show ?thesis using assms(2) fl32_pos [OF x] fl32_pos [OF y]
      by (simp add: mult_right_mono round_half_even_mono divide_right_mono)
  next
    case False
    then have "exponent x + 1 \<le> exponent y" using exponent_mono [OF x assms(2)] by simp
    then have "(2::rat) powi (exponent x + 1) \<le> 2 powi (exponent y)" by (intro power_int_increasing) auto
    then show ?thesis using fl32_binade(2) [OF x] fl32_binade(1) [OF y] by linarith
  qed
qed

text \<open>Integers of at most 24 bits are exact.\<close>

lemma fl32_exact:
  assumes "0 < k" "k < 2 ^ 24"
  shows "fl32 (of_nat k) = of_nat k"
proof -
  let ?x = "of_nat k :: rat" and ?q = "(2::rat) powi (exponent (of_nat k) - 23)"
  have x: "0 < ?x" using assms by simp
  have "?x < 2 ^ 24" using assms(2) by (metis of_nat_less_iff of_nat_numeral of_nat_power)
  then have lt: "(2::rat) powi (exponent ?x) < 2 powi 24" using exponent_bounds(1) [OF x] by simp
  have e: "exponent ?x \<le> 23"
  proof (rule ccontr)
    assume "\<not> exponent ?x \<le> 23"
    then have "(2::rat) powi 24 \<le> 2 powi (exponent ?x)" by (intro power_int_increasing) auto
    then show False using lt by simp
  qed
  define j where "j = nat (23 - exponent ?x)"
  have "?q * 2 ^ j = 2 powi (exponent ?x - 23 + int j)" by (simp add: power_int_add)
  then have "?q * 2 ^ j = 1" using e by (simp add: j_def)
  then have "?x = of_int (int k * 2 ^ j) * ?q" by (simp add: mult.commute)
  then show ?thesis using fl32_scale [OF x refl, of "int k * 2 ^ j"] by (metis order_refl order_antisym)
qed

end
