(* ===== verification/Proc_Parser.thy ===== *)
theory Proc_Parser
  imports Float32
begin

text \<open>
  The sampler of \<^verbatim>\<open>src/monitor/proc_parser.c\<close> over the data of \<^verbatim>\<open>include/proc_parser.h\<close>. The file
  system under \<^verbatim>\<open>/proc\<close> is a parameter: the bytes of a file, if it can be opened, and the names
  in the directory. The static variables of the file are the state.
\<close>

subsection \<open>Data\<close>

definition MAX_COMM_LEN :: nat where
  "MAX_COMM_LEN = 256"

definition MAX_PROCS :: nat where
  "MAX_PROCS = 2048"

record cpu_raw_jiffies_t =
  j_user :: nat
  j_nice :: nat
  j_system :: nat
  j_idle :: nat
  j_iowait :: nat
  j_irq :: nat
  j_softirq :: nat
  j_steal :: nat
  j_total :: nat

record cpu_metrics_t =
  total_usage_pct :: rat
  user_pct :: rat
  system_pct :: rat
  idle_pct :: rat
  core_count :: int

record mem_metrics_t =
  mem_total_kb :: nat
  mem_free_kb :: nat
  mem_available_kb :: nat
  buffers_kb :: nat
  cached_kb :: nat
  swap_total_kb :: nat
  swap_free_kb :: nat
  mem_usage_pct :: rat
  swap_usage_pct :: rat

record process_info_t =
  p_pid :: int
  p_ppid :: int
  p_comm :: string
  p_state :: char
  p_utime :: nat
  p_stime :: nat
  p_total_time :: nat
  p_cpu_usage_pct :: rat
  p_vm_size_kb :: nat
  p_vm_rss_kb :: nat
  p_pss_kb :: nat
  p_mem_usage_pct :: rat
  p_priority :: int
  p_nice :: int
  p_num_threads :: int
  p_starttime_ticks :: nat
  p_voluntary_ctxt_switches :: nat
  p_nonvoluntary_ctxt_switches :: nat

text \<open>\<^verbatim>\<open>count\<close> is the length of the list of processes.\<close>

record system_snapshot_t =
  s_procs :: "process_info_t list"
  s_truncated :: bool
  s_cpu :: cpu_metrics_t
  s_mem :: mem_metrics_t
  s_timestamp :: int

abbreviation s_count :: "system_snapshot_t \<Rightarrow> nat" where
  "s_count sn \<equiv> length (s_procs sn)"

record parser_state =
  prev_cpu_jiffies :: cpu_raw_jiffies_t
  last_system_jiffies_delta :: nat
  sys_core_count :: int
  prev_processes :: "(int \<times> nat) list"

type_synonym proc_fs = "string \<Rightarrow> string option"

definition zero_jiffies :: cpu_raw_jiffies_t where
  "zero_jiffies = \<lparr>j_user = 0, j_nice = 0, j_system = 0, j_idle = 0, j_iowait = 0, j_irq = 0,
     j_softirq = 0, j_steal = 0, j_total = 0\<rparr>"

definition zero_cpu :: cpu_metrics_t where
  "zero_cpu = \<lparr>total_usage_pct = 0, user_pct = 0, system_pct = 0, idle_pct = 0, core_count = 0\<rparr>"

definition zero_mem :: mem_metrics_t where
  "zero_mem = \<lparr>mem_total_kb = 0, mem_free_kb = 0, mem_available_kb = 0, buffers_kb = 0, cached_kb = 0,
     swap_total_kb = 0, swap_free_kb = 0, mem_usage_pct = 0, swap_usage_pct = 0\<rparr>"

definition zero_process :: process_info_t where
  "zero_process = \<lparr>p_pid = 0, p_ppid = 0, p_comm = [], p_state = NUL, p_utime = 0, p_stime = 0,
     p_total_time = 0, p_cpu_usage_pct = 0, p_vm_size_kb = 0, p_vm_rss_kb = 0, p_pss_kb = 0,
     p_mem_usage_pct = 0, p_priority = 0, p_nice = 0, p_num_threads = 0, p_starttime_ticks = 0,
     p_voluntary_ctxt_switches = 0, p_nonvoluntary_ctxt_switches = 0\<rparr>"

definition parser_boot :: parser_state where
  "parser_boot = \<lparr>prev_cpu_jiffies = zero_jiffies, last_system_jiffies_delta = 0, sys_core_count = 1,
     prev_processes = []\<rparr>"

subsection \<open>Input conversions\<close>

text \<open>
  The integer conversions of \<^verbatim>\<open>sscanf\<close>: white space is skipped, a sign may precede the digits. The
  value is then stored at the width of the conversion: \<^verbatim>\<open>%llu\<close> and \<^verbatim>\<open>%lu\<close> saturate above and wrap
  negative numbers, \<^verbatim>\<open>%ld\<close> saturates, \<^verbatim>\<open>%d\<close> keeps the low 32 bits of the saturated number.
\<close>

definition scan_int :: "string \<Rightarrow> (int \<times> string) option" where
  "scan_int s =
     (let t = dropWhile isspace s;
          neg = (t \<noteq> [] \<and> hd t = CHR ''-'');
          u = (if t \<noteq> [] \<and> (hd t = CHR ''-'' \<or> hd t = CHR ''+'') then tl t else t);
          ds = takeWhile isdigit u;
          v = (if neg then - int (digits_value ds) else int (digits_value ds))
      in if ds = [] then None else Some (v, dropWhile isdigit u))"

fun scan_ints :: "nat \<Rightarrow> string \<Rightarrow> int list" where
  "scan_ints 0 s = []"
| "scan_ints (Suc n) s = (case scan_int s of None \<Rightarrow> [] | Some (v, r) \<Rightarrow> v # scan_ints n r)"

definition to_ull :: "int \<Rightarrow> nat" where
  "to_ull v = (if \<bar>v\<bar> \<ge> 2 ^ 64 then 2 ^ 64 - 1 else nat (v mod 2 ^ 64))"

definition to_long :: "int \<Rightarrow> int" where
  "to_long v = (if v > LONG_MAX then LONG_MAX else if v < LONG_MIN then LONG_MIN else v)"

definition to_int :: "int \<Rightarrow> int" where
  "to_int v = (to_long v + 2 ^ 31) mod 2 ^ 32 - 2 ^ 31"

definition add_ull :: "nat \<Rightarrow> nat \<Rightarrow> nat" where
  "add_ull a b = (a + b) mod 2 ^ 64"

text \<open>\<^verbatim>\<open>sscanf(line, "<lit> %lu kB", &val) == 1\<close>: the literal, then one number.\<close>

definition scan_field :: "string \<Rightarrow> string \<Rightarrow> nat option" where
  "scan_field lit line =
     (if has_prefix lit line then map_option (\<lambda>(v, r). to_ull v) (scan_int (drop (length lit) line)) else None)"

text \<open>The tokens of \<^verbatim>\<open>strtok_r(buf, "\n", ..)\<close>: the non-empty lines.\<close>

fun split_lines :: "string \<Rightarrow> string \<Rightarrow> string list" where
  "split_lines [] acc = (if acc = [] then [] else [rev acc])"
| "split_lines (c # cs) acc =
     (if c = CHR 0x0A then (if acc = [] then split_lines cs [] else rev acc # split_lines cs [])
      else split_lines cs (c # acc))"

definition strtok_lines :: "string \<Rightarrow> string list" where
  "strtok_lines s = split_lines s []"

text \<open>One \<^verbatim>\<open>read\<close> of at most \<open>n\<close> bytes from a file; nothing if it cannot be opened or is empty.\<close>

definition read_file :: "proc_fs \<Rightarrow> string \<Rightarrow> nat \<Rightarrow> string option" where
  "read_file fs path n =
     (case fs path of None \<Rightarrow> None | Some content \<Rightarrow> if take n content = [] then None else Some (take n content))"

subsection \<open>Processor and memory\<close>

definition fpct :: "nat \<Rightarrow> nat \<Rightarrow> rat" where
  "fpct num den = fl32 (fl32 (fl32 (of_nat num) / fl32 (of_nat den)) * 100)"

definition delta :: "nat \<Rightarrow> nat \<Rightarrow> nat" where
  "delta cur prev = (if cur \<ge> prev then cur - prev else 0)"

definition jiffies_of :: "int list \<Rightarrow> cpu_raw_jiffies_t" where
  "jiffies_of vs =
     (let g = (\<lambda>i. if i < length vs then to_ull (vs ! i) else 0)
      in \<lparr>j_user = g 0, j_nice = g 1, j_system = g 2, j_idle = g 3, j_iowait = g 4, j_irq = g 5,
          j_softirq = g 6, j_steal = g 7,
          j_total = foldl add_ull (g 0) [g 1, g 2, g 3, g 4, g 5, g 6, g 7]\<rparr>)"

definition cpu_metrics_of :: "int \<Rightarrow> nat \<Rightarrow> nat \<Rightarrow> nat \<Rightarrow> nat \<Rightarrow> cpu_metrics_t" where
  "cpu_metrics_of cores dtotal didle duser dsystem =
     (if dtotal > 0 then
        let busy = (if dtotal > didle then dtotal - didle else 0)
        in \<lparr>total_usage_pct = fpct busy dtotal, user_pct = fpct duser dtotal,
            system_pct = fpct dsystem dtotal, idle_pct = fpct didle dtotal, core_count = cores\<rparr>
      else \<lparr>total_usage_pct = 0, user_pct = 0, system_pct = 0, idle_pct = 100, core_count = cores\<rparr>)"

definition proc_parser_read_cpu :: "proc_fs \<Rightarrow> parser_state \<Rightarrow> int \<times> cpu_metrics_t \<times> parser_state" where
  "proc_parser_read_cpu fs st =
     (case read_file fs ''/proc/stat'' 4095 of
        None \<Rightarrow> (-1, zero_cpu, st)
      | Some raw \<Rightarrow>
          let buf = c_str raw;
              vs = (if has_prefix ''cpu'' buf then scan_ints 8 (drop 3 buf) else [])
          in if length vs < 4 then (-1, zero_cpu, st)
             else
               let cur = jiffies_of vs; prev = prev_cpu_jiffies st;
                   dtotal = delta (j_total cur) (j_total prev);
                   didle = delta (j_idle cur) (j_idle prev);
                   duser = delta (j_user cur) (j_user prev);
                   dsystem = delta (j_system cur) (j_system prev)
               in (0, cpu_metrics_of (sys_core_count st) dtotal didle duser dsystem,
                   st\<lparr>last_system_jiffies_delta := dtotal, prev_cpu_jiffies := cur\<rparr>))"

definition mem_line :: "mem_metrics_t \<Rightarrow> string \<Rightarrow> mem_metrics_t" where
  "mem_line ms line =
     (case scan_field ''MemTotal:'' line of Some v \<Rightarrow> ms\<lparr>mem_total_kb := v\<rparr> | None \<Rightarrow>
      case scan_field ''MemFree:'' line of Some v \<Rightarrow> ms\<lparr>mem_free_kb := v\<rparr> | None \<Rightarrow>
      case scan_field ''MemAvailable:'' line of Some v \<Rightarrow> ms\<lparr>mem_available_kb := v\<rparr> | None \<Rightarrow>
      case scan_field ''Buffers:'' line of Some v \<Rightarrow> ms\<lparr>buffers_kb := v\<rparr> | None \<Rightarrow>
      case scan_field ''Cached:'' line of Some v \<Rightarrow> ms\<lparr>cached_kb := v\<rparr> | None \<Rightarrow>
      case scan_field ''SwapTotal:'' line of Some v \<Rightarrow> ms\<lparr>swap_total_kb := v\<rparr> | None \<Rightarrow>
      case scan_field ''SwapFree:'' line of Some v \<Rightarrow> ms\<lparr>swap_free_kb := v\<rparr> | None \<Rightarrow> ms)"

definition used_of :: "nat \<Rightarrow> nat \<Rightarrow> nat" where
  "used_of whole avail = (if whole > avail then whole - avail else 0)"

definition mem_usage :: "mem_metrics_t \<Rightarrow> mem_metrics_t" where
  "mem_usage ms =
     (let m1 = (if mem_total_kb ms > 0
                then ms\<lparr>mem_usage_pct := fpct (used_of (mem_total_kb ms) (mem_available_kb ms)) (mem_total_kb ms)\<rparr> else ms)
      in if swap_total_kb m1 > 0
         then m1\<lparr>swap_usage_pct := fpct (used_of (swap_total_kb m1) (swap_free_kb m1)) (swap_total_kb m1)\<rparr> else m1)"

definition proc_parser_read_mem :: "proc_fs \<Rightarrow> int \<times> mem_metrics_t" where
  "proc_parser_read_mem fs =
     (case read_file fs ''/proc/meminfo'' 8191 of
        None \<Rightarrow> (-1, zero_mem)
      | Some raw \<Rightarrow> (0, mem_usage (foldl mem_line zero_mem (strtok_lines (c_str raw)))))"

subsection \<open>Processes\<close>

definition find_previous_process_time :: "parser_state \<Rightarrow> int \<Rightarrow> nat option" where
  "find_previous_process_time st pid =
     map_option snd (find (\<lambda>(q, t). q = pid) (prev_processes st))"

definition status_line :: "process_info_t \<Rightarrow> string \<Rightarrow> process_info_t" where
  "status_line pr line =
     (case scan_field ''VmSize:'' line of Some v \<Rightarrow> pr\<lparr>p_vm_size_kb := v\<rparr> | None \<Rightarrow>
      case scan_field ''VmRSS:'' line of Some v \<Rightarrow> pr\<lparr>p_vm_rss_kb := v\<rparr> | None \<Rightarrow>
      case scan_field ''voluntary_ctxt_switches:'' line of Some v \<Rightarrow> pr\<lparr>p_voluntary_ctxt_switches := v\<rparr> | None \<Rightarrow>
      case scan_field ''nonvoluntary_ctxt_switches:'' line of Some v \<Rightarrow> pr\<lparr>p_nonvoluntary_ctxt_switches := v\<rparr> | None \<Rightarrow> pr)"

definition proc_path :: "int \<Rightarrow> string \<Rightarrow> string" where
  "proc_path pid name = take 511 (''/proc/'' @ show_int pid @ ''/'' @ name)"

text \<open>The fields of the text behind the command name: one character and nineteen numbers.\<close>

definition stat_fields :: "process_info_t \<Rightarrow> string \<Rightarrow> process_info_t option" where
  "stat_fields pr rest =
     (let vs = scan_ints 19 (tl rest) in
      if rest = [] \<or> length vs < 19 then None
      else Some (pr\<lparr>p_state := hd rest, p_ppid := to_int (vs ! 0),
        p_utime := to_ull (vs ! 10), p_stime := to_ull (vs ! 11),
        p_total_time := add_ull (to_ull (vs ! 10)) (to_ull (vs ! 11)),
        p_priority := to_long (vs ! 14), p_nice := to_long (vs ! 15),
        p_num_threads := to_long (vs ! 16), p_starttime_ticks := to_ull (vs ! 18)\<rparr>))"

definition parse_stat :: "int \<Rightarrow> string \<Rightarrow> process_info_t option" where
  "parse_stat pid raw =
     (let buf = c_str raw in
      case (strchr buf (CHR ''(''), strrchr buf (CHR '')'')) of
        (Some comm_start, Some comm_end) \<Rightarrow>
          if comm_end \<le> comm_start then None
          else
            let comm = take (MAX_COMM_LEN - 1) (take (comm_end - (comm_start + 1)) (drop (comm_start + 1) buf))
            in if comm_end + 2 \<ge> length raw then None
               else stat_fields (zero_process\<lparr>p_pid := pid, p_comm := comm\<rparr>) (c_str (drop (comm_end + 2) raw))
      | _ \<Rightarrow> None)"

definition proc_parser_read_process :: "proc_fs \<Rightarrow> int \<Rightarrow> process_info_t option" where
  "proc_parser_read_process fs pid =
     (case read_file fs (proc_path pid ''stat'') 4095 of
        None \<Rightarrow> None
      | Some raw \<Rightarrow>
          (case parse_stat pid raw of
             None \<Rightarrow> None
           | Some pr \<Rightarrow>
               (case read_file fs (proc_path pid ''status'') 4095 of
                  None \<Rightarrow> Some pr
                | Some raw' \<Rightarrow> Some (foldl status_line pr (strtok_lines (c_str raw'))))))"

subsection \<open>The snapshot\<close>

definition atoi :: "string \<Rightarrow> int" where
  "atoi s = to_int (fst (strtol s))"

text \<open>The percentages of one process.\<close>

definition process_usage :: "parser_state \<Rightarrow> nat \<Rightarrow> process_info_t \<Rightarrow> process_info_t" where
  "process_usage st mem_total pr =
     (let d = last_system_jiffies_delta st;
          cpu = (if d > 0 then
                   case find_previous_process_time st (p_pid pr) of
                     Some previous \<Rightarrow>
                       fl32 (fl32 (fl32 (fl32 (of_nat (delta (p_total_time pr) previous)) / fl32 (of_nat d)) * 100) *
                             fl32 (of_int (sys_core_count st)))
                   | None \<Rightarrow> 0
                 else 0);
          p1 = pr\<lparr>p_cpu_usage_pct := cpu\<rparr>
      in if mem_total > 0 then p1\<lparr>p_mem_usage_pct := fpct (p_vm_rss_kb pr) mem_total\<rparr> else p1)"

text \<open>The loop over the directory entries: the processes read so far, and whether the table is
  full before the directory is exhausted.\<close>

fun snapshot_loop ::
  "proc_fs \<Rightarrow> parser_state \<Rightarrow> nat \<Rightarrow> string list \<Rightarrow> process_info_t list \<Rightarrow> process_info_t list \<times> bool" where
  "snapshot_loop fs st mem_total [] ps = (ps, False)"
| "snapshot_loop fs st mem_total (name # names) ps =
     (if name = [] \<or> \<not> isdigit (hd name) then snapshot_loop fs st mem_total names ps
      else if length ps \<ge> MAX_PROCS then (ps, True)
      else
        case proc_parser_read_process fs (atoi name) of
          None \<Rightarrow> snapshot_loop fs st mem_total names ps
        | Some pr \<Rightarrow> snapshot_loop fs st mem_total names (ps @ [process_usage st mem_total pr]))"

definition proc_parser_take_snapshot ::
  "proc_fs \<Rightarrow> string list option \<Rightarrow> int \<Rightarrow> parser_state \<Rightarrow> int \<times> system_snapshot_t \<times> parser_state" where
  "proc_parser_take_snapshot fs dir now st =
     (case proc_parser_read_cpu fs st of
        (r, cpu, st1) \<Rightarrow>
          let sn = \<lparr>s_procs = [], s_truncated = False, s_cpu = cpu, s_mem = zero_mem, s_timestamp = now\<rparr>
          in if r \<noteq> 0 then (-1, sn, st1)
             else
               (case proc_parser_read_mem fs of
                  (r', mm) \<Rightarrow>
                    let sn1 = sn\<lparr>s_mem := mm\<rparr>
                    in if r' \<noteq> 0 then (-1, sn1, st1)
                       else
                         (case dir of
                            None \<Rightarrow> (-1, sn1, st1)
                          | Some names \<Rightarrow>
                              let (ps, full) = snapshot_loop fs st1 (mem_total_kb mm) names []
                              in (0, sn1\<lparr>s_procs := ps, s_truncated := full\<rparr>,
                                  st1\<lparr>prev_processes := map (\<lambda>pr. (p_pid pr, p_total_time pr)) ps\<rparr>))))"

definition proc_parser_init :: "proc_fs \<Rightarrow> int \<Rightarrow> parser_state \<Rightarrow> int \<times> parser_state" where
  "proc_parser_init fs cores st =
     (let st1 = (if cores > 0 \<and> cores \<le> 2 ^ 31 - 1 then st\<lparr>sys_core_count := cores\<rparr> else st) in
      case proc_parser_read_cpu fs st1 of
        (r, _, st2) \<Rightarrow> if r \<noteq> 0 then (-1, st2) else (0, st2\<lparr>prev_processes := []\<rparr>))"

text \<open>\<^verbatim>\<open>proc_parser_get_maps\<close>: the text stored in the buffer, or an error. An empty file is no error here.\<close>

definition proc_parser_get_maps :: "proc_fs \<Rightarrow> int \<Rightarrow> nat \<Rightarrow> string option" where
  "proc_parser_get_maps fs pid buf_size =
     (if buf_size = 0 then None else map_option (take (buf_size - 1)) (fs (proc_path pid ''maps'')))"

end
