(* ===== verification/Signal_Handler.thy ===== *)
theory Signal_Handler
  imports C_Text
begin

text \<open>
  The functions of \<^verbatim>\<open>src/monitor/signal_handler.c\<close>. The kernel's answer to \<^verbatim>\<open>kill\<close> is a parameter;
  the calls made are recorded as pairs of a process and a signal, in order.
\<close>

type_synonym kill_call = "int \<times> int"

definition SIGINT :: int where
  "SIGINT = 2"

definition SIGKILL :: int where
  "SIGKILL = 9"

definition SIGTERM :: int where
  "SIGTERM = 15"

definition SIGCONT :: int where
  "SIGCONT = 18"

definition SIGSTOP :: int where
  "SIGSTOP = 19"

lemmas signal_defs = SIGINT_def SIGKILL_def SIGTERM_def SIGCONT_def SIGSTOP_def

definition signal_send_to_process ::
  "(int \<Rightarrow> int \<Rightarrow> bool) \<Rightarrow> int \<Rightarrow> int \<Rightarrow> kill_call list \<Rightarrow> int \<times> kill_call list" where
  "signal_send_to_process kill_ok pid sig calls =
     (if pid \<le> 1 then (-1, calls)
      else if \<not> kill_ok pid sig then (-1, calls @ [(pid, sig)])
      else (0, calls @ [(pid, sig)]))"

definition signal_parse_name :: "string option \<Rightarrow> int" where
  "signal_parse_name name_opt =
     (case name_opt of
        None \<Rightarrow> SIGTERM
      | Some name \<Rightarrow>
          if length name = 0 then SIGTERM
          else if name = ''SIGKILL'' \<or> name = ''9'' then SIGKILL
          else if name = ''SIGTERM'' \<or> name = ''15'' then SIGTERM
          else if name = ''SIGSTOP'' \<or> name = ''19'' then SIGSTOP
          else if name = ''SIGCONT'' \<or> name = ''18'' then SIGCONT
          else if name = ''SIGINT'' \<or> name = ''2'' then SIGINT
          else if name = ''0'' then 0
          else
            case strtol name of
              (val, endptr, erange) \<Rightarrow>
                if \<not> erange \<and> endptr = [] \<and> val \<ge> 0 \<and> val \<le> 31 then val else -1)"

subsection \<open>Facts\<close>

lemma send_target: "(p, g) \<in> set (snd (signal_send_to_process ko pid sig calls)) \<Longrightarrow>
    (p, g) \<in> set calls \<or> p = pid \<and> g = sig \<and> 1 < p"
  by (auto simp: signal_send_to_process_def split: if_splits)

lemma signal_parse_name_range: "- 1 \<le> signal_parse_name x \<and> signal_parse_name x \<le> 31"
  by (auto simp: signal_parse_name_def signal_defs split: option.splits prod.splits)

lemma digits_value_last: "ds \<noteq> [] \<Longrightarrow> digits_value ds = 10 * digits_value (butlast ds) + digit_value (last ds)"
  using digits_value_append [of "butlast ds" "last ds"] by simp

lemma strtol_big:
  assumes "LONG_MAX < int n"
  shows "snd (snd (strtol (show_nat n)))"
proof -
  obtain d es where ds: "show_nat n = d # es" using show_nat_digits(2) by (cases "show_nat n") auto
  have all: "list_all isdigit (d # es)" using show_nat_digits(1) [of n] ds by simp
  then have d: "\<not> isspace d" "d \<noteq> CHR ''-''" "d \<noteq> CHR ''+''" using isdigit_not [of d] by auto
  have "takeWhile isdigit (d # es) = d # es" using all by (simp add: list_all_iff)
  then show ?thesis using assms d digits_value_show [of n] unfolding ds by (simp add: strtol_def Let_def)
qed

text \<open>The numeric names: what \<^verbatim>\<open>%d\<close> prints for a number is parsed back to it if it is at most 31.\<close>

lemma signal_parse_number: "signal_parse_name (Some (show_nat n)) = (if n \<le> 31 then int n else -1)"
proof -
  note D = digits_value_show [of n]
  have nd: "show_nat n \<noteq> ''SIGKILL''" "show_nat n \<noteq> ''SIGTERM''" "show_nat n \<noteq> ''SIGSTOP''"
    "show_nat n \<noteq> ''SIGCONT''" "show_nat n \<noteq> ''SIGINT''" "show_nat n \<noteq> ''''"
    using show_nat_digits [of n] by (auto simp: isdigit_def)
  have lit: "show_nat n = ''9'' \<Longrightarrow> n = 9" "show_nat n = ''15'' \<Longrightarrow> n = 15" "show_nat n = ''19'' \<Longrightarrow> n = 19"
    "show_nat n = ''18'' \<Longrightarrow> n = 18" "show_nat n = ''2'' \<Longrightarrow> n = 2" "show_nat n = ''0'' \<Longrightarrow> n = 0"
    using D by (simp_all add: digits_value_def digit_value_def)
  show ?thesis
  proof (cases "int n \<le> LONG_MAX")
    case True
    show ?thesis using nd lit strtol_show_nat [OF True]
      by (auto simp: signal_parse_name_def signal_defs)
  next
    case False
    then have "\<not> n \<le> 31" by (simp add: LONG_MAX_def)
    moreover have "snd (snd (strtol (show_nat n)))" using strtol_big False by simp
    ultimately show ?thesis using nd lit by (auto simp: signal_parse_name_def split: prod.splits)
  qed
qed

end
