(* ===== verification/Gui_Server.thy ===== *)
theory Gui_Server
  imports Gui_Request Output_Loop Proc_Parser Signal_Handler
begin

text \<open>
  The request handling of \<^verbatim>\<open>src/monitor/gui_server.c\<close>: responses, files, the metrics document,
  signal requests and the routes. The connection, the files, memory allocation and \<^verbatim>\<open>kill\<close> are
  parameters. A body is the string before its terminating zero. A handler that keeps retrying a send has no result.
\<close>

definition MAX_AUTH_TOKEN_LEN :: nat where
  "MAX_AUTH_TOKEN_LEN = 128"

definition MAX_CLIENT_WORKERS :: int where
  "MAX_CLIENT_WORKERS = 32"

definition BUFFER_SIZE :: nat where
  "BUFFER_SIZE = 8192"

definition INITIAL_JSON_CAP :: nat where
  "INITIAL_JSON_CAP = 64 * 1024"

record gui_server_t =
  bind_host :: string
  port :: int
  auth_token :: string
  server_fd :: int
  server_running :: bool
  latest_snapshot :: "system_snapshot_t option"
  active_workers :: int
  initialized :: bool

subsection \<open>Responses\<close>

definition response_header :: "string \<Rightarrow> string \<Rightarrow> nat \<Rightarrow> string \<Rightarrow> string" where
  "response_header status content_type body_len extra =
     ''HTTP/1.1 '' @ status @ crlf @ ''Content-Type: '' @ content_type @ crlf @
     ''Content-Length: '' @ show_nat body_len @ crlf @ ''Connection: close'' @ crlf @ extra @ crlf"

definition send_response :: "device \<Rightarrow> string \<Rightarrow> string \<Rightarrow> string \<Rightarrow> string \<Rightarrow> wire \<Rightarrow> wire option" where
  "send_response dev status content_type body extra w =
     (let header = response_header status content_type (length body) extra in
      if length header \<ge> 1024 then Some w
      else
        case send_all dev header w of
          None \<Rightarrow> None
        | Some (_, w1) \<Rightarrow> if length body > 0 then map_option snd (send_all dev body w1) else Some w1)"

text \<open>A file as the kernel answers for it: whether \<^verbatim>\<open>fstat\<close> succeeds, the size it reports, and the
  blocks that successive \<^verbatim>\<open>read\<close> calls return before the first that returns none.\<close>

record file_answers =
  fstat_ok :: bool
  st_size :: int
  blocks :: "string list"

definition file_header :: "string \<Rightarrow> int \<Rightarrow> string" where
  "file_header content_type n =
     ''HTTP/1.1 200 OK'' @ crlf @ ''Content-Type: '' @ content_type @ crlf @
     ''Content-Length: '' @ show_int n @ crlf @ ''Connection: close'' @ crlf @
     ''X-Content-Type-Options: nosniff'' @ crlf @ ''X-Frame-Options: DENY'' @ crlf @
     ''Referrer-Policy: no-referrer'' @ crlf @ ''Cache-Control: no-store'' @ crlf @
     ''Content-Security-Policy: default-src '' @ [CHR 0x27] @ ''self'' @ [CHR 0x27] @ ''; object-src '' @ [CHR 0x27] @
     ''none'' @ [CHR 0x27] @ ''; base-uri '' @ [CHR 0x27] @ ''self'' @ [CHR 0x27] @ ''; frame-ancestors '' @ [CHR 0x27] @
     ''none'' @ [CHR 0x27] @ ''; script-src '' @ [CHR 0x27] @ ''self'' @ [CHR 0x27] @ ''; style-src '' @ [CHR 0x27] @
     ''self'' @ [CHR 0x27] @ '' '' @ [CHR 0x27] @ ''unsafe-inline'' @ [CHR 0x27] @ ''; connect-src '' @ [CHR 0x27] @
     ''self'' @ [CHR 0x27] @ crlf @ crlf"

fun send_blocks :: "device \<Rightarrow> string list \<Rightarrow> wire \<Rightarrow> wire option" where
  "send_blocks dev [] w = Some w"
| "send_blocks dev (b # bs) w =
     (case send_all dev b w of
        None \<Rightarrow> None
      | Some (r, w1) \<Rightarrow> if r \<noteq> 0 then Some w1 else send_blocks dev bs w1)"

definition serve_file :: "device \<Rightarrow> (string \<Rightarrow> file_answers option) \<Rightarrow> string \<Rightarrow> string \<Rightarrow> wire \<Rightarrow> wire option" where
  "serve_file dev files filepath content_type w =
     (case files filepath of
        None \<Rightarrow> send_response dev ''404 Not Found'' ''text/plain'' ''404 Not Found'' [] w
      | Some f \<Rightarrow>
          if \<not> fstat_ok f then
            send_response dev ''500 Internal Server Error'' ''text/plain'' ''500 Internal Error'' [] w
          else
            let header = file_header content_type (st_size f) in
            if length header < 512 then
              (case send_all dev header w of
                 None \<Rightarrow> None
               | Some (r, w1) \<Rightarrow> if r = 0 then send_blocks dev (blocks f) w1 else Some w1)
            else Some w)"

subsection \<open>The metrics document\<close>

abbreviation LF :: string where
  "LF \<equiv> [CHR 0x0A]"

definition jstr :: "string \<Rightarrow> string" where
  "jstr s = CHR 0x22 # s @ [CHR 0x22]"

definition metrics_head :: "system_snapshot_t option \<Rightarrow> string" where
  "metrics_head snap =
     (let c = (case snap of Some sn \<Rightarrow> s_cpu sn | None \<Rightarrow> zero_cpu);
          mm = (case snap of Some sn \<Rightarrow> s_mem sn | None \<Rightarrow> zero_mem);
          ts = (case snap of Some sn \<Rightarrow> s_timestamp sn | None \<Rightarrow> 0);
          tr = (case snap of Some sn \<Rightarrow> s_truncated sn | None \<Rightarrow> False)
      in ''{'' @ LF @
         ''  '' @ jstr ''timestamp'' @ '': '' @ show_int ts @ '','' @ LF @
         ''  '' @ jstr ''truncated'' @ '': '' @ (if tr then ''true'' else ''false'') @ '','' @ LF @
         ''  '' @ jstr ''cpu'' @ '': {'' @ jstr ''total_usage_pct'' @ '': '' @ show_2f (total_usage_pct c) @ '', '' @
           jstr ''user_pct'' @ '': '' @ show_2f (user_pct c) @ '', '' @
           jstr ''system_pct'' @ '': '' @ show_2f (system_pct c) @ '', '' @
           jstr ''idle_pct'' @ '': '' @ show_2f (idle_pct c) @ '', '' @
           jstr ''core_count'' @ '': '' @ show_int (core_count c) @ ''},'' @ LF @
         ''  '' @ jstr ''mem'' @ '': {'' @ jstr ''mem_total_kb'' @ '': '' @ show_nat (mem_total_kb mm) @ '', '' @
           jstr ''mem_available_kb'' @ '': '' @ show_nat (mem_available_kb mm) @ '', '' @
           jstr ''mem_free_kb'' @ '': '' @ show_nat (mem_free_kb mm) @ '', '' @
           jstr ''buffers_kb'' @ '': '' @ show_nat (buffers_kb mm) @ '', '' @
           jstr ''cached_kb'' @ '': '' @ show_nat (cached_kb mm) @ '', '' @
           jstr ''mem_usage_pct'' @ '': '' @ show_2f (mem_usage_pct mm) @ '', '' @
           jstr ''swap_total_kb'' @ '': '' @ show_nat (swap_total_kb mm) @ '', '' @
           jstr ''swap_free_kb'' @ '': '' @ show_nat (swap_free_kb mm) @ '', '' @
           jstr ''swap_usage_pct'' @ '': '' @ show_2f (swap_usage_pct mm) @ ''},'' @ LF @
         ''  '' @ jstr ''processes'' @ '': ['' @ LF)"

definition metrics_line :: "process_info_t \<Rightarrow> bool \<Rightarrow> string" where
  "metrics_line p is_last =
     ''    {'' @ jstr ''pid'' @ '': '' @ show_int (p_pid p) @ '', '' @
     jstr ''comm'' @ '': '' @ jstr (escape_json_string (p_comm p) (MAX_COMM_LEN * 4)) @ '', '' @
     jstr ''state'' @ '': '' @ jstr [p_state p] @ '', '' @
     jstr ''cpu_pct'' @ '': '' @ show_2f (p_cpu_usage_pct p) @ '', '' @
     jstr ''mem_rss_kb'' @ '': '' @ show_nat (p_vm_rss_kb p) @ '', '' @
     jstr ''threads'' @ '': '' @ show_int (p_num_threads p) @ ''}'' @ (if is_last then [] else '','') @ LF"

definition metrics_tail :: string where
  "metrics_tail = ''  ]'' @ LF @ ''}'' @ LF"

text \<open>
  The loop over the processes with the growing buffer: \<open>json\<close> is the text so far (\<^verbatim>\<open>offset\<close> is its
  length), \<open>cap\<close> the size of the buffer, \<open>alloc_ok\<close> tells which sizes can be allocated.
\<close>

fun metrics_loop :: "(nat \<Rightarrow> bool) \<Rightarrow> process_info_t list \<Rightarrow> string \<Rightarrow> nat \<Rightarrow> (string \<times> nat) option" where
  "metrics_loop alloc_ok [] json cap = Some (json, cap)"
| "metrics_loop alloc_ok (p # ps) json cap =
     (let grow = (length json + 1024 > cap); cap1 = (if grow then cap * 2 else cap) in
      if grow \<and> \<not> alloc_ok cap1 then None
      else
        let line = metrics_line p (ps = [])
        in if length line \<ge> cap1 - length json then None
           else metrics_loop alloc_ok ps (json @ line) cap1)"

definition metrics_json :: "(nat \<Rightarrow> bool) \<Rightarrow> system_snapshot_t option \<Rightarrow> string option" where
  "metrics_json alloc_ok snap =
     (let head = metrics_head snap in
      if length head \<ge> INITIAL_JSON_CAP then None
      else
        case metrics_loop alloc_ok (case snap of Some sn \<Rightarrow> s_procs sn | None \<Rightarrow> []) head INITIAL_JSON_CAP of
          None \<Rightarrow> None
        | Some (json, cap) \<Rightarrow>
            if length json + 32 > cap \<and> \<not> alloc_ok (cap + 1024) then None
            else Some (json @ metrics_tail))"

text \<open>The response reads the document as a string, up to its first zero.\<close>

definition serve_metrics_json :: "device \<Rightarrow> (nat \<Rightarrow> bool) \<Rightarrow> gui_server_t \<Rightarrow> wire \<Rightarrow> wire option" where
  "serve_metrics_json dev alloc_ok server w =
     (if \<not> alloc_ok INITIAL_JSON_CAP then
        send_response dev ''500 Internal Server Error'' ''text/plain'' ''Out of Memory'' [] w
      else
        case metrics_json alloc_ok (latest_snapshot server) of
          None \<Rightarrow> send_response dev ''500 Internal Server Error'' ''text/plain'' ''Unable to serialize metrics'' [] w
        | Some json \<Rightarrow>
            send_response dev ''200 OK'' ''application/json'' (c_str json) (''Cache-Control: no-store'' @ crlf) w)"

subsection \<open>Requests\<close>

definition json_error :: "string \<Rightarrow> string" where
  "json_error msg = ''{'' @ jstr ''error'' @ '': '' @ jstr msg @ ''}''"

definition failed_dispatch :: string where
  "failed_dispatch = ''{'' @ jstr ''status'' @ '': '' @ jstr ''error'' @ '', '' @ jstr ''message'' @ '': '' @
     jstr ''Failed to dispatch signal'' @ ''}''"

datatype signal_reply = Unauthorized | Missing_Body | Missing_Pid | Invalid_Pid | Invalid_Signal | Sent_Signal | Failed_Signal

text \<open>The decision of \<^verbatim>\<open>handle_process_signal\<close> with the calls of \<^verbatim>\<open>kill\<close> it makes.\<close>

definition decide_signal ::
  "(int \<Rightarrow> int \<Rightarrow> bool) \<Rightarrow> string \<Rightarrow> string \<Rightarrow> kill_call list \<Rightarrow> signal_reply \<times> kill_call list" where
  "decide_signal kill_ok token buffer ks =
     (if \<not> check_auth token buffer then (Unauthorized, ks)
      else
        case strstr buffer (crlf @ crlf) of
          None \<Rightarrow> (Missing_Body, ks)
        | Some h \<Rightarrow>
            let body = drop (h + 4) buffer;
                pid_str = parse_json_field body ''pid'' 32;
                sig_str = parse_json_field body ''signal'' 32
            in if pid_str = [] then (Missing_Pid, ks)
               else
                 case strtol pid_str of
                   (parsed_pid, endptr, erange) \<Rightarrow>
                     if erange \<or> endptr \<noteq> [] \<or> parsed_pid \<le> 1 \<or> parsed_pid > 4194304 then (Invalid_Pid, ks)
                     else
                       let sig = signal_parse_name (Some (if sig_str \<noteq> [] then sig_str else ''SIGTERM''))
                       in if sig < 0 then (Invalid_Signal, ks)
                          else
                            case signal_send_to_process kill_ok parsed_pid sig ks of
                              (r, ks1) \<Rightarrow> if r = 0 then (Sent_Signal, ks1) else (Failed_Signal, ks1))"

definition reply_text :: "signal_reply \<Rightarrow> string \<times> string" where
  "reply_text r =
     (case r of
        Unauthorized \<Rightarrow> (''401 Unauthorized'', json_error ''Unauthorized'')
      | Missing_Body \<Rightarrow> (''400 Bad Request'', json_error ''Missing body'')
      | Missing_Pid \<Rightarrow> (''400 Bad Request'', json_error ''Missing pid'')
      | Invalid_Pid \<Rightarrow> (''400 Bad Request'', json_error ''Invalid target PID'')
      | Invalid_Signal \<Rightarrow> (''400 Bad Request'', json_error ''Invalid signal name'')
      | Sent_Signal \<Rightarrow> (''200 OK'', ''{'' @ jstr ''status'' @ '': '' @ jstr ''success'' @ ''}'')
      | Failed_Signal \<Rightarrow> (''500 Internal Server Error'', failed_dispatch))"

definition handle_process_signal ::
  "device \<Rightarrow> (int \<Rightarrow> int \<Rightarrow> bool) \<Rightarrow> gui_server_t \<Rightarrow> string \<Rightarrow> kill_call list \<Rightarrow> wire \<Rightarrow> (wire \<times> kill_call list) option" where
  "handle_process_signal dev kill_ok server buffer ks w =
     (let (r, ks1) = decide_signal kill_ok (auth_token server) buffer ks; (status, body) = reply_text r
      in map_option (\<lambda>w1. (w1, ks1)) (send_response dev status ''application/json'' body [] w))"

datatype route = Page string string | Metrics | Signal | No_Route | Bad_Method

definition route_of :: "string \<Rightarrow> route" where
  "route_of buffer =
     (if has_prefix ''GET / '' buffer \<or> has_prefix ''GET /index.html'' buffer then Page ''web/index.html'' ''text/html''
      else if has_prefix ''GET /style.css'' buffer then Page ''web/style.css'' ''text/css''
      else if has_prefix ''GET /app.js'' buffer then Page ''web/app.js'' ''application/javascript''
      else if has_prefix ''GET /api/metrics'' buffer then Metrics
      else if has_prefix ''POST /api/process/signal'' buffer then Signal
      else if has_prefix ''GET '' buffer \<or> has_prefix ''POST '' buffer \<or> has_prefix ''PUT '' buffer \<or>
              has_prefix ''DELETE '' buffer then No_Route
      else Bad_Method)"

record client_env =
  e_dev :: device
  e_files :: "string \<Rightarrow> file_answers option"
  e_alloc :: "nat \<Rightarrow> bool"
  e_kill :: "int \<Rightarrow> int \<Rightarrow> bool"

text \<open>The work of \<^verbatim>\<open>client_thread_worker\<close> on the bytes one \<^verbatim>\<open>recv\<close> returned (none on an error or a
  closed connection).\<close>

definition serve_client ::
  "client_env \<Rightarrow> gui_server_t \<Rightarrow> string \<Rightarrow> kill_call list \<Rightarrow> wire \<Rightarrow> (wire \<times> kill_call list) option" where
  "serve_client e server received ks w =
     (if received = [] then Some (w, ks)
      else
        let buffer = c_str (take (BUFFER_SIZE - 1) received); dev = e_dev e in
        case route_of buffer of
          Page path ctype \<Rightarrow> map_option (\<lambda>w1. (w1, ks)) (serve_file dev (e_files e) path ctype w)
        | Metrics \<Rightarrow> map_option (\<lambda>w1. (w1, ks)) (serve_metrics_json dev (e_alloc e) server w)
        | Signal \<Rightarrow> handle_process_signal dev (e_kill e) server buffer ks w
        | No_Route \<Rightarrow>
            map_option (\<lambda>w1. (w1, ks))
              (send_response dev ''404 Not Found'' ''application/json'' (json_error ''Route not found'') [] w)
        | Bad_Method \<Rightarrow>
            map_option (\<lambda>w1. (w1, ks))
              (send_response dev ''405 Method Not Allowed'' ''application/json'' (json_error ''Method not allowed'') [] w))"

end
