(* ===== verification/Gui_Request_Facts.thy ===== *)
theory Gui_Request_Facts
  imports Gui_Request
begin

text \<open>
  Facts about the text functions of the HTTP server: the escaped string fits its buffer and is
  decoded back to the original by a JSON string reader; the comparison is equality; the
  authentication loop decides a condition on the header lines; a field of a JSON object is
  found again.
\<close>

subsection \<open>Escaping\<close>

lemma length_escape_char: "length (escape_char c) \<le> 6"
  by (simp add: escape_char_def)

lemma length_escape_loop: "length out < m \<Longrightarrow> length (escape_loop s out m) < m"
proof (induction s out m rule: escape_loop.induct)
  case (2 c cs out m)
  then show ?case using length_escape_char [of c] by simp
qed simp

text \<open>A reader for the inside of a JSON string. It refuses quotes and control characters.\<close>

definition hex_value :: "char \<Rightarrow> nat option" where
  "hex_value c = strchr hex_chars c"

fun json_decode :: "string \<Rightarrow> string option" where
  "json_decode [] = Some []"
| "json_decode (c # cs) =
     (if of_char c < (32 :: nat) \<or> c = CHR 0x22 then None
      else if c \<noteq> CHR 0x5C then map_option ((#) c) (json_decode cs)
      else
        case cs of
          [] \<Rightarrow> None
        | d # ds \<Rightarrow>
            if d = CHR 0x22 \<or> d = CHR 0x5C then map_option ((#) d) (json_decode ds)
            else if d = CHR ''b'' then map_option ((#) (CHR 0x08)) (json_decode ds)
            else if d = CHR ''f'' then map_option ((#) (CHR 0x0C)) (json_decode ds)
            else if d = CHR ''n'' then map_option ((#) (CHR 0x0A)) (json_decode ds)
            else if d = CHR ''r'' then map_option ((#) (CHR 0x0D)) (json_decode ds)
            else if d = CHR ''t'' then map_option ((#) (CHR 0x09)) (json_decode ds)
            else if d = CHR ''u'' then
              (case ds of
                 h1 # h2 # h3 # h4 # es \<Rightarrow>
                   (case (hex_value h1, hex_value h2, hex_value h3, hex_value h4) of
                      (Some 0, Some 0, Some x, Some y) \<Rightarrow> map_option ((#) (char_of (16 * x + y))) (json_decode es)
                    | _ \<Rightarrow> None)
               | _ \<Rightarrow> None)
            else None)"

lemma hex_value_digit: "n < 16 \<Longrightarrow> hex_value (hex_chars ! n) = Some n"
proof -
  have "list_all (\<lambda>n. hex_value (hex_chars ! n) = Some n) [0..<16]"
    by (simp add: upt_rec hex_value_def hex_chars_def)
  then show "n < 16 \<Longrightarrow> hex_value (hex_chars ! n) = Some n" by (simp add: list_all_iff)
qed

lemma decode_escape_char: "json_decode (escape_char c @ s) = map_option ((#) c) (json_decode s)"
proof -
  have "hex_value (hex_chars ! (of_char c div 16)) = Some (of_char c div 16)"
    "hex_value (hex_chars ! (of_char c mod 16)) = Some (of_char c mod 16)" if "of_char c < (32 :: nat)"
    using that by (auto intro!: hex_value_digit)
  moreover have "hex_value (CHR ''0'') = Some 0" by (simp add: hex_value_def hex_chars_def)
  moreover have "char_of (16 * (of_char c div 16) + of_char c mod 16 :: nat) = c"
    by (metis char_of_char mult_div_mod_eq)
  ultimately show ?thesis by (auto simp: escape_char_def)
qed

lemma decode_escape_loop:
  "\<exists>k\<le>length s. \<exists>t. escape_loop s out m = out @ t \<and> json_decode t = Some (take k s) \<and>
     (length out + 6 * length s < m \<longrightarrow> k = length s)"
proof (induction s out m rule: escape_loop.induct)
  case (2 c cs out m)
  show ?case
  proof (cases "length out + 6 < m")
    case True
    with 2 obtain k t where k: "k \<le> length cs" "escape_loop cs (out @ escape_char c) m = (out @ escape_char c) @ t"
      "json_decode t = Some (take k cs)" "length (out @ escape_char c) + 6 * length cs < m \<longrightarrow> k = length cs" by blast
    have "escape_loop (c # cs) out m = out @ (escape_char c @ t)" using True k(2) by simp
    moreover have "json_decode (escape_char c @ t) = Some (take (Suc k) (c # cs))"
      by (simp add: decode_escape_char k(3))
    moreover have "length out + 6 * length (c # cs) < m \<longrightarrow> Suc k = length (c # cs)"
      using k(4) length_escape_char [of c] by simp
    ultimately show ?thesis using k(1) by (intro exI [of _ "Suc k"] conjI exI [of _ "escape_char c @ t"]) simp_all
  next
    case False
    then show ?thesis by (intro exI [of _ 0] conjI exI [of _ "[]"]) simp_all
  qed
qed auto

subsection \<open>Comparison\<close>

lemma or_eq_zero: "(a :: 8 word) OR b = 0 \<longleftrightarrow> a = 0 \<and> b = 0"
  by (metis or.left_neutral or.commute or.left_idem or_eq_0_iff)

lemma xor_eq_zero: "(a :: 8 word) XOR b = 0 \<longleftrightarrow> a = b"
  by (metis xor.assoc xor.right_neutral xor_self_eq)

lemma streq_fold:
  "foldl (\<lambda>r i. r OR (uchar (a ! i) XOR uchar (b ! i))) x is = 0 \<longleftrightarrow>
     x = 0 \<and> (\<forall>i\<in>set is. uchar (a ! i) = uchar (b ! i))"
  by (induction "is" arbitrary: x) (auto simp: or_eq_zero xor_eq_zero)

lemma unat_uchar: "unat (uchar x) = of_char x"
proof -
  have "unat (word_of_nat (of_char x) :: 8 word) = of_char x"
    using nat_of_char_less_256 [of x] by (simp only: unsigned_of_nat) (simp add: take_bit_nat_eq_self)
  then show ?thesis unfolding uchar_def of_nat_of_char .
qed

lemma uchar_inj: "uchar c = uchar d \<longleftrightarrow> c = d"
  by (metis unat_uchar of_char_eq_iff)

lemma constant_time_streq_iff:
  "len \<le> length a \<Longrightarrow> len \<le> length b \<Longrightarrow> constant_time_streq a b len \<longleftrightarrow> take len a = take len b"
  by (auto simp: constant_time_streq_def streq_fold uchar_inj list_eq_iff_nth_eq)

subsection \<open>Authentication\<close>

text \<open>The header of a request, its lines, and the lines that carry the token.\<close>

definition header_part :: "string \<Rightarrow> string" where
  "header_part buffer = take (header_length buffer) buffer"

function crlf_lines :: "string \<Rightarrow> string list" where
  "crlf_lines s =
     (case strstr s crlf of None \<Rightarrow> [s] | Some i \<Rightarrow> take i s # crlf_lines (drop (i + 2) s))"
  by pat_completeness auto
termination
proof -
  have "length (drop (i + 2) s) < length s" if "strstr s crlf = Some i" for s i
    using strstr_room [OF that] by (simp add: crlf_def)
  then show ?thesis by (relation "measure length") auto
qed

declare crlf_lines.simps [simp del]

definition auth_line :: "string \<Rightarrow> string \<Rightarrow> bool" where
  "auth_line token line \<longleftrightarrow>
     (\<exists>name. line = name @ token \<and> (map tolower name = map tolower token_header \<or> map tolower name = map tolower bearer_header))"

lemma length_headers: "length token_header = 14" "length bearer_header = 22"
  by (simp_all add: token_header_def bearer_header_def)

lemma prefix_nocase_name:
  assumes "has_prefix_nocase lit line" "length lit \<le> length line"
  shows "line = take (length lit) line @ drop (length lit) line"
    "map tolower (take (length lit) line) = map tolower lit"
  using assms by (simp_all add: has_prefix_nocase_def)

lemma headers_differ: "has_prefix_nocase token_header s \<Longrightarrow> \<not> has_prefix_nocase bearer_header s"
  by (cases s) (auto simp: has_prefix_nocase_def token_header_def bearer_header_def tolower_def)

lemma header_value:
  assumes "n \<le> length rest" "length lit < n" "token \<noteq> []"
  shows "has_prefix_nocase lit rest \<and> n - length lit = length token \<and>
      constant_time_streq (drop (length lit) rest) token (length token) \<longleftrightarrow>
    (\<exists>name. take n rest = name @ token \<and> map tolower name = map tolower lit)"
proof -
  have c: "constant_time_streq (drop (length lit) rest) token (length token) \<longleftrightarrow>
      take (length token) (drop (length lit) rest) = token" if "n - length lit = length token"
    using constant_time_streq_iff [of "length token" "drop (length lit) rest" token] assms that by simp
  show ?thesis
  proof
    assume "has_prefix_nocase lit rest \<and> n - length lit = length token \<and>
      constant_time_streq (drop (length lit) rest) token (length token)"
    then have h: "has_prefix_nocase lit rest" "n = length lit + length token"
      "take (length token) (drop (length lit) rest) = token" using c assms by auto
    then have "take n rest = take (length lit) rest @ token" by (simp add: take_add)
    moreover have "map tolower (take (length lit) rest) = map tolower lit" using h(1) by (simp add: has_prefix_nocase_def)
    ultimately show "\<exists>name. take n rest = name @ token \<and> map tolower name = map tolower lit" by blast
  next
    assume "\<exists>name. take n rest = name @ token \<and> map tolower name = map tolower lit"
    then obtain name where n: "take n rest = name @ token" "map tolower name = map tolower lit" by blast
    have ln: "length name = length lit" using n(2) by (metis length_map)
    have len: "n = length lit + length token" using n(1) ln assms(1) by (metis length_append length_take min.absorb2)
    have "take (length lit) rest = name" "take (length token) (drop (length lit) rest) = token"
      using n(1) ln len assms(1) append_eq_append_conv [of "take (length lit) rest" name]
      by (simp_all add: take_add)
    then show "has_prefix_nocase lit rest \<and> n - length lit = length token \<and>
      constant_time_streq (drop (length lit) rest) token (length token)"
      using c len n(2) by (simp add: has_prefix_nocase_def)
  qed
qed

lemma line_authorizes_iff:
  assumes "n \<le> length rest" "token \<noteq> []"
  shows "line_authorizes token rest n \<longleftrightarrow> auth_line token (take n rest)"
proof -
  have short: "length lit < n" if "take n rest = name @ token" "map tolower name = map tolower lit" for name lit
  proof -
    have "length name = length lit" using that(2) by (metis length_map)
    moreover have "n = length name + length token" using that(1) assms(1) by (metis length_append length_take min.absorb2)
    ultimately show ?thesis using assms(2) by simp
  qed
  have one: "length lit < n \<and> has_prefix_nocase lit rest \<and> n - length lit = length token \<and>
      constant_time_streq (drop (length lit) rest) token (length token) \<longleftrightarrow>
    (\<exists>name. take n rest = name @ token \<and> map tolower name = map tolower lit)" for lit
    using header_value [of n rest lit token] assms short [of _ lit] by blast
  show ?thesis
    using one [of token_header] one [of bearer_header] headers_differ [of rest]
    by (auto simp: line_authorizes_def auth_line_def length_headers)
qed

text \<open>
  Inside the header the next line end in the buffer is the next line end of the header, or the
  blank line that ends it.
\<close>

lemma crlf_drop: "has_prefix crlf s \<longleftrightarrow> (\<exists>r. s = CHR 0x0D # CHR 0x0A # r)"
  by (auto simp: has_prefix_iff crlf_def)

lemma crlf_nonempty: "crlf \<noteq> []" "length crlf = 2"
  by (simp_all add: crlf_def)

text \<open>Either there is no blank line and the header is everything, or a blank line follows it.\<close>

lemma header_end_cases:
  assumes pos: "pos \<le> header_length buffer"
  obtains (all) "length (drop pos buffer) = header_length buffer - pos"
  | (blank) r where "drop (header_length buffer - pos) (drop pos buffer) = crlf @ crlf @ r"
proof (cases "strstr buffer (crlf @ crlf)")
  case None
  then show ?thesis using all by (simp add: header_length_def)
next
  case (Some h)
  then obtain r where "drop h buffer = crlf @ crlf @ r" by (auto simp: strstr_iff has_prefix_iff)
  then show ?thesis using blank pos Some by (simp add: header_length_def)
qed

lemma header_line_found:
  assumes pos: "pos \<le> header_length buffer" and i: "strstr (drop pos buffer) crlf = Some i"
  shows "pos + i \<le> header_length buffer" "pos + i < header_length buffer \<Longrightarrow> pos + i + 2 \<le> header_length buffer"
proof -
  let ?m = "header_length buffer - pos" and ?rest = "drop pos buffer"
  have "i \<le> ?m \<and> (i < ?m \<longrightarrow> i + 2 \<le> ?m)" using pos
  proof (cases rule: header_end_cases)
    case all
    then show ?thesis using strstr_room [OF i] crlf_nonempty by simp
  next
    case (blank r)
    then have "i \<le> ?m" using i by (auto simp: strstr_iff has_prefix_iff) (metis leI)
    moreover have "i + 1 \<noteq> ?m"
    proof
      assume "i + 1 = ?m"
      moreover have "has_prefix crlf (drop i ?rest)" using i by (simp add: strstr_iff)
      ultimately have "hd (drop ?m ?rest) = CHR 0x0A"
        by (metis (no_types, lifting) add.commute crlf_drop drop_drop drop_Suc_Cons drop0 list.sel(1) One_nat_def)
      then show False using blank by (simp add: crlf_def)
    qed
    ultimately show ?thesis by simp
  qed
  then show "pos + i \<le> header_length buffer" "pos + i < header_length buffer \<Longrightarrow> pos + i + 2 \<le> header_length buffer"
    using pos by auto
qed

lemma header_line_none:
  assumes pos: "pos \<le> header_length buffer" and n: "strstr (drop pos buffer) crlf = None"
  shows "length (drop pos buffer) = header_length buffer - pos"
  using pos
proof (cases rule: header_end_cases)
  case (blank r)
  then have "strstr (drop pos buffer) crlf \<noteq> None"
    using strstr_None [of "drop pos buffer" crlf] by (metis append_take_drop_id append.assoc)
  with n show ?thesis by simp
qed

lemma header_length_le: "header_length buffer \<le> length buffer"
  using strstr_room [of buffer "crlf @ crlf"] by (auto simp: header_length_def split: option.splits)

lemma drop_header: "drop pos (header_part buffer) = take (header_length buffer - pos) (drop pos buffer)"
  by (simp add: header_part_def drop_take)

lemma not_auth_empty: "token \<noteq> [] \<Longrightarrow> \<not> auth_line token []"
  by (simp add: auth_line_def)

lemma auth_loop_iff:
  assumes "token \<noteq> []" "pos \<le> header_length buffer"
  shows "auth_loop token buffer (header_length buffer) pos \<longleftrightarrow>
    list_ex (auth_line token) (crlf_lines (drop pos (header_part buffer)))"
  using assms(2)
proof (induction "header_length buffer - pos" arbitrary: pos rule: less_induct)
  case less
  let ?n = "header_length buffer" and ?rest = "drop pos buffer"
  show ?case
  proof (cases "pos < ?n")
    case False
    then have "drop pos (header_part buffer) = []" by (simp add: drop_header)
    then show ?thesis using False not_auth_empty [OF assms(1)]
      by (simp add: auth_loop.simps [of token buffer ?n pos] crlf_lines.simps [of "[]"] crlf_def)
  next
    case pos: True
    note A = line_authorizes_iff [OF _ assms(1), of _ ?rest]
    show ?thesis
    proof (cases "strstr ?rest crlf")
      case None
      note all = header_line_none [OF less.prems None]
      have "take (?n - pos) ?rest = ?rest" using all by simp
      then show ?thesis using pos None A [of "?n - pos"] all
        by (simp add: auth_loop.simps [of token buffer ?n pos] crlf_lines.simps [of "drop pos buffer"] drop_header)
    next
      case (Some i)
      note F = header_line_found [OF less.prems Some]
      note T = strstr_take [OF Some crlf_nonempty(1), of "?n - pos"]
      have il: "i \<le> length ?rest" using strstr_room [OF Some] by simp
      show ?thesis
      proof (cases "pos + i < ?n")
        case True
        then have s: "strstr (drop pos (header_part buffer)) crlf = Some i" and le: "i \<le> ?n - pos"
          using T F crlf_nonempty(2) by (auto simp: drop_header)
        have "crlf_lines (drop pos (header_part buffer)) =
            take i (drop pos (header_part buffer)) # crlf_lines (drop (i + 2) (drop pos (header_part buffer)))"
          by (subst crlf_lines.simps) (simp add: s)
        then have lines: "crlf_lines (drop pos (header_part buffer)) =
            take i ?rest # crlf_lines (drop (pos + i + 2) (header_part buffer))"
          using le by (simp add: drop_header drop_take min_def add.commute)
        have "auth_loop token buffer ?n (pos + i + 2) \<longleftrightarrow>
            list_ex (auth_line token) (crlf_lines (drop (pos + i + 2) (header_part buffer)))"
          using less.hyps [of "pos + i + 2"] F(2) True by simp
        then show ?thesis using pos True Some A [OF il] lines
          by (simp add: auth_loop.simps [of token buffer ?n pos])
      next
        case False
        then have i: "i = ?n - pos" using F(1) by simp
        then have "strstr (drop pos (header_part buffer)) crlf = None" using T crlf_nonempty(2) by (simp add: drop_header)
        then have "crlf_lines (drop pos (header_part buffer)) = [take i ?rest]"
          unfolding i by (subst crlf_lines.simps) (simp add: drop_header)
        then show ?thesis using pos False Some A [OF il]
          by (simp add: auth_loop.simps [of token buffer ?n pos])
      qed
    qed
  qed
qed

lemma check_auth_iff:
  "check_auth token buffer \<longleftrightarrow> token = [] \<or> list_ex (auth_line token) (crlf_lines (header_part buffer))"
  using auth_loop_iff [of token 0 buffer] by (simp add: check_auth_def)

end
