(* ===== verification/Json_Facts.thy ===== *)
theory Json_Facts
  imports Gui_Request_Facts
begin

text \<open>
  Facts about \<^verbatim>\<open>parse_json_field\<close>: the value fits its buffer, and the fields of a request body as
  the dashboard sends it are read back, whatever white space stands between the tokens.
\<close>

subsection \<open>Bounds\<close>

lemma length_quoted_value: "length (quoted_value s n) \<le> n"
proof (induction s n rule: quoted_value.induct)
  case (2 c cs n)
  then show ?case by (cases n) auto
qed simp

lemma length_parse_json_field: "length (parse_json_field json key n) \<le> n - 1"
  using length_quoted_value
  by (auto simp: parse_json_field_def bare_value_def split: option.splits)

subsection \<open>Reading a field back\<close>

lemma strstr_skip:
  "c \<notin> set u \<Longrightarrow> strstr (u @ s) (c # p) = map_option ((+) (length u)) (strstr s (c # p))"
proof (induction u)
  case (Cons x u)
  then show ?case by (cases "strstr s (c # p)") (auto simp: has_prefix_iff)
next
  case Nil
  show ?case by (cases "strstr s (c # p)") simp_all
qed

lemma strstr_here: "strstr (p @ s) p = Some 0"
  by (auto simp: strstr_iff has_prefix_iff)

lemma strstr_mismatch: "s = [] \<or> hd s \<noteq> d \<Longrightarrow> strstr (c # s) (c # d # p) = map_option Suc (strstr s (c # d # p))"
  by (cases s) (auto simp: has_prefix_iff)

definition json_spaces :: "string \<Rightarrow> bool" where
  "json_spaces w \<longleftrightarrow> list_all json_space w"

lemma json_spaces_no_quote: "json_spaces w \<Longrightarrow> CHR 0x22 \<notin> set w \<and> CHR ''s'' \<notin> set w"
proof -
  assume w: "json_spaces w"
  have "\<not> json_space (CHR 0x22)" "\<not> json_space (CHR ''s'')" by (simp_all add: json_space_def)
  with w show ?thesis by (auto simp: json_spaces_def list_all_iff)
qed

lemma skip_spaces: "json_spaces w \<Longrightarrow> dropWhile json_space (w @ s) = dropWhile json_space s"
  by (simp add: json_spaces_def list_all_iff dropWhile_append2)

lemma find_value_at:
  assumes json: "json = u @ c # w @ quoted_key key @ w' @ CHR '':'' # w'' @ v"
    and c: "c = CHR ''{'' \<or> c = CHR '',''" and w: "json_spaces w" "json_spaces w'" "json_spaces w''"
    and v: "v = [] \<or> \<not> json_space (hd v)"
    and first: "strstr json (quoted_key key) = Some (length u + 1 + length w)"
  shows "find_value json key 0 = Some v"
proof -
  let ?q = "length u + 1 + length w"
  have t: "take ?q json = u @ c # w" "drop (?q + length (quoted_key key)) json = w' @ CHR '':'' # w'' @ v"
    unfolding json by simp_all
  have nsp: "\<not> json_space c" "\<not> json_space (CHR '':'')" using c by (auto simp: json_space_def)
  have "json_spaces (rev w)" using w(1) by (simp add: json_spaces_def list_all_iff)
  then have "dropWhile json_space (rev (take ?q json)) = c # rev u" unfolding t using nsp by (simp add: skip_spaces)
  moreover have "dropWhile json_space (drop (?q + length (quoted_key key)) json) = CHR '':'' # w'' @ v"
    unfolding t(2) using w(2) nsp by (simp add: skip_spaces)
  moreover have "dropWhile json_space (w'' @ v) = v" using w(3) v by (cases v) (auto simp: skip_spaces json_spaces_def list_all_iff)
  ultimately show ?thesis using first c by (auto simp: find_value.simps [of json key 0] Let_def)
qed

lemma quoted_value_plain:
  "CHR 0x22 \<notin> set s \<Longrightarrow> CHR 0x5C \<notin> set s \<Longrightarrow> length s \<le> n \<Longrightarrow> quoted_value (s @ CHR 0x22 # r) n = s"
  by (induction s arbitrary: n) auto

lemma bare_value_plain:
  "list_all bare_char s \<Longrightarrow> length s \<le> n \<Longrightarrow> r = [] \<or> \<not> bare_char (hd r) \<Longrightarrow> bare_value (s @ r) n = s"
  by (cases r) (auto simp: bare_value_def list_all_iff takeWhile_append takeWhile_eq_all_conv [THEN iffD2])

lemma bare_digit: "isdigit c \<Longrightarrow> bare_char c \<and> c \<noteq> CHR 0x22 \<and> \<not> json_space c"
  by (auto simp: bare_char_def isdigit_def json_space_def)

text \<open>
  The body of a signal request: an object with the fields \<^verbatim>\<open>pid\<close> and \<^verbatim>\<open>signal\<close>, white space
  \<open>w 0\<close>, .., \<open>w 6\<close> between the tokens.
\<close>

definition signal_body :: "(nat \<Rightarrow> string) \<Rightarrow> nat \<Rightarrow> string \<Rightarrow> string" where
  "signal_body w pid name =
     CHR ''{'' # w 0 @ quoted_key ''pid'' @ w 1 @ CHR '':'' # w 2 @ show_nat pid @
     CHR '','' # w 3 @ quoted_key ''signal'' @ w 4 @ CHR '':'' # w 5 @ CHR 0x22 # name @ CHR 0x22 # w 6 @ ''}''"

lemma digits_no_quote: "CHR 0x22 \<notin> set (show_nat n)"
  using show_nat_digits(1) [of n] bare_digit by (auto simp: list_all_iff)

lemma signal_body_pid:
  assumes w: "\<And>i. json_spaces (w i)" and len: "length (show_nat pid) \<le> n - 1"
  shows "parse_json_field (signal_body w pid name) ''pid'' n = show_nat pid"
proof -
  let ?r = "CHR '','' # w 3 @ quoted_key ''signal'' @ w 4 @ CHR '':'' # w 5 @ CHR 0x22 # name @ CHR 0x22 # w 6 @ ''}''"
  obtain d ds where d: "show_nat pid = d # ds" using show_nat_digits(2) by (cases "show_nat pid") auto
  then have dd: "isdigit d" using show_nat_digits(1) [of pid] by simp
  have q: "CHR 0x22 \<notin> set (CHR ''{'' # w 0)" using json_spaces_no_quote [OF w] by auto
  have "strstr (signal_body w pid name) (quoted_key ''pid'') = Some (length ([] :: string) + 1 + length (w 0))"
    using strstr_skip [OF q, of _ "''pid'' @ [CHR 0x22]"] strstr_here [of "quoted_key ''pid''"]
    by (simp add: signal_body_def quoted_key_def)
  then have "find_value (signal_body w pid name) ''pid'' 0 = Some (show_nat pid @ ?r)"
    by (intro find_value_at [of _ "[]" _ "w 0" _ "w 1" "w 2"])
      (use w dd in \<open>auto simp: signal_body_def d dest!: bare_digit\<close>)
  then show ?thesis
    using bare_value_plain [of "show_nat pid" "n - 1" ?r] len dd show_nat_digits(1) [of pid] bare_digit
    by (auto simp: parse_json_field_def quoted_key_def d list_all_iff bare_char_def)
qed

lemma signal_body_signal:
  assumes w: "\<And>i. json_spaces (w i)" and name: "CHR 0x22 \<notin> set name" "CHR 0x5C \<notin> set name" "length name \<le> n - 1"
  shows "parse_json_field (signal_body w pid name) ''signal'' n = name"
proof -
  let ?v = "CHR 0x22 # name @ CHR 0x22 # w 6 @ ''}''"
  let ?key = "quoted_key ''signal''"
  let ?u1 = "CHR ''{'' # w 0" and ?u2 = "w 1 @ CHR '':'' # w 2 @ show_nat pid @ CHR '','' # w 3"
  let ?s = "?key @ w 4 @ CHR '':'' # w 5 @ ?v"
  have q: "CHR 0x22 \<notin> set ?u1" "CHR 0x22 \<notin> set ''pid''" "CHR 0x22 \<notin> set ?u2"
    using json_spaces_no_quote [OF w] digits_no_quote by auto
  have hd2: "hd (?u2 @ t) \<noteq> CHR ''s''" for t using json_spaces_no_quote [OF w [of 1]] by (cases "w 1") auto
  have k: "?key = CHR 0x22 # CHR ''s'' # ''ignal'' @ [CHR 0x22]" by (simp add: quoted_key_def)
  have body: "signal_body w pid name = ?u1 @ CHR 0x22 # ''pid'' @ CHR 0x22 # ?u2 @ ?s"
    by (simp add: signal_body_def quoted_key_def)
  note skip = strstr_skip [of "CHR 0x22" _ _ "''signal'' @ [CHR 0x22]", folded quoted_key_def]
  have mis: "strstr (CHR 0x22 # t) ?key = map_option Suc (strstr t ?key)" if "hd t \<noteq> CHR ''s''" for t
    unfolding k by (rule strstr_mismatch) (use that in simp)
  have s2: "strstr (CHR 0x22 # ?u2 @ ?s) ?key = Some (Suc (length ?u2))"
    by (simp only: mis [OF hd2] skip [OF q(3)] strstr_here) simp
  have s1: "strstr (''pid'' @ CHR 0x22 # ?u2 @ ?s) ?key = Some (3 + Suc (length ?u2))"
    by (simp only: skip [OF q(2)] s2) simp
  have "hd (''pid'' @ t) \<noteq> CHR ''s''" for t by simp
  note m1 = mis [OF this]
  have first: "strstr (signal_body w pid name) ?key = Some (length ?u1 + Suc (3 + Suc (length ?u2)))"
    unfolding body by (simp only: skip [OF q(1)] m1 s1 option.map)
  have "find_value (signal_body w pid name) ''signal'' 0 = Some ?v"
    by (rule find_value_at [of _ "?u1 @ CHR 0x22 # ''pid'' @ CHR 0x22 # w 1 @ CHR '':'' # w 2 @ show_nat pid" "CHR '',''" "w 3" _ "w 4" "w 5"])
      (use w first in \<open>simp_all add: body json_space_def\<close>)
  then show ?thesis using quoted_value_plain [OF name, of "w 6 @ ''}''"]
    by (simp add: parse_json_field_def quoted_key_def)
qed

end
