(* ===== verification/Gui_Facts.thy ===== *)
theory Gui_Facts
  imports Gui_Server Json_Facts
begin

text \<open>
  Facts about the request handling of the HTTP server: which signals a request can cause, that
  every handler returns on a fair connection, what a response puts on the wire, and when the
  metrics document is complete.
\<close>

subsection \<open>Signals\<close>

lemma decide_signal_kills:
  assumes "decide_signal ko token buffer ks = (r, ks')"
  shows "ks' = ks \<or> (\<exists>p g. ks' = ks @ [(p, g)] \<and> check_auth token buffer \<and> 1 < p \<and> p \<le> 4194304 \<and> 0 \<le> g \<and> g \<le> 31)"
proof (cases "check_auth token buffer \<and> strstr buffer (crlf @ crlf) \<noteq> None")
  case False
  then show ?thesis using assms by (auto simp: decide_signal_def split: if_splits)
next
  case True
  then obtain h where h: "check_auth token buffer" "strstr buffer (crlf @ crlf) = Some h" by auto
  let ?b = "drop (h + 4) buffer"
  let ?sig = "parse_json_field ?b ''signal'' 32"
  let ?g = "signal_parse_name (Some (if ?sig \<noteq> [] then ?sig else ''SIGTERM''))"
  obtain n e x where s: "strtol (parse_json_field ?b ''pid'' 32) = (n, e, x)" by (cases "strtol (parse_json_field ?b ''pid'' 32)") auto
  have "?g \<le> 31" using signal_parse_name_range by blast
  then show ?thesis using assms h s
    by (auto simp: decide_signal_def Let_def signal_send_to_process_def split: if_splits)
qed

lemma show_nat_length: "n < 10 ^ k \<Longrightarrow> 0 < k \<Longrightarrow> length (show_nat n) \<le> k"
proof (induction n arbitrary: k rule: show_nat.induct)
  case (1 n)
  show ?case
  proof (cases "n < 10")
    case True
    then show ?thesis using 1 by (subst show_nat.simps) simp
  next
    case False
    obtain j where k: "k = Suc j" using 1 by (cases k) auto
    have "0 < j" using 1 False k by (cases j) auto
    moreover have "n div 10 < 10 ^ j" using 1 k by (simp add: less_mult_imp_div_less mult.commute)
    ultimately have "length (show_nat (n div 10)) \<le> j" using 1 False by simp
    then show ?thesis using False k by (subst show_nat.simps) simp
  qed
qed

lemma decide_signal_body:
  assumes w: "\<And>i. json_spaces (w i)" and auth: "check_auth token buffer"
    and buf: "buffer = hdr @ crlf @ crlf @ signal_body w n name" "header_length buffer = length hdr"
    and n: "1 < n" "n \<le> 4194304"
    and name: "CHR 0x22 \<notin> set name" "CHR 0x5C \<notin> set name" "name \<noteq> []" "length name \<le> 31"
    and g: "g = signal_parse_name (Some name)" "0 \<le> g"
  shows "decide_signal ko token buffer ks =
    (if ko (int n) g then Sent_Signal else Failed_Signal, ks @ [(int n, g)])"
proof -
  have "strstr buffer (crlf @ crlf) \<noteq> None"
    using strstr_None [of buffer "crlf @ crlf"] buf(1) by (metis append.assoc)
  then have h: "strstr buffer (crlf @ crlf) = Some (length hdr)" using buf(2) by (auto simp: header_length_def)
  have body: "drop (length hdr + 4) buffer = signal_body w n name" by (simp add: buf(1) crlf_def)
  have len: "length (show_nat n) \<le> 32 - 1" using show_nat_length [of n 7] n(2) by simp
  have pid: "parse_json_field (signal_body w n name) ''pid'' 32 = show_nat n" using signal_body_pid [OF w len] .
  have sig: "parse_json_field (signal_body w n name) ''signal'' 32 = name" using signal_body_signal [OF w name(1,2)] name(4) by simp
  have "strtol (show_nat n) = (int n, [], False)" using strtol_show_nat [of n] n(2) by (simp add: LONG_MAX_def)
  then show ?thesis using auth h n name(3) g show_nat_digits(2) [of n]
    by (simp add: decide_signal_def body pid sig signal_send_to_process_def)
qed

subsection \<open>Every handler returns\<close>

lemma send_all_returns: "fair send_retry dev \<Longrightarrow> \<exists>r w'. send_all dev buf w = Some (r, w')"
  using out_loop_returns [of send_retry dev buf w] by (auto simp: send_all_def)

lemma send_response_returns:
  assumes "fair send_retry dev" shows "\<exists>w'. send_response dev st ct body ex w = Some w'"
proof -
  obtain r w1 where "send_all dev (response_header st ct (length body) ex) w = Some (r, w1)"
    using send_all_returns [OF assms] by blast
  moreover obtain r2 w2 where "send_all dev body w1 = Some (r2, w2)" using send_all_returns [OF assms] by blast
  ultimately show ?thesis by (simp add: send_response_def Let_def)
qed

lemma send_blocks_returns: "fair send_retry dev \<Longrightarrow> \<exists>w'. send_blocks dev bs w = Some w'"
proof (induction bs arbitrary: w)
  case (Cons b bs)
  obtain r w1 where "send_all dev b w = Some (r, w1)" using send_all_returns [OF Cons.prems] by blast
  with Cons show ?case by simp
qed simp

lemma serve_file_returns:
  assumes "fair send_retry dev" shows "\<exists>w'. serve_file dev files path ct w = Some w'"
proof (cases "files path")
  case None
  then show ?thesis using send_response_returns [OF assms] by (simp add: serve_file_def)
next
  case (Some f)
  obtain r w1 where "send_all dev (file_header ct (st_size f)) w = Some (r, w1)" using send_all_returns [OF assms] by blast
  then show ?thesis using Some send_response_returns [OF assms] send_blocks_returns [OF assms]
    by (simp add: serve_file_def Let_def)
qed

lemma serve_metrics_returns:
  assumes "fair send_retry dev" shows "\<exists>w'. serve_metrics_json dev ao sv w = Some w'"
  using send_response_returns [OF assms] by (simp add: serve_metrics_json_def split: option.split)

lemma serve_client_returns:
  assumes "fair send_retry (e_dev e)" shows "\<exists>w' ks'. serve_client e sv rec ks w = Some (w', ks')"
  using send_response_returns [OF assms] serve_file_returns [OF assms] serve_metrics_returns [OF assms]
  by (auto simp: serve_client_def handle_process_signal_def Let_def split: route.split prod.split)

subsection \<open>What a response puts on the wire\<close>

abbreviation good_device :: "device \<Rightarrow> bool" where
  "good_device dev \<equiv> fair send_retry dev \<and> lossless send_retry dev"

lemma send_all_delivers: "good_device dev \<Longrightarrow> \<exists>w'. send_all dev buf w = Some (0, w') \<and> sent w' = sent w @ buf"
  unfolding send_all_def using out_loop_delivers by blast

text \<open>The length of a body whose decimal digits fit the header buffer; it is above the largest
  buffer the metrics document can have.\<close>

definition body_limit :: nat where
  "body_limit = 10 ^ 700"

lemma body_limit_small: "n \<le> 100 \<Longrightarrow> n < body_limit"
proof -
  assume "n \<le> 100"
  then have "n < 10 ^ 3" by simp
  also have "(10 :: nat) ^ 3 \<le> 10 ^ 700" by (rule power_increasing) simp_all
  finally show ?thesis by (simp only: body_limit_def)
qed

lemma body_limit_digits: "n < body_limit \<Longrightarrow> length (show_nat n) \<le> 700"
  unfolding body_limit_def by (rule show_nat_length) simp_all

lemma body_limit_buffer: "2 ^ (17 + 2048) \<le> body_limit"
proof -
  have "(2 :: nat) ^ (17 + 2048) \<le> 2 ^ (3 * 700)" by (rule power_increasing) simp_all
  also have "\<dots> = (2 ^ 3) ^ 700" by (rule power_mult)
  also have "\<dots> \<le> 10 ^ 700" by (rule power_mono) simp_all
  finally show ?thesis by (simp only: body_limit_def)
qed

lemma length_response_header:
  "length (response_header st ct n ex) = 66 + length st + length ct + length ex + length (show_nat n)"
  by (simp add: response_header_def crlf_def)

lemma send_response_delivers:
  assumes "good_device dev" "length st + length ct + length ex < 200" "length body < body_limit"
  shows "\<exists>w'. send_response dev st ct body ex w = Some w' \<and> sent w' = sent w @ response_header st ct (length body) ex @ body"
proof -
  let ?h = "response_header st ct (length body) ex"
  have "length (show_nat (length body)) \<le> 700" using assms(3) by (rule body_limit_digits)
  then have h: "\<not> 1024 \<le> length ?h" using assms(2) by (simp add: length_response_header)
  obtain w1 where w1: "send_all dev ?h w = Some (0, w1)" "sent w1 = sent w @ ?h" using send_all_delivers [OF assms(1)] by blast
  obtain w2 where w2: "send_all dev body w1 = Some (0, w2)" "sent w2 = sent w1 @ body" using send_all_delivers [OF assms(1)] by blast
  show ?thesis using h w1 w2 by (auto simp: send_response_def Let_def)
qed

text \<open>The message of a JSON reply.\<close>

definition http_reply :: "string \<times> string \<Rightarrow> string" where
  "http_reply r = response_header (fst r) ''application/json'' (length (snd r)) [] @ snd r"

lemma send_reply:
  assumes "good_device dev"
  shows "\<exists>w'. send_response dev (fst (reply_text r)) ''application/json'' (snd (reply_text r)) [] w = Some w' \<and>
    sent w' = sent w @ http_reply (reply_text r)"
proof -
  have "length (fst (reply_text r)) + length ''application/json'' + length ([] :: string) < 200"
    and b: "length (snd (reply_text r)) \<le> 100"
    by (cases r; simp add: reply_text_def json_error_def failed_dispatch_def jstr_def)+
  moreover have "length (snd (reply_text r)) < body_limit" using b by (rule body_limit_small)
  ultimately show ?thesis using send_response_delivers [OF assms, of "fst (reply_text r)" _ "[]"] by (simp only: http_reply_def)
qed

lemma handle_signal_reply:
  "decide_signal ko (auth_token server) buf ks = (r, ks1) \<Longrightarrow>
     handle_process_signal dev ko server buf ks w = map_option (\<lambda>w1. (w1, ks1))
       (send_response dev (fst (reply_text r)) ''application/json'' (snd (reply_text r)) [] w)"
  by (simp add: handle_process_signal_def split: prod.split)

lemma send_blocks_delivers:
  "good_device dev \<Longrightarrow> \<exists>w'. send_blocks dev bs w = Some w' \<and> sent w' = sent w @ concat bs"
proof (induction bs arbitrary: w)
  case (Cons b bs)
  obtain w1 where w1: "send_all dev b w = Some (0, w1)" "sent w1 = sent w @ b" using send_all_delivers [OF Cons.prems] by blast
  obtain w2 where "send_blocks dev bs w1 = Some w2" "sent w2 = sent w1 @ concat bs" using Cons by blast
  with w1 show ?case by simp
qed simp

lemma length_file_header: "length (file_header ct n) = 361 + length ct + length (show_int n)"
  by (simp add: file_header_def crlf_def)

lemma send_file_delivers:
  assumes "good_device dev" "files path = Some f" "fstat_ok f" "length ct < 50" "0 \<le> st_size f" "st_size f < 2 ^ 63"
  shows "\<exists>w'. serve_file dev files path ct w = Some w' \<and> sent w' = sent w @ file_header ct (st_size f) @ concat (blocks f)"
proof -
  let ?h = "file_header ct (st_size f)"
  have "nat (st_size f) < 10 ^ 100" using assms(5,6) by (simp add: nat_less_iff)
  then have "length (show_int (st_size f)) \<le> 100" using show_nat_length [of "nat (st_size f)" 100] assms(5) by (simp add: show_int_def)
  then have h: "length ?h < 512" using assms(4) by (simp add: length_file_header)
  obtain w1 where w1: "send_all dev ?h w = Some (0, w1)" "sent w1 = sent w @ ?h" using send_all_delivers [OF assms(1)] by blast
  obtain w2 where "send_blocks dev (blocks f) w1 = Some w2" "sent w2 = sent w1 @ concat (blocks f)"
    using send_blocks_delivers [OF assms(1)] by blast
  then show ?thesis using w1 h assms(2,3) by (simp add: serve_file_def)
qed

subsection \<open>The metrics document\<close>

fun metrics_lines :: "process_info_t list \<Rightarrow> string" where
  "metrics_lines [] = []"
| "metrics_lines (p # ps) = metrics_line p (ps = []) @ metrics_lines ps"

lemma metrics_loop_complete:
  assumes "\<And>p l. p \<in> set ps \<Longrightarrow> length (metrics_line p l) < 1024" "length json < cap" "2048 \<le> cap"
  shows "\<exists>c. metrics_loop (\<lambda>_. True) ps json cap = Some (json @ metrics_lines ps, c)"
  using assms
proof (induction ps arbitrary: json cap)
  case (Cons p ps)
  let ?c = "if length json + 1024 > cap then cap * 2 else cap"
  have l: "length (metrics_line p (ps = [])) < 1024" using Cons.prems(1) [of p] by simp
  have room: "length json + 1024 \<le> ?c" "2048 \<le> ?c" using Cons.prems(2,3) by auto
  have "\<exists>c. metrics_loop (\<lambda>_. True) ps (json @ metrics_line p (ps = [])) ?c = Some ((json @ metrics_line p (ps = [])) @ metrics_lines ps, c)"
  proof (rule Cons.IH)
    show "length (json @ metrics_line p (ps = [])) < ?c" using l room(1) unfolding length_append by linarith
  qed (use Cons.prems(1) room(2) in auto)
  then show ?case using l room by (auto simp: Let_def)
qed simp

lemma metrics_json_complete:
  assumes "\<And>p l. p \<in> set (s_procs sn) \<Longrightarrow> length (metrics_line p l) < 1024"
    "length (metrics_head (Some sn)) < INITIAL_JSON_CAP"
  shows "metrics_json (\<lambda>_. True) (Some sn) = Some (metrics_head (Some sn) @ metrics_lines (s_procs sn) @ metrics_tail)"
proof -
  obtain c where "metrics_loop (\<lambda>_. True) (s_procs sn) (metrics_head (Some sn)) INITIAL_JSON_CAP =
      Some (metrics_head (Some sn) @ metrics_lines (s_procs sn), c)"
    using metrics_loop_complete [of "s_procs sn", OF assms(1,2)] by (auto simp: INITIAL_JSON_CAP_def)
  then show ?thesis using assms(2) by (simp add: metrics_json_def Let_def)
qed

lemma has_prefix_c_str: "has_prefix p (c_str (take n s)) \<Longrightarrow> has_prefix p s"
proof -
  assume "has_prefix p (c_str (take n s))"
  then obtain r where "c_str (take n s) = p @ r" by (auto simp: has_prefix_iff)
  moreover have "s = c_str (take n s) @ dropWhile (\<lambda>c. c \<noteq> NUL) (take n s) @ drop n s"
    unfolding c_str_def by (metis append.assoc append_take_drop_id takeWhile_dropWhile_id)
  ultimately show ?thesis unfolding has_prefix_iff by (metis append.assoc)
qed

subsection \<open>A client that stops reading\<close>

text \<open>
  A send that exceeds \<^verbatim>\<open>SO_SNDTIMEO\<close> fails with \<^verbatim>\<open>EAGAIN\<close>, which \<^verbatim>\<open>send_all\<close> takes as a request to try
  again.
\<close>

lemma send_response_stalled:
  assumes "stalled send_retry dev" and s: "length st \<le> 100" "length body \<le> 100"
  shows "send_response dev st ''application/json'' body [] w = None"
proof -
  let ?h = "response_header st ''application/json'' (length body) []"
  have "length (show_nat (length body)) \<le> 3" using s(2) show_nat_length [of "length body" 3] by simp
  then have h: "\<not> 1024 \<le> length ?h" using s(1) by (simp add: length_response_header)
  have "?h \<noteq> []" by (simp add: response_header_def)
  from out_loop_stalled [OF assms(1) this] h show ?thesis by (simp add: send_response_def send_all_def)
qed

lemma send_reply_stalled:
  assumes "stalled send_retry dev"
  shows "send_response dev (fst (reply_text r)) ''application/json'' (snd (reply_text r)) [] w = None"
  by (rule send_response_stalled [OF assms];
      cases r; simp add: reply_text_def json_error_def failed_dispatch_def jstr_def)

lemma serve_client_stalled:
  assumes "stalled send_retry (e_dev e)" "received \<noteq> []"
    and "route_of (c_str (take (BUFFER_SIZE - 1) received)) = Signal"
  shows "serve_client e server received ks w = None"
proof -
  let ?b = "c_str (take (BUFFER_SIZE - 1) received)"
  obtain r k1 where d: "decide_signal (e_kill e) (auth_token server) ?b ks = (r, k1)" by fastforce
  show ?thesis using assms(2,3) handle_signal_reply [OF d] send_reply_stalled [OF assms(1)]
    by (simp add: serve_client_def Let_def)
qed

subsection \<open>One message per request\<close>

text \<open>What a client may receive: a response whose length field is the length of its body, or a file
  under the length the file system reports.\<close>

definition http_message :: "(string \<Rightarrow> file_answers option) \<Rightarrow> string \<Rightarrow> bool" where
  "http_message files msg \<longleftrightarrow>
     (\<exists>st ct ex body. msg = response_header st ct (length body) ex @ body) \<or>
     (\<exists>path ct f. files path = Some f \<and> fstat_ok f \<and> msg = file_header ct (st_size f) @ concat (blocks f))"

definition sends_message :: "(string \<Rightarrow> file_answers option) \<Rightarrow> wire \<Rightarrow> wire option \<Rightarrow> bool" where
  "sends_message files w r \<longleftrightarrow> (\<exists>w' msg. r = Some w' \<and> sent w' = sent w @ msg \<and> http_message files msg)"

lemma sends_response:
  assumes "good_device dev" "length st + length ct + length ex < 200" "length body < body_limit"
  shows "sends_message files w (send_response dev st ct body ex w)"
  using send_response_delivers [OF assms, of w] unfolding sends_message_def http_message_def by blast

lemma sends_text:
  assumes "good_device dev" "length st + length ct < 200" "length body \<le> 100"
  shows "sends_message files w (send_response dev st ct body [] w)"
proof (rule sends_response [OF assms(1)])
  show "length body < body_limit" using assms(3) by (rule body_limit_small)
qed (use assms(2) in simp)

lemma sends_file:
  assumes "good_device dev" "length ct < 50" "\<And>f. files path = Some f \<Longrightarrow> 0 \<le> st_size f \<and> st_size f < 2 ^ 63"
  shows "sends_message files w (serve_file dev files path ct w)"
proof (cases "files path")
  case None
  then show ?thesis using sends_text [OF assms(1)] by (simp add: serve_file_def)
next
  case (Some f)
  show ?thesis
  proof (cases "fstat_ok f")
    case True
    show ?thesis using send_file_delivers [of dev files path f ct w, OF assms(1) Some True assms(2)] assms(3) [OF Some] Some True
      unfolding sends_message_def http_message_def by blast
  next
    case False
    then show ?thesis using Some sends_text [OF assms(1)] by (simp add: serve_file_def)
  qed
qed

end
