(* ===== verification/Proc_Facts.thy ===== *)
theory Proc_Facts
  imports Proc_Parser
begin

text \<open>
  Facts about the sampler: percentages, the size and the history of a snapshot, and the reading
  of a process line.
\<close>

subsection \<open>Percentages\<close>

lemma fpct_nonneg: "0 \<le> fpct a b"
  unfolding fpct_def by (intro fl32_nonneg mult_nonneg_nonneg divide_nonneg_nonneg) simp_all

lemma fpct_le:
  assumes "a \<le> b" "0 < b" shows "fpct a b \<le> 100"
proof -
  have pos: "0 < fl32 (of_nat b)" using assms(2) by (intro fl32_positive) simp
  have "fl32 (of_nat a) \<le> fl32 (of_nat b)" using assms(1) by (intro fl32_mono) simp_all
  then have r: "fl32 (of_nat a) / fl32 (of_nat b) \<le> of_nat 1" "0 \<le> fl32 (of_nat a) / fl32 (of_nat b)"
    using pos fl32_nonneg [of "of_nat a"] by (simp_all add: divide_le_eq)
  have "fl32 (fl32 (of_nat a) / fl32 (of_nat b)) \<le> 1" using fl32_mono [OF r(2,1)] fl32_exact [of 1] by simp
  then have "fl32 (fl32 (of_nat a) / fl32 (of_nat b)) * 100 \<le> of_nat 100" by simp
  then have "fpct a b \<le> fl32 (of_nat 100)" unfolding fpct_def
    by (intro fl32_mono mult_nonneg_nonneg fl32_nonneg r(2)) simp_all
  then show ?thesis using fl32_exact [of 100] by simp
qed

definition pct :: "rat \<Rightarrow> bool" where
  "pct x \<longleftrightarrow> 0 \<le> x \<and> x \<le> 100"

lemma pct_fpct: "a \<le> b \<Longrightarrow> 0 < b \<Longrightarrow> pct (fpct a b)"
  by (simp add: pct_def fpct_nonneg fpct_le)

text \<open>No counter went back, and their sums did not overflow.\<close>

definition jiffies_sum :: "cpu_raw_jiffies_t \<Rightarrow> nat" where
  "jiffies_sum j = j_user j + j_nice j + j_system j + j_idle j + j_iowait j + j_irq j + j_softirq j + j_steal j"

definition advances :: "cpu_raw_jiffies_t \<Rightarrow> cpu_raw_jiffies_t \<Rightarrow> bool" where
  "advances a b \<longleftrightarrow> j_user a \<le> j_user b \<and> j_nice a \<le> j_nice b \<and> j_system a \<le> j_system b \<and> j_idle a \<le> j_idle b \<and>
     j_iowait a \<le> j_iowait b \<and> j_irq a \<le> j_irq b \<and> j_softirq a \<le> j_softirq b \<and> j_steal a \<le> j_steal b \<and>
     j_total a = jiffies_sum a \<and> j_total b = jiffies_sum b"

lemma advances_deltas:
  assumes "advances a b"
  shows "delta (j_idle b) (j_idle a) \<le> delta (j_total b) (j_total a)"
    "delta (j_user b) (j_user a) \<le> delta (j_total b) (j_total a)"
    "delta (j_system b) (j_system a) \<le> delta (j_total b) (j_total a)"
  using assms by (auto simp: advances_def jiffies_sum_def delta_def)

lemma cpu_metrics_pct:
  "pct (total_usage_pct (cpu_metrics_of c t i u y))"
  "u \<le> t \<Longrightarrow> pct (user_pct (cpu_metrics_of c t i u y))"
  "y \<le> t \<Longrightarrow> pct (system_pct (cpu_metrics_of c t i u y))"
  "i \<le> t \<Longrightarrow> pct (idle_pct (cpu_metrics_of c t i u y))"
  by (auto simp: cpu_metrics_of_def Let_def pct_fpct) (auto simp: pct_def)

lemma mem_usage_pct:
  "mem_usage_pct ms = 0 \<Longrightarrow> pct (mem_usage_pct (mem_usage ms))"
  "swap_usage_pct ms = 0 \<Longrightarrow> pct (swap_usage_pct (mem_usage ms))"
  by (auto simp: mem_usage_def Let_def used_of_def pct_fpct) (auto simp: pct_def fpct_le fpct_nonneg)

lemma mem_line_pct:
  "mem_usage_pct (mem_line ms l) = mem_usage_pct ms" "swap_usage_pct (mem_line ms l) = swap_usage_pct ms"
  by (auto simp: mem_line_def split: option.split)

lemma mem_lines_pct:
  "mem_usage_pct (foldl mem_line ms ls) = mem_usage_pct ms" "swap_usage_pct (foldl mem_line ms ls) = swap_usage_pct ms"
  by (induction ls arbitrary: ms) (simp_all add: mem_line_pct)

lemma read_mem_pct:
  "pct (mem_usage_pct (snd (proc_parser_read_mem fs))) \<and> pct (swap_usage_pct (snd (proc_parser_read_mem fs)))"
  using mem_usage_pct by (auto simp: proc_parser_read_mem_def zero_mem_def pct_def mem_lines_pct split: option.split)

subsection \<open>Snapshots\<close>

lemma snapshot_loop_count:
  "snapshot_loop fs st n names ps = (qs, full) \<Longrightarrow> length ps \<le> MAX_PROCS \<Longrightarrow>
     length qs \<le> MAX_PROCS \<and> (full \<longrightarrow> length qs = MAX_PROCS)"
  by (induction fs st n names ps rule: snapshot_loop.induct) (auto split: if_splits option.splits)

lemma foldl_status_same:
  "p_pid (foldl status_line pr ls) = p_pid pr" "p_comm (foldl status_line pr ls) = p_comm pr"
  "p_total_time (foldl status_line pr ls) = p_total_time pr" "p_state (foldl status_line pr ls) = p_state pr"
  "p_ppid (foldl status_line pr ls) = p_ppid pr" "p_num_threads (foldl status_line pr ls) = p_num_threads pr"
proof -
  have s: "p_pid (status_line pr l) = p_pid pr \<and> p_comm (status_line pr l) = p_comm pr \<and>
      p_total_time (status_line pr l) = p_total_time pr \<and> p_state (status_line pr l) = p_state pr \<and>
      p_ppid (status_line pr l) = p_ppid pr \<and> p_num_threads (status_line pr l) = p_num_threads pr" for pr l
    by (auto simp: status_line_def split: option.split)
  show "p_pid (foldl status_line pr ls) = p_pid pr" "p_comm (foldl status_line pr ls) = p_comm pr"
    "p_total_time (foldl status_line pr ls) = p_total_time pr" "p_state (foldl status_line pr ls) = p_state pr"
    "p_ppid (foldl status_line pr ls) = p_ppid pr" "p_num_threads (foldl status_line pr ls) = p_num_threads pr"
    by (induction ls arbitrary: pr) (simp_all add: s)
qed

lemma process_usage_same [simp]:
  "p_pid (process_usage st n pr) = p_pid pr" "p_comm (process_usage st n pr) = p_comm pr"
  "p_total_time (process_usage st n pr) = p_total_time pr"
  by (simp_all add: process_usage_def Let_def)

lemma parse_stat_fields:
  "parse_stat pid raw = Some pr \<Longrightarrow> p_pid pr = pid \<and> length (p_comm pr) < MAX_COMM_LEN"
  by (auto simp: parse_stat_def stat_fields_def Let_def zero_process_def MAX_COMM_LEN_def split: if_splits option.splits)

lemma read_process_fields:
  assumes "proc_parser_read_process fs pid = Some pr"
  shows "p_pid pr = pid" "length (p_comm pr) < MAX_COMM_LEN"
  using assms parse_stat_fields
  by (auto simp: proc_parser_read_process_def foldl_status_same split: option.splits)

text \<open>Every process of a snapshot is one of the directory with a readable entry.\<close>

lemma snapshot_loop_procs:
  assumes "snapshot_loop fs st n names ps = (qs, full)" "pr \<in> set qs" "pr \<notin> set ps"
  shows "\<exists>name pr0. name \<in> set names \<and> name \<noteq> [] \<and> isdigit (hd name) \<and>
    proc_parser_read_process fs (atoi name) = Some pr0 \<and> pr = process_usage st n pr0"
  using assms
proof (induction fs st n names ps rule: snapshot_loop.induct)
  case (2 fs st n name names ps)
  then show ?case by (fastforce split: if_splits option.splits)
qed simp

lemma take_snapshot_procs:
  assumes "proc_parser_take_snapshot fs dir now st = (0, sn, st')"
  shows "(s_truncated sn \<longrightarrow> s_count sn = MAX_PROCS) \<and>
    prev_processes st' = map (\<lambda>pr. (p_pid pr, p_total_time pr)) (s_procs sn) \<and>
    list_all (\<lambda>pr. \<exists>names name pr0. dir = Some names \<and> name \<in> set names \<and>
      proc_parser_read_process fs (atoi name) = Some pr0 \<and> p_pid pr = atoi name \<and> p_comm pr = p_comm pr0) (s_procs sn)"
proof -
  from assms obtain st1 n names full where names: "dir = Some names"
    and l: "snapshot_loop fs st1 n names [] = (s_procs sn, full)" "s_truncated sn = full"
    and h: "prev_processes st' = map (\<lambda>pr. (p_pid pr, p_total_time pr)) (s_procs sn)"
    by (auto simp: proc_parser_take_snapshot_def Let_def split: prod.splits if_splits option.splits)
  have "\<exists>names name pr0. dir = Some names \<and> name \<in> set names \<and>
      proc_parser_read_process fs (atoi name) = Some pr0 \<and> p_pid pr = atoi name \<and> p_comm pr = p_comm pr0"
    if "pr \<in> set (s_procs sn)" for pr
    using snapshot_loop_procs [OF l(1) that] read_process_fields(1) names by fastforce
  then show ?thesis using snapshot_loop_count [OF l(1)] l(2) h by (simp add: list_all_iff)
qed

lemma take_snapshot_time: "proc_parser_take_snapshot fs dir now st = (r, sn, st') \<Longrightarrow> s_timestamp sn = now"
  by (auto simp: proc_parser_take_snapshot_def Let_def split: prod.splits if_splits option.splits)

subsection \<open>Reading a process line back\<close>

definition number_fields :: "int list \<Rightarrow> string" where
  "number_fields vs = concat (map (\<lambda>v. CHR '' '' # show_int v) vs)"

text \<open>A line of \<^verbatim>\<open>/proc/PID/stat\<close> as the kernel prints it.\<close>

definition stat_line :: "int \<Rightarrow> string \<Rightarrow> char \<Rightarrow> int list \<Rightarrow> string" where
  "stat_line pid comm st vs = show_int pid @ '' ('' @ comm @ '') '' @ st # number_fields vs @ [CHR 0x0A]"

lemma show_int_chars: "c \<in> set (show_int v) \<Longrightarrow> isdigit c \<or> c = CHR ''-''"
  using show_nat_digits(1) by (auto simp: show_int_def list_all_iff split: if_splits)

lemma number_fields_chars: "c \<in> set (number_fields vs) \<Longrightarrow> isdigit c \<or> c = CHR ''-'' \<or> c = CHR '' ''"
  using show_int_chars by (auto simp: number_fields_def split: if_splits)

lemma scan_int_field:
  assumes "r = [] \<or> \<not> isdigit (hd r)"
  shows "scan_int (CHR '' '' # show_int v @ r) = Some (v, r)"
proof -
  have d: "list_all isdigit (show_nat n)" "show_nat n \<noteq> []" for n by (rule show_nat_digits)+
  have tw: "takeWhile isdigit (show_nat n @ r) = show_nat n" "dropWhile isdigit (show_nat n @ r) = r" for n
    using d(1) [of n] assms by (auto simp: list_all_iff takeWhile_append dropWhile_append) (cases r; simp)+
  have sp: "isspace (CHR '' '')" "\<not> isspace (CHR ''-'')" by (simp_all add: isspace_def)
  have ns: "\<not> isspace c \<and> c \<noteq> CHR ''-'' \<and> c \<noteq> CHR ''+''" if "isdigit c" for c using isdigit_not [OF that] .
  show ?thesis
  proof (cases "v < 0")
    case True
    then show ?thesis using tw [of "nat (- v)"] d(2) sp
      by (simp add: scan_int_def show_int_def Let_def digits_value_show)
  next
    case False
    obtain c cs where c: "show_nat (nat v) = c # cs" using d(2) by (cases "show_nat (nat v)") auto
    then have "isdigit c" using d(1) [of "nat v"] by simp
    then show ?thesis using False tw [of "nat v"] sp ns [of c] digits_value_show [of "nat v"]
      by (simp add: scan_int_def show_int_def Let_def c)
  qed
qed

lemma scan_ints_fields:
  assumes "r = [] \<or> \<not> isdigit (hd r)" "n \<le> length vs"
  shows "scan_ints n (number_fields vs @ r) = take n vs"
  using assms(2)
proof (induction n arbitrary: vs)
  case (Suc n)
  then obtain v ws where vs: "vs = v # ws" by (cases vs) auto
  have h: "number_fields ws @ r = [] \<or> \<not> isdigit (hd (number_fields ws @ r))"
    using assms(1) by (cases ws) (auto simp: number_fields_def isdigit_def)
  have "number_fields vs @ r = CHR '' '' # show_int v @ (number_fields ws @ r)" by (simp add: number_fields_def vs)
  then show ?case using scan_int_field [OF h, of v] Suc by (simp add: vs)
qed simp

lemma strchr_skip: "x \<notin> set u \<Longrightarrow> strchr (u @ x # s) x = Some (length u)"
  by (induction u) auto

lemma strrchr_skip: "x \<notin> set s \<Longrightarrow> strrchr (u @ x # s) x = Some (length u)"
  by (induction u) (auto simp: strrchr_None split: option.splits)

lemma c_str_id: "NUL \<notin> set s \<Longrightarrow> c_str s = s"
  by (simp add: c_str_def takeWhile_eq_all_conv) metis

lemma drop_length_append: "drop (length u) (u @ s) = s"
  by simp

lemma parse_stat_line:
  assumes comm: "NUL \<notin> set comm" and st: "st \<noteq> NUL" "st \<noteq> CHR '')''" and vs: "19 \<le> length vs"
  shows "parse_stat pid (stat_line pid comm st vs) =
    stat_fields (zero_process\<lparr>p_pid := pid, p_comm := take (MAX_COMM_LEN - 1) comm\<rparr>) (st # number_fields vs @ [CHR 0x0A])"
proof -
  let ?f = "number_fields vs @ [CHR 0x0A]" and ?u = "show_int pid @ '' ''"
  have nums: "x \<notin> set (number_fields vs)" "x \<notin> set (show_int pid)" if "x \<in> {NUL, CHR '')'', CHR ''(''}" for x
    using that number_fields_chars [of x vs] show_int_chars [of x pid] by (auto simp: isdigit_def NUL_def)
  let ?l = "stat_line pid comm st vs"
  have nn: "NUL \<notin> set ?l" using nums comm st(1) by (auto simp: stat_line_def NUL_def)
  have l1: "?l = ?u @ CHR ''('' # comm @ '') '' @ st # ?f" by (simp add: stat_line_def)
  have l2: "?l = (?u @ CHR ''('' # comm) @ CHR '')'' # CHR '' '' # st # ?f" by (simp add: stat_line_def)
  have a: "strchr ?l (CHR ''('') = Some (length ?u)" unfolding l1 using nums by (intro strchr_skip) auto
  have b: "strrchr ?l (CHR '')'') = Some (length ?u + 1 + length comm)"
    using strrchr_skip [of "CHR '')''" "CHR '' '' # st # ?f" "?u @ CHR ''('' # comm"] nums st(2) unfolding l2 by auto
  have l3: "?l = (?u @ CHR ''('' # comm @ '') '') @ st # ?f" by (simp add: stat_line_def)
  have "drop (length (?u @ CHR ''('' # comm @ '') '')) ?l = st # ?f" unfolding l3 by (rule drop_length_append)
  then have "drop (length ?u + 1 + length comm + 2) ?l = st # ?f" by simp
  moreover have "c_str (st # ?f) = st # ?f" using nums st(1) by (intro c_str_id) (auto simp: NUL_def)
  moreover have "take (length comm) (drop (length ?u + 1) ?l) = comm" by (simp add: l1)
  ultimately show ?thesis using a b unfolding parse_stat_def c_str_id [OF nn]
    by (simp add: Let_def) (simp add: l2)
qed

end
