(* ===== verification/Proc_Types.thy ===== *)
theory Proc_Types
  imports Proc_Facts
begin

text \<open>
  The ranges of the monitor's data. In the model the integer fields are unbounded; here it is shown
  that everything the sampler produces fits the C types of \<^verbatim>\<open>include/proc_parser.h\<close>, and that the
  percentages stay far below the largest \<^verbatim>\<open>float\<close>.
\<close>

definition ull :: "nat \<Rightarrow> bool" where
  "ull n \<longleftrightarrow> n < 2 ^ 64"

definition int32 :: "int \<Rightarrow> bool" where
  "int32 i \<longleftrightarrow> - (2 ^ 31) \<le> i \<and> i < 2 ^ 31"

definition long64 :: "int \<Rightarrow> bool" where
  "long64 i \<longleftrightarrow> LONG_MIN \<le> i \<and> i \<le> LONG_MAX"

definition float_range :: "rat \<Rightarrow> bool" where
  "float_range x \<longleftrightarrow> 0 \<le> x \<and> x < 2 ^ 110"

definition typed_process :: "process_info_t \<Rightarrow> bool" where
  "typed_process pr \<longleftrightarrow>
     int32 (p_pid pr) \<and> int32 (p_ppid pr) \<and> length (p_comm pr) < MAX_COMM_LEN \<and> NUL \<notin> set (p_comm pr) \<and>
     p_state pr \<noteq> NUL \<and>
     list_all ull [p_utime pr, p_stime pr, p_total_time pr, p_vm_size_kb pr, p_vm_rss_kb pr, p_pss_kb pr,
       p_starttime_ticks pr, p_voluntary_ctxt_switches pr, p_nonvoluntary_ctxt_switches pr] \<and>
     list_all long64 [p_priority pr, p_nice pr, p_num_threads pr] \<and>
     float_range (p_cpu_usage_pct pr) \<and> float_range (p_mem_usage_pct pr)"

definition typed_mem :: "mem_metrics_t \<Rightarrow> bool" where
  "typed_mem mm \<longleftrightarrow>
     list_all ull [mem_total_kb mm, mem_free_kb mm, mem_available_kb mm, buffers_kb mm, cached_kb mm,
       swap_total_kb mm, swap_free_kb mm] \<and> pct (mem_usage_pct mm) \<and> pct (swap_usage_pct mm)"

definition typed_cpu :: "cpu_metrics_t \<Rightarrow> bool" where
  "typed_cpu c \<longleftrightarrow> pct (total_usage_pct c) \<and> list_all float_range [user_pct c, system_pct c, idle_pct c] \<and>
     int32 (core_count c)"

definition typed_snapshot :: "system_snapshot_t \<Rightarrow> bool" where
  "typed_snapshot sn \<longleftrightarrow> list_all typed_process (s_procs sn) \<and> s_count sn \<le> MAX_PROCS \<and>
     typed_cpu (s_cpu sn) \<and> typed_mem (s_mem sn)"

definition typed_jiffies :: "cpu_raw_jiffies_t \<Rightarrow> bool" where
  "typed_jiffies j \<longleftrightarrow> list_all ull [j_user j, j_nice j, j_system j, j_idle j, j_iowait j, j_irq j, j_softirq j,
     j_steal j, j_total j]"

text \<open>The static variables of the sampler.\<close>

definition typed_parser :: "parser_state \<Rightarrow> bool" where
  "typed_parser st \<longleftrightarrow> typed_jiffies (prev_cpu_jiffies st) \<and> ull (last_system_jiffies_delta st) \<and>
     1 \<le> sys_core_count st \<and> int32 (sys_core_count st) \<and>
     length (prev_processes st) \<le> MAX_PROCS \<and> list_all (\<lambda>(q, t). int32 q \<and> ull t) (prev_processes st)"

lemmas range_defs = ull_def int32_def long64_def float_range_def

subsection \<open>Conversions\<close>

lemma to_ull_range [simp]: "ull (to_ull v)"
proof -
  have "nat (v mod 2 ^ 64) < 2 ^ 64" by (simp add: nat_less_iff)
  then show ?thesis by (simp add: to_ull_def ull_def)
qed

lemma add_ull_range [simp]: "ull (add_ull a b)"
  by (simp add: add_ull_def ull_def)

lemma ull_zero [simp]: "ull 0"
  by (simp add: ull_def)

lemma to_long_range [simp]: "long64 (to_long v)"
  by (auto simp: to_long_def long64_def LONG_MAX_def LONG_MIN_def)

lemma to_int_range [simp]: "int32 (to_int v)"
  by (simp add: to_int_def int32_def)

lemma delta_range: "ull a \<Longrightarrow> ull (delta a b)"
  by (auto simp: delta_def ull_def)

lemma scan_field_range: "scan_field lit line = Some v \<Longrightarrow> ull v"
  by (auto simp: scan_field_def split: if_splits)

subsection \<open>Percentages\<close>

lemma fl32_le_double: "0 \<le> x \<Longrightarrow> fl32 x \<le> 2 * x"
proof (cases "x = 0")
  case False
  assume "0 \<le> x"
  with False have x: "0 < x" by simp
  have "(2 :: rat) powi (exponent x + 1) = 2 * 2 powi exponent x" by (simp add: power_int_add)
  then show ?thesis using fl32_binade(2) [OF x] exponent_bounds(1) [OF x] by linarith
qed simp

lemma fl32_ratio_le:
  assumes "0 < b" shows "fl32 (fl32 (of_nat a) / fl32 (of_nat b)) \<le> 4 * of_nat a"
    "0 \<le> fl32 (fl32 (of_nat a) / fl32 (of_nat b))"
proof -
  have "fl32 1 \<le> fl32 (of_nat b)" using assms by (intro fl32_mono) simp_all
  then have b: "1 \<le> fl32 (of_nat b)" using fl32_exact [of 1] by simp
  have a: "0 \<le> fl32 (of_nat a)" by (rule fl32_nonneg) simp
  have q: "0 \<le> fl32 (of_nat a) / fl32 (of_nat b)" using a b by simp
  have "fl32 (of_nat a) / fl32 (of_nat b) \<le> fl32 (of_nat a)" using a b divide_left_mono [of 1 "fl32 (of_nat b)" "fl32 (of_nat a)"] by simp
  also have "\<dots> \<le> 2 * of_nat a" by (rule fl32_le_double) simp
  finally show "fl32 (fl32 (of_nat a) / fl32 (of_nat b)) \<le> 4 * of_nat a" using fl32_le_double [OF q] by linarith
  show "0 \<le> fl32 (fl32 (of_nat a) / fl32 (of_nat b))" by (rule fl32_nonneg [OF q])
qed

lemma fpct_le_nat: "0 < b \<Longrightarrow> fpct a b \<le> 800 * of_nat a"
  using fl32_ratio_le [of b a] fl32_le_double [of "fl32 (fl32 (of_nat a) / fl32 (of_nat b)) * 100"]
  unfolding fpct_def by simp

lemma fpct_float:
  assumes "ull a" "0 < b" shows "float_range (fpct a b)"
proof -
  have "(of_nat a :: rat) < of_nat (2 ^ 64)" using assms(1) unfolding ull_def by (simp only: of_nat_less_iff)
  then show ?thesis using fpct_nonneg [of a b] fpct_le_nat [OF assms(2), of a] by (simp add: float_range_def)
qed

lemma pct_float: "pct x \<Longrightarrow> float_range x"
  by (simp add: pct_def float_range_def)

lemma core_share_float:
  assumes "ull a" "0 < b" "1 \<le> c" "int32 c"
  shows "float_range (fl32 (fpct a b * fl32 (of_int c)))"
proof -
  have a: "(of_nat a :: rat) < of_nat (2 ^ 64)" using assms(1) unfolding ull_def by (simp only: of_nat_less_iff)
  have "(of_int c :: rat) < of_int (2 ^ 31)" using assms(4) unfolding int32_def by (simp only: of_int_less_iff)
  then have c: "fl32 (of_int c) \<le> 2 * 2 ^ 31" "0 \<le> fl32 (of_int c)"
    using fl32_le_double [of "of_int c"] fl32_nonneg [of "of_int c"] assms(3) by simp_all
  have p: "fpct a b \<le> 800 * 2 ^ 64" "0 \<le> fpct a b" using fpct_le_nat [OF assms(2), of a] fpct_nonneg a by simp_all
  have "fpct a b * fl32 (of_int c) \<le> (800 * 2 ^ 64) * (2 * 2 ^ 31)" using p c by (intro mult_mono) auto
  moreover have "0 \<le> fpct a b * fl32 (of_int c)" using p c by simp
  ultimately show ?thesis using fl32_le_double [of "fpct a b * fl32 (of_int c)"] fl32_nonneg [of "fpct a b * fl32 (of_int c)"]
    by (simp add: float_range_def)
qed

subsection \<open>What the sampler produces\<close>

lemma c_str_no_NUL: "NUL \<notin> set (c_str s)"
  by (auto simp: c_str_def dest: set_takeWhileD)

lemma stat_fields_typed:
  assumes "stat_fields (zero_process\<lparr>p_pid := pid, p_comm := comm\<rparr>) rest = Some pr" "int32 pid"
    "length comm < MAX_COMM_LEN" "NUL \<notin> set comm" "NUL \<notin> set rest"
  shows "typed_process pr"
proof -
  have "rest \<noteq> []" using assms(1) by (auto simp: stat_fields_def Let_def)
  then have "hd rest \<noteq> NUL" using assms(5) by (metis list.set_sel(1))
  moreover have "long64 0" "float_range 0" by (simp_all add: long64_def float_range_def LONG_MIN_def LONG_MAX_def)
  ultimately show ?thesis using assms(1-4)
    by (auto simp: stat_fields_def Let_def typed_process_def zero_process_def split: if_splits)
qed

lemma parse_stat_typed:
  assumes "parse_stat pid raw = Some pr" "int32 pid" shows "typed_process pr"
proof -
  obtain s e where *: "stat_fields (zero_process\<lparr>p_pid := pid, p_comm := take (MAX_COMM_LEN - 1) (take (e - (s + 1)) (drop (s + 1) (c_str raw)))\<rparr>)
      (c_str (drop (e + 2) raw)) = Some pr"
    using assms(1) by (auto simp: parse_stat_def Let_def split: option.splits if_splits)
  let ?comm = "take (MAX_COMM_LEN - 1) (take (e - (s + 1)) (drop (s + 1) (c_str raw)))"
  have "length ?comm < MAX_COMM_LEN" by (simp add: MAX_COMM_LEN_def)
  moreover have "NUL \<notin> set ?comm" using c_str_no_NUL [of raw] by (metis in_set_dropD in_set_takeD)
  ultimately show ?thesis using stat_fields_typed [OF * assms(2)] c_str_no_NUL by blast
qed

lemma status_line_typed: "typed_process pr \<Longrightarrow> typed_process (status_line pr line)"
  by (auto simp: status_line_def typed_process_def dest: scan_field_range split: option.split)

lemma foldl_typed: "typed_process pr \<Longrightarrow> typed_process (foldl status_line pr ls)"
  by (induction ls arbitrary: pr) (simp_all add: status_line_typed)

lemma read_process_typed: "proc_parser_read_process fs pid = Some pr \<Longrightarrow> int32 pid \<Longrightarrow> typed_process pr"
  using parse_stat_typed foldl_typed by (auto simp: proc_parser_read_process_def split: option.splits)

lemma process_usage_typed:
  assumes "typed_process pr" "typed_parser st" shows "typed_process (process_usage st n pr)"
proof -
  let ?d = "last_system_jiffies_delta st"
  have u: "ull (p_total_time pr)" "ull (p_vm_rss_kb pr)" using assms(1) by (simp_all add: typed_process_def)
  have cores: "1 \<le> sys_core_count st" "int32 (sys_core_count st)" using assms(2) by (simp_all add: typed_parser_def)
  have "float_range (fl32 (fpct (delta (p_total_time pr) t) ?d * fl32 (of_int (sys_core_count st))))" if "0 < ?d" for t
    using core_share_float [OF delta_range [OF u(1)] that cores] .
  then have c: "float_range (p_cpu_usage_pct (process_usage st n pr))"
    by (simp add: process_usage_def Let_def fpct_def float_range_def split: option.split)
  have "float_range (p_mem_usage_pct (process_usage st n pr))"
    using assms(1) fpct_float [OF u(2), of n] by (simp add: process_usage_def Let_def typed_process_def)
  then show ?thesis using c assms(1) by (simp add: typed_process_def process_usage_def Let_def)
qed

lemma snapshot_loop_typed:
  "snapshot_loop fs st n names ps = (qs, full) \<Longrightarrow> typed_parser st \<Longrightarrow> list_all typed_process ps \<Longrightarrow> list_all typed_process qs"
proof (induction fs st n names ps rule: snapshot_loop.induct)
  case (2 fs st n name names ps)
  have "typed_process (process_usage st n pr)" if "proc_parser_read_process fs (atoi name) = Some pr" for pr
    using process_usage_typed [OF read_process_typed [OF that] "2.prems"(2)] by (simp add: atoi_def)
  with 2 show ?case by (auto split: if_splits option.splits)
qed simp

lemma foldl_mem_typed: "typed_mem mm \<Longrightarrow> typed_mem (foldl mem_line mm ls)"
proof (induction ls arbitrary: mm)
  case (Cons l ls)
  have "typed_mem (mem_line mm l)" using Cons.prems
    by (auto simp: mem_line_def typed_mem_def dest: scan_field_range split: option.split)
  with Cons show ?case by simp
qed simp

lemma read_mem_typed: "proc_parser_read_mem fs = (r, mm) \<Longrightarrow> typed_mem mm"
proof -
  assume "proc_parser_read_mem fs = (r, mm)"
  moreover have z: "typed_mem zero_mem" by (simp add: typed_mem_def zero_mem_def pct_def)
  moreover have "typed_mem (mem_usage m)" if "typed_mem m" for m
    using that by (auto simp: typed_mem_def mem_usage_def Let_def used_of_def pct_fpct)
  ultimately show ?thesis using foldl_mem_typed [OF z] by (auto simp: proc_parser_read_mem_def split: option.splits)
qed

lemma jiffies_typed: "typed_jiffies (jiffies_of vs)"
  by (simp add: jiffies_of_def Let_def typed_jiffies_def)

lemma cpu_metrics_typed:
  "ull i \<Longrightarrow> ull u \<Longrightarrow> ull y \<Longrightarrow> int32 c \<Longrightarrow> typed_cpu (cpu_metrics_of c t i u y)"
  using cpu_metrics_pct(1) [of c t i u y]
  by (auto simp: typed_cpu_def cpu_metrics_of_def Let_def fpct_float) (simp_all add: float_range_def)

lemma read_cpu_typed:
  assumes "proc_parser_read_cpu fs st = (r, c, st')" "typed_parser st"
  shows "typed_parser st'" "typed_cpu c"
proof -
  have z: "typed_cpu zero_cpu" by (simp add: typed_cpu_def zero_cpu_def pct_def float_range_def int32_def)
  have j: "ull (f (jiffies_of vs))" if "f \<in> {j_user, j_system, j_idle, j_total}" for f :: "cpu_raw_jiffies_t \<Rightarrow> nat" and vs
    using jiffies_typed [of vs] that by (auto simp: typed_jiffies_def)
  have "typed_parser st' \<and> typed_cpu c"
    using assms z by (auto simp: proc_parser_read_cpu_def Let_def typed_parser_def jiffies_typed j delta_range cpu_metrics_typed
        split: option.splits if_splits)
  then show "typed_parser st'" "typed_cpu c" by auto
qed

lemma take_snapshot_typed:
  assumes "proc_parser_take_snapshot fs dir now st = (r, sn, st')" "typed_parser st"
  shows "typed_parser st'" "typed_snapshot sn"
proof -
  obtain r1 c st1 where c: "proc_parser_read_cpu fs st = (r1, c, st1)" by (metis prod_cases3)
  obtain r2 mm where m: "proc_parser_read_mem fs = (r2, mm)" by fastforce
  note C = read_cpu_typed [OF c assms(2)] and M = read_mem_typed [OF m]
  have z: "typed_mem zero_mem" by (simp add: typed_mem_def zero_mem_def pct_def)
  have "typed_parser st' \<and> typed_snapshot sn"
  proof (cases "r1 = 0 \<and> r2 = 0 \<and> dir \<noteq> None")
    case False
    then show ?thesis using assms(1) C M c m z
      by (auto simp: proc_parser_take_snapshot_def typed_snapshot_def Let_def split: if_splits option.splits)
  next
    case True
    then obtain names where names: "dir = Some names" by auto
    obtain ps full where l: "snapshot_loop fs st1 (mem_total_kb mm) names [] = (ps, full)" by fastforce
    have P: "list_all typed_process ps" using snapshot_loop_typed [OF l C(1)] by simp
    then have "list_all (\<lambda>(q, t). int32 q \<and> ull t) (map (\<lambda>pr. (p_pid pr, p_total_time pr)) ps)"
      by (auto simp: list_all_iff typed_process_def)
    moreover have "length ps \<le> MAX_PROCS" using snapshot_loop_count [OF l] by simp
    ultimately show ?thesis using True assms(1) C M c m l P names
      by (auto simp: proc_parser_take_snapshot_def typed_snapshot_def typed_parser_def Let_def)
  qed
  then show "typed_parser st'" "typed_snapshot sn" by auto
qed

lemma init_typed:
  assumes "proc_parser_init fs cores parser_boot = (r, st)" shows "typed_parser st"
proof -
  let ?s = "if cores > 0 \<and> cores \<le> 2 ^ 31 - 1 then parser_boot\<lparr>sys_core_count := cores\<rparr> else parser_boot"
  obtain r1 c st1 where c: "proc_parser_read_cpu fs ?s = (r1, c, st1)" by (metis prod_cases3)
  have "typed_parser ?s"
    by (auto simp: typed_parser_def parser_boot_def typed_jiffies_def zero_jiffies_def int32_def)
  from read_cpu_typed(1) [OF c this] have "typed_parser st1" .
  then show ?thesis using assms c by (auto simp: proc_parser_init_def Let_def typed_parser_def split: if_splits)
qed

end
