(* ===== verification/Metrics_Facts.thy ===== *)
theory Metrics_Facts
  imports Gui_Facts Gui_Request_Facts Proc_Types
begin

text \<open>
  The sizes of the pieces of the metrics document for a snapshot in the ranges of its C types: the
  header fits the first buffer, and a process line fits the 1024 bytes the loop keeps free when
  the command name is not longer than 128 characters.
\<close>

lemma length_escape_json: "length (escape_json_string s m) \<le> 6 * length s"
proof -
  have "length (escape_loop s out m) \<le> length out + 6 * length s" for out
  proof (induction s out m rule: escape_loop.induct)
    case (2 c cs out m)
    then show ?case using length_escape_char [of c] by auto
  qed simp
  from this [of "[]"] show ?thesis by (simp add: escape_json_string_def)
qed

lemma length_show_ull: "ull n \<Longrightarrow> length (show_nat n) \<le> 20"
  using show_nat_length [of n 20] by (simp add: ull_def)

lemma length_show_long: "long64 i \<Longrightarrow> length (show_int i) \<le> 21"
  using show_nat_length [of "nat i" 20] show_nat_length [of "nat (- i)" 20]
  by (auto simp: long64_def show_int_def LONG_MAX_def LONG_MIN_def nat_less_iff)

lemma length_show_int32: "int32 i \<Longrightarrow> length (show_int i) \<le> 11"
  using show_nat_length [of "nat i" 10] show_nat_length [of "nat (- i)" 10]
  by (auto simp: int32_def show_int_def nat_less_iff)

lemma length_show_2f: "float_range x \<Longrightarrow> length (show_2f x) \<le> 39"
proof -
  assume "float_range x"
  then have x: "0 \<le> x" "x * 100 \<le> of_int (2 ^ 117)" by (simp_all add: float_range_def)
  let ?h = "round_half_even (x * 100)"
  have h: "0 \<le> ?h" "?h \<le> 2 ^ 117"
    using round_half_even_mono [OF x(2)] round_half_even_mono [of 0 "x * 100"] round_half_even_int [of 0] x(1)
    by (simp, simp only: round_half_even_int)
  have "?h div 100 < 10 ^ 36" using h(2) pos_mod_sign [of 100 ?h] div_mult_mod_eq [of ?h 100] by simp
  then have "nat (?h div 100) < 10 ^ 36" using h(1) by (simp add: nat_less_iff)
  then have "length (show_int (?h div 100)) \<le> 36" using show_nat_length [of "nat (?h div 100)" 36] h(1)
    by (simp add: show_int_def pos_imp_zdiv_neg_iff)
  moreover have d: "length (show_int k) = 1" if "0 \<le> k" "k < 10" for k
    using that by (simp add: show_int_def show_nat.simps [of "nat k"] nat_less_iff)
  have "length (show_int (?h mod 100 div 10)) = 1" "length (show_int (?h mod 100 mod 10)) = 1" by (rule d; simp)+
  ultimately show ?thesis using x(1) by (simp add: show_2f_def Let_def)
qed

lemma length_metrics_line:
  assumes "typed_process p" "length (p_comm p) \<le> 128"
  shows "length (metrics_line p l) < 1024"
proof -
  have "length (show_int (p_pid p)) \<le> 11" "length (show_nat (p_vm_rss_kb p)) \<le> 20"
    "length (show_int (p_num_threads p)) \<le> 21" "length (show_2f (p_cpu_usage_pct p)) \<le> 39"
    using assms(1) length_show_int32 length_show_ull length_show_long length_show_2f by (simp_all add: typed_process_def)
  moreover have "length (escape_json_string (p_comm p) (MAX_COMM_LEN * 4)) \<le> 768"
    using length_escape_json [of "p_comm p" "MAX_COMM_LEN * 4"] assms(2) by linarith
  ultimately show ?thesis by (simp add: metrics_line_def jstr_def)
qed

lemma length_metrics_head:
  assumes "typed_snapshot sn" "long64 (s_timestamp sn)"
  shows "length (metrics_head (Some sn)) < 2000"
proof -
  have t: "typed_cpu (s_cpu sn)" "typed_mem (s_mem sn)" using assms(1) by (simp_all add: typed_snapshot_def)
  have f: "length (show_2f (total_usage_pct (s_cpu sn))) \<le> 39" "length (show_2f (user_pct (s_cpu sn))) \<le> 39"
    "length (show_2f (system_pct (s_cpu sn))) \<le> 39" "length (show_2f (idle_pct (s_cpu sn))) \<le> 39"
    "length (show_2f (mem_usage_pct (s_mem sn))) \<le> 39" "length (show_2f (swap_usage_pct (s_mem sn))) \<le> 39"
    using t by (auto intro: length_show_2f pct_float simp: typed_cpu_def typed_mem_def)
  have n: "length (show_nat (mem_total_kb (s_mem sn))) \<le> 20" "length (show_nat (mem_available_kb (s_mem sn))) \<le> 20"
    "length (show_nat (mem_free_kb (s_mem sn))) \<le> 20" "length (show_nat (buffers_kb (s_mem sn))) \<le> 20"
    "length (show_nat (cached_kb (s_mem sn))) \<le> 20" "length (show_nat (swap_total_kb (s_mem sn))) \<le> 20"
    "length (show_nat (swap_free_kb (s_mem sn))) \<le> 20"
    using t(2) by (auto intro!: length_show_ull simp: typed_mem_def)
  have "length (show_int (core_count (s_cpu sn))) \<le> 11" "length (show_int (s_timestamp sn)) \<le> 21"
    using t(1) assms(2) length_show_int32 length_show_long by (simp_all add: typed_cpu_def)
  then show ?thesis using f n by (simp add: metrics_head_def Let_def jstr_def)
qed

lemma metrics_typed_complete:
  assumes "typed_snapshot sn" "long64 (s_timestamp sn)" "list_all (\<lambda>p. length (p_comm p) \<le> 128) (s_procs sn)"
  shows "metrics_json (\<lambda>_. True) (Some sn) = Some (metrics_head (Some sn) @ metrics_lines (s_procs sn) @ metrics_tail)"
proof (rule metrics_json_complete)
  show "length (metrics_line p l) < 1024" if "p \<in> set (s_procs sn)" for p l
    using that assms(1,3) length_metrics_line by (auto simp: typed_snapshot_def list_all_iff)
  show "length (metrics_head (Some sn)) < INITIAL_JSON_CAP"
    using length_metrics_head [OF assms(1,2)] by (simp add: INITIAL_JSON_CAP_def)
qed

text \<open>The buffer doubles at most once per process, which bounds every document.\<close>

lemma metrics_loop_size:
  "metrics_loop ok ps json cap = Some (json', cap') \<Longrightarrow> length json \<le> cap \<Longrightarrow>
     length json' \<le> cap' \<and> cap' \<le> cap * 2 ^ length ps"
proof (induction ok ps json cap rule: metrics_loop.induct)
  case (2 ok p ps json cap)
  let ?c = "if length json + 1024 > cap then cap * 2 else cap" and ?j = "json @ metrics_line p (ps = [])"
  have *: "metrics_loop ok ps ?j ?c = Some (json', cap')" "\<not> length (metrics_line p (ps = [])) \<ge> ?c - length json"
    "\<not> (length json + 1024 > cap \<and> \<not> ok ?c)"
    using "2.prems"(1) by (auto simp: Let_def split: if_splits)
  have "length json' \<le> cap' \<and> cap' \<le> ?c * 2 ^ length ps"
    by (rule "2.IH" [OF refl refl _ refl]) (use * in auto)
  moreover have "?c * 2 ^ length ps \<le> cap * 2 ^ length (p # ps)" by simp
  ultimately show ?case by linarith
qed simp

lemma length_metrics_json:
  assumes "metrics_json ok snap = Some json" "case snap of Some sn \<Rightarrow> s_count sn \<le> MAX_PROCS | None \<Rightarrow> True"
  shows "length json < body_limit"
proof -
  let ?ps = "case snap of Some sn \<Rightarrow> s_procs sn | None \<Rightarrow> []"
  from assms(1) obtain j c where l: "metrics_loop ok ?ps (metrics_head snap) INITIAL_JSON_CAP = Some (j, c)"
    "length (metrics_head snap) < INITIAL_JSON_CAP" "json = j @ metrics_tail"
    by (auto simp: metrics_json_def Let_def split: if_splits option.splits)
  have n: "length ?ps \<le> 2048" using assms(2) by (auto simp: MAX_PROCS_def split: option.splits)
  have "length j \<le> INITIAL_JSON_CAP * 2 ^ length ?ps" using metrics_loop_size [OF l(1)] l(2) by linarith
  also have "\<dots> \<le> INITIAL_JSON_CAP * 2 ^ 2048" using n by (intro mult_le_mono2 power_increasing) auto
  also have "INITIAL_JSON_CAP = 2 ^ 16" by (simp add: INITIAL_JSON_CAP_def)
  finally have j: "length j \<le> 2 ^ 16 * 2 ^ 2048" .
  have "length json = length j + 6" using l(3) by (simp add: metrics_tail_def)
  also have "\<dots> < 2 ^ 16 * 2 ^ 2048 + 2 ^ 3" using j by (intro add_le_less_mono) simp_all
  also have "\<dots> \<le> 2 ^ 16 * 2 ^ 2048 + 2 ^ 16 * 2 ^ 2048" unfolding power_add [symmetric]
    by (intro add_left_mono power_increasing) simp_all
  also have "\<dots> = 2 ^ (17 + 2048)" by (simp only: power_add mult_2 [symmetric]) (simp only: power_Suc [symmetric] mult.assoc [symmetric] eval_nat_numeral)
  also have "\<dots> \<le> body_limit" by (rule body_limit_buffer)
  finally show ?thesis .
qed

subsection \<open>The document has no zero byte\<close>

lemma show_nat_no_NUL [simp]: "NUL \<notin> set (show_nat n)"
  using show_nat_digits(1) [of n] by (auto simp: list_all_iff isdigit_def NUL_def)

lemma show_int_no_NUL [simp]: "NUL \<notin> set (show_int i)"
  by (simp add: show_int_def NUL_def) (metis NUL_def show_nat_no_NUL)

lemma show_2f_no_NUL [simp]: "NUL \<notin> set (show_2f x)"
  using show_int_no_NUL by (auto simp: show_2f_def Let_def NUL_def)

lemma escape_char_no_NUL:
  assumes "c \<noteq> NUL" shows "NUL \<notin> set (escape_char c)"
proof -
  have "NUL \<notin> set hex_chars" "length hex_chars = 16" by (simp_all add: NUL_def hex_chars_def)
  then have "NUL \<noteq> hex_chars ! k" if "k < 16" for k using that by (metis nth_mem)
  then have "NUL \<noteq> hex_chars ! (of_char c div 16)" "NUL \<noteq> hex_chars ! (of_char c mod 16)" if "of_char c < (32 :: nat)"
    using that by simp_all
  then show ?thesis using assms by (auto simp: escape_char_def NUL_def)
qed

lemma escape_json_no_NUL: "NUL \<notin> set s \<Longrightarrow> NUL \<notin> set (escape_json_string s m)"
proof -
  have "NUL \<notin> set s \<Longrightarrow> NUL \<notin> set out \<Longrightarrow> NUL \<notin> set (escape_loop s out m)" for out
  proof (induction s out m rule: escape_loop.induct)
    case (2 c cs out m)
    then show ?case using escape_char_no_NUL [of c] by auto
  qed simp
  then show "NUL \<notin> set s \<Longrightarrow> NUL \<notin> set (escape_json_string s m)" by (simp add: escape_json_string_def)
qed

lemma metrics_line_no_NUL:
  assumes "typed_process p" shows "NUL \<notin> set (metrics_line p l)"
proof -
  have "NUL \<notin> set (escape_json_string (p_comm p) (MAX_COMM_LEN * 4))" "p_state p \<noteq> NUL"
    using assms by (simp_all add: typed_process_def escape_json_no_NUL)
  then show ?thesis using show_int_no_NUL [of "p_pid p"] show_int_no_NUL [of "p_num_threads p"]
      show_nat_no_NUL [of "p_vm_rss_kb p"] show_2f_no_NUL [of "p_cpu_usage_pct p"]
    by (auto simp: metrics_line_def jstr_def NUL_def)
qed

lemma metrics_lines_no_NUL: "list_all typed_process ps \<Longrightarrow> NUL \<notin> set (metrics_lines ps)"
  by (induction ps) (auto simp: metrics_line_no_NUL)

lemma metrics_head_no_NUL: "NUL \<notin> set (metrics_head snap)"
  using show_nat_no_NUL show_int_no_NUL show_2f_no_NUL by (simp add: metrics_head_def Let_def jstr_def NUL_def)

subsection \<open>Messages\<close>

lemma length_c_str: "length (c_str s) \<le> length s"
  by (simp add: c_str_def length_takeWhile_le)

lemma sends_metrics:
  assumes "good_device dev" "case latest_snapshot server of Some sn \<Rightarrow> s_count sn \<le> MAX_PROCS | None \<Rightarrow> True"
  shows "sends_message files w (serve_metrics_json dev ok server w)"
proof (cases "metrics_json ok (latest_snapshot server)")
  case None
  then show ?thesis using sends_text [OF assms(1)] by (simp add: serve_metrics_json_def)
next
  case (Some json)
  have "length (c_str json) < body_limit" using length_metrics_json [OF Some assms(2)] length_c_str [of json] by (rule order.strict_trans1 [rotated])
  then show ?thesis using Some sends_text [OF assms(1)] sends_response [OF assms(1), of "''200 OK''" "''application/json''" "''Cache-Control: no-store'' @ crlf"]
    by (simp add: serve_metrics_json_def crlf_def)
qed

lemma sends_signal:
  "good_device dev \<Longrightarrow>
     sends_message files w (send_response dev (fst (reply_text r)) ''application/json'' (snd (reply_text r)) [] w)"
  using send_reply [of dev r w] unfolding sends_message_def http_message_def http_reply_def by blast

lemma prefix_received:
  assumes "has_prefix p s" "NUL \<notin> set p" "length p \<le> n"
  shows "\<exists>r. c_str (take n s) = p @ r"
proof -
  obtain r where "s = p @ r" using assms(1) by (auto simp: has_prefix_iff)
  then have "take n s = p @ take (n - length p) r" using assms(3) by simp
  moreover have "c_str (p @ x) = p @ c_str x" for x
    unfolding c_str_def by (rule takeWhile_append2) (use assms(2) in auto)
  ultimately show ?thesis by auto
qed

lemma metrics_route:
  assumes "has_prefix ''GET /api/metrics'' s" shows "route_of (c_str (take (BUFFER_SIZE - 1) s)) = Metrics"
proof -
  obtain r where "c_str (take (BUFFER_SIZE - 1) s) = ''GET /api/metrics'' @ r"
    using prefix_received [OF assms, of "BUFFER_SIZE - 1"] by (auto simp: NUL_def BUFFER_SIZE_def)
  then show ?thesis by (simp add: route_of_def has_prefix_def)
qed

lemma metrics_served:
  assumes good: "good_device (e_dev e)" and snap: "latest_snapshot server = Some sn"
    and typed: "typed_snapshot sn" "long64 (s_timestamp sn)"
    and short: "list_all (\<lambda>p. length (p_comm p) \<le> 128) (s_procs sn)"
    and alloc: "e_alloc e = (\<lambda>_. True)" and req: "has_prefix ''GET /api/metrics'' received"
    and doc: "doc = metrics_head (Some sn) @ metrics_lines (s_procs sn) @ metrics_tail"
  shows "\<exists>w'. serve_client e server received ks w = Some (w', ks) \<and>
    sent w' = sent w @ response_header ''200 OK'' ''application/json'' (length doc) (''Cache-Control: no-store'' @ crlf) @ doc"
proof -
  have json: "metrics_json (e_alloc e) (latest_snapshot server) = Some doc"
    using metrics_typed_complete [OF typed short] snap alloc doc by simp
  have "list_all typed_process (s_procs sn)" using typed(1) by (simp add: typed_snapshot_def)
  then have "NUL \<notin> set doc"
    using metrics_head_no_NUL [of "Some sn"] metrics_lines_no_NUL by (auto simp: doc metrics_tail_def NUL_def)
  then have c: "c_str doc = doc" by (rule c_str_id)
  have "length doc < body_limit" using length_metrics_json [OF json] snap typed(1) by (simp add: typed_snapshot_def)
  then obtain w' where w': "send_response (e_dev e) ''200 OK'' ''application/json'' doc (''Cache-Control: no-store'' @ crlf) w = Some w'"
    "sent w' = sent w @ response_header ''200 OK'' ''application/json'' (length doc) (''Cache-Control: no-store'' @ crlf) @ doc"
    using send_response_delivers [OF good, of "''200 OK''" "''application/json''" "''Cache-Control: no-store'' @ crlf" doc w]
    by (auto simp: crlf_def)
  have "received \<noteq> []" using req by (auto simp: has_prefix_def)
  then have "serve_client e server received ks w = Some (w', ks)"
    using metrics_route [OF req] json c w'(1) alloc by (simp add: serve_client_def serve_metrics_json_def)
  then show ?thesis using w'(2) by blast
qed

end
