(* ===== verification/Gui_Lifecycle.thy ===== *)
theory Gui_Lifecycle
  imports Gui_Facts Machines
begin

text \<open>
  The life of the HTTP server: \<^verbatim>\<open>gui_server_init\<close>, \<^verbatim>\<open>gui_server_start\<close>, \<^verbatim>\<open>gui_server_stop\<close>,
  \<^verbatim>\<open>gui_server_update_snapshot\<close>, and the interleaving of the accepting thread, the client workers
  and the main thread, which publishes snapshots and stops the server. Each step of the
  interleaving is one critical section of \<^verbatim>\<open>worker_mutex\<close> or \<^verbatim>\<open>snapshot_lock\<close>, or one blocking call
  that returns: a worker or the accepting thread that is sending to a client goes on only if
  \<^verbatim>\<open>serve_client\<close> or \<^verbatim>\<open>send_response\<close> has a result on that client's connection.
\<close>

subsection \<open>Initialisation, start, snapshot\<close>

record init_answers =
  mutex_init_ok :: bool
  cond_init_ok :: bool
  snapshot_malloc_ok :: bool
  rwlock_init_ok :: bool

definition zero_snapshot :: system_snapshot_t where
  "zero_snapshot = \<lparr>s_procs = [], s_truncated = False, s_cpu = zero_cpu, s_mem = zero_mem, s_timestamp = 0\<rparr>"

definition zero_server :: gui_server_t where
  "zero_server = \<lparr>bind_host = [], port = 0, auth_token = [], server_fd = 0, server_running = False,
     latest_snapshot = None, active_workers = 0, initialized = False\<rparr>"

text \<open>A host or token that is \<^verbatim>\<open>NULL\<close> is \<open>None\<close>.\<close>

definition gui_server_init ::
  "init_answers \<Rightarrow> string option \<Rightarrow> int \<Rightarrow> string option \<Rightarrow> gui_server_t \<Rightarrow> int \<times> gui_server_t" where
  "gui_server_init a host prt token server =
     (if prt \<le> 0 \<or> prt > 65535 then (-1, server)
      else if (case host of Some h \<Rightarrow> length h \<ge> 64 | None \<Rightarrow> False) then (-1, server)
      else if (case token of Some t \<Rightarrow> length t \<ge> MAX_AUTH_TOKEN_LEN | None \<Rightarrow> False) then (-1, server)
      else
        let s1 = zero_server\<lparr>bind_host := (case host of Some h \<Rightarrow> if length h > 0 then take 63 h else ''127.0.0.1'' | None \<Rightarrow> ''127.0.0.1''),
                   port := prt,
                   auth_token := (case token of Some t \<Rightarrow> take (MAX_AUTH_TOKEN_LEN - 1) t | None \<Rightarrow> []),
                   server_fd := -1\<rparr>
        in if \<not> mutex_init_ok a then (-1, s1)
           else if \<not> cond_init_ok a then (-1, s1)
           else if \<not> snapshot_malloc_ok a then (-1, s1)
           else if \<not> rwlock_init_ok a then (-1, s1)
           else (0, s1\<lparr>latest_snapshot := Some zero_snapshot, initialized := True\<rparr>))"

record start_answers =
  socket_fd :: int
  inet_pton_ok :: "string \<Rightarrow> bool"
  bind_ok :: bool
  listen_ok :: bool
  thread_ok :: bool

definition gui_server_start :: "start_answers \<Rightarrow> gui_server_t \<Rightarrow> int \<times> gui_server_t" where
  "gui_server_start a server =
     (if \<not> initialized server \<or> server_running server then (-1, server)
      else
        let s1 = server\<lparr>server_fd := socket_fd a\<rparr> in
        if socket_fd a < 0 then (-1, s1)
        else if \<not> inet_pton_ok a (bind_host server) then (-1, s1\<lparr>server_fd := -1\<rparr>)
        else if \<not> bind_ok a then (-1, s1\<lparr>server_fd := -1\<rparr>)
        else if \<not> listen_ok a then (-1, s1\<lparr>server_fd := -1\<rparr>)
        else if \<not> thread_ok a then (-1, s1\<lparr>server_running := False\<rparr>)
        else (0, s1\<lparr>server_running := True\<rparr>))"

definition gui_server_update_snapshot :: "system_snapshot_t option \<Rightarrow> gui_server_t \<Rightarrow> gui_server_t" where
  "gui_server_update_snapshot sn server =
     (case (sn, latest_snapshot server) of
        (Some x, Some _) \<Rightarrow> server\<lparr>latest_snapshot := Some x\<rparr>
      | _ \<Rightarrow> server)"

subsection \<open>Workers\<close>

text \<open>
  A connection: what the system answers on it, and the bytes its one \<^verbatim>\<open>recv\<close> returns (none on an error,
  a closed connection or after the receive timeout).
\<close>

record connection =
  conn_env :: client_env
  conn_in :: string

definition fresh_wire :: wire where
  "fresh_wire = \<lparr>sent = [], calls = 0\<rparr>"

text \<open>
  Where the accepting thread is: at the head of its loop, in \<^verbatim>\<open>accept\<close>, holding an accepted connection
  for which it has counted a worker, sending the refusal to a connection for which there is no worker,
  or gone. A worker is serving its connection, or has closed it and not yet taken itself off the
  count. Where the stopping thread is: not stopping, in \<^verbatim>\<open>pthread_join\<close>, waiting on the condition
  variable, or done with the locks destroyed. \<open>rejected\<close> are the refusals sent, \<open>replies\<close> the bytes sent to
  the clients served, \<open>dispatched\<close> the signals the workers sent.
\<close>

datatype acceptor = Checking | Accepting | Holding connection | Rejecting connection | Exited

datatype worker = Serving connection | Closed

datatype stopper = Idle | Joining | Waiting | Stopped

record pool =
  srv :: gui_server_t
  acceptor :: acceptor
  workers :: "worker list"
  stopper :: stopper
  rejected :: "(string \<times> string) list"
  replies :: "string list"
  dispatched :: "kill_call list"

text \<open>The status and the body sent to a connection for which there is no worker.\<close>

definition busy_reply :: "string \<times> string" where
  "busy_reply = (''503 Service Unavailable'', json_error ''Too many concurrent connections'')"

definition send_busy :: "connection \<Rightarrow> wire option" where
  "send_busy c = send_response (e_dev (conn_env c)) (fst busy_reply) ''application/json'' (snd busy_reply) [] fresh_wire"

definition accept_client :: "connection \<Rightarrow> pool \<Rightarrow> pool" where
  "accept_client c p =
     (if active_workers (srv p) \<ge> MAX_CLIENT_WORKERS then p\<lparr>acceptor := Rejecting c\<rparr>
      else p\<lparr>srv := (srv p)\<lparr>active_workers := active_workers (srv p) + 1\<rparr>, acceptor := Holding c\<rparr>)"

definition reject_client :: "pool \<Rightarrow> pool" where
  "reject_client p = p\<lparr>rejected := rejected p @ [busy_reply], acceptor := Checking\<rparr>"

definition spawn_worker :: "connection \<Rightarrow> pool \<Rightarrow> pool" where
  "spawn_worker c p = p\<lparr>workers := workers p @ [Serving c], acceptor := Checking\<rparr>"

definition drop_client :: "pool \<Rightarrow> pool" where
  "drop_client p = p\<lparr>srv := (srv p)\<lparr>active_workers := active_workers (srv p) - 1\<rparr>, acceptor := Checking\<rparr>"

text \<open>A worker between other workers \<open>us\<close> and \<open>vs\<close>: it has served its connection; it takes itself off
  the count.\<close>

definition worker_served :: "worker list \<Rightarrow> worker list \<Rightarrow> wire \<Rightarrow> kill_call list \<Rightarrow> pool \<Rightarrow> pool" where
  "worker_served us vs w ks p =
     p\<lparr>workers := us @ Closed # vs, replies := replies p @ [sent w], dispatched := ks\<rparr>"

definition worker_done :: "worker list \<Rightarrow> worker list \<Rightarrow> pool \<Rightarrow> pool" where
  "worker_done us vs p =
     p\<lparr>srv := (srv p)\<lparr>active_workers := active_workers (srv p) - 1\<rparr>, workers := us @ vs\<rparr>"

text \<open>The begin of \<^verbatim>\<open>gui_server_stop\<close> on a running server.\<close>

definition stop_running :: "gui_server_t \<Rightarrow> gui_server_t" where
  "stop_running s =
     (let s1 = s\<lparr>server_running := False\<rparr> in if server_fd s1 \<ge> 0 then s1\<lparr>server_fd := -1\<rparr> else s1)"

definition stop_begin :: "pool \<Rightarrow> pool" where
  "stop_begin p = p\<lparr>srv := stop_running (srv p), stopper := Joining\<rparr>"

text \<open>The end of \<^verbatim>\<open>gui_server_stop\<close>: locks destroyed, snapshot freed.\<close>

definition stop_end :: "gui_server_t \<Rightarrow> gui_server_t" where
  "stop_end s = s\<lparr>latest_snapshot := None, initialized := False\<rparr>"

text \<open>
  The whole of \<^verbatim>\<open>gui_server_stop\<close> as its caller sees it. Whether the threads it waits for end is the
  argument \<open>drained\<close>: if they do not, the call does not return (\<open>False\<close>), and the server stays as it is
  while the caller waits.
\<close>

definition gui_server_stop :: "bool \<Rightarrow> gui_server_t \<Rightarrow> bool \<times> gui_server_t" where
  "gui_server_stop drained s =
     (if \<not> initialized s then (True, s)
      else if server_running s then
        if drained then (True, stop_end ((stop_running s)\<lparr>active_workers := 0\<rparr>)) else (False, stop_running s)
      else (True, stop_end s))"

text \<open>The steps of the threads, with clients out of \<open>C\<close>.\<close>

inductive pool_step :: "(connection \<Rightarrow> bool) \<Rightarrow> pool \<Rightarrow> pool \<Rightarrow> bool" for C where
  check: "acceptor p = Checking \<Longrightarrow> server_running (srv p) \<Longrightarrow> pool_step C p (p\<lparr>acceptor := Accepting\<rparr>)"
| leave: "acceptor p = Checking \<or> acceptor p = Accepting \<Longrightarrow> \<not> server_running (srv p) \<Longrightarrow>
    pool_step C p (p\<lparr>acceptor := Exited\<rparr>)"
| again: "acceptor p = Accepting \<Longrightarrow> pool_step C p (p\<lparr>acceptor := Checking\<rparr>)"
| accept: "acceptor p = Accepting \<Longrightarrow> C c \<Longrightarrow> pool_step C p (accept_client c p)"
| reject: "acceptor p = Rejecting c \<Longrightarrow> send_busy c = Some w \<Longrightarrow> pool_step C p (reject_client p)"
| spawn: "acceptor p = Holding c \<Longrightarrow> pool_step C p (spawn_worker c p)"
| drop: "acceptor p = Holding c \<Longrightarrow> pool_step C p (drop_client p)"
| publish: "stopper p = Idle \<Longrightarrow> pool_step C p (p\<lparr>srv := gui_server_update_snapshot sn (srv p)\<rparr>)"
| serve: "workers p = us @ Serving c # vs \<Longrightarrow>
    serve_client (conn_env c) (srv p) (conn_in c) (dispatched p) fresh_wire = Some (w, ks) \<Longrightarrow>
    pool_step C p (worker_served us vs w ks p)"
| finish: "workers p = us @ Closed # vs \<Longrightarrow> pool_step C p (worker_done us vs p)"
| stop: "stopper p = Idle \<Longrightarrow> initialized (srv p) \<Longrightarrow> server_running (srv p) \<Longrightarrow> pool_step C p (stop_begin p)"
| join: "stopper p = Joining \<Longrightarrow> acceptor p = Exited \<Longrightarrow> pool_step C p (p\<lparr>stopper := Waiting\<rparr>)"
| stopped: "stopper p = Waiting \<Longrightarrow> active_workers (srv p) \<le> 0 \<Longrightarrow>
    pool_step C p (p\<lparr>srv := stop_end (srv p), stopper := Stopped\<rparr>)"

inductive_cases pool_stepE: "pool_step C p q"

lemmas pool_ops = accept_client_def reject_client_def spawn_worker_def drop_client_def worker_served_def worker_done_def

text \<open>
  \<open>again\<close> is an \<^verbatim>\<open>accept\<close> that times out or is interrupted, \<open>leave\<close> the test at the head of the loop or
  the one after a failed \<^verbatim>\<open>accept\<close>; a connection may still be accepted after the server has been told
  to stop.
\<close>

text \<open>The state right after a successful \<^verbatim>\<open>gui_server_start\<close>.\<close>

definition pool_start :: "pool \<Rightarrow> bool" where
  "pool_start p \<longleftrightarrow> initialized (srv p) \<and> server_running (srv p) \<and> active_workers (srv p) = 0 \<and>
     latest_snapshot (srv p) \<noteq> None \<and> acceptor p = Checking \<and> workers p = [] \<and> stopper p = Idle"

text \<open>The counter is the number of workers and of the connection in hand; the locks are alive while
  someone may use them.\<close>

definition in_hand :: "acceptor \<Rightarrow> nat" where
  "in_hand a = (case a of Holding c \<Rightarrow> 1 | _ \<Rightarrow> 0)"

definition pool_inv :: "pool \<Rightarrow> bool" where
  "pool_inv p \<longleftrightarrow>
     active_workers (srv p) = int (length (workers p) + in_hand (acceptor p)) \<and>
     active_workers (srv p) \<le> MAX_CLIENT_WORKERS \<and>
     (acceptor p = Exited \<longrightarrow> stopper p \<noteq> Idle) \<and>
     (server_running (srv p) \<longleftrightarrow> stopper p = Idle) \<and>
     (stopper p = Waiting \<or> stopper p = Stopped \<longrightarrow> acceptor p = Exited) \<and>
     (stopper p = Stopped \<longleftrightarrow> \<not> initialized (srv p)) \<and>
     (stopper p = Stopped \<longrightarrow> workers p = []) \<and>
     (latest_snapshot (srv p) = None \<longleftrightarrow> stopper p = Stopped)"

lemma pool_step_inv:
  assumes "pool_inv p" "pool_step C p q"
  shows "pool_inv q"
  using assms(2)
proof (cases rule: pool_step.cases)
  case (accept c)
  then show ?thesis using assms(1) by (auto simp: pool_inv_def accept_client_def in_hand_def)
next
  case publish
  then show ?thesis using assms(1) by (auto simp: pool_inv_def gui_server_update_snapshot_def split: option.splits)
next
  case stop
  then show ?thesis using assms(1) by (auto simp: pool_inv_def stop_begin_def stop_running_def Let_def)
next
  case stopped
  then show ?thesis using assms(1) by (auto simp: pool_inv_def stop_end_def in_hand_def)
qed (use assms(1) in \<open>auto simp: pool_inv_def in_hand_def reject_client_def spawn_worker_def drop_client_def
      worker_served_def worker_done_def\<close>)

interpretation pool_runs: inductive_invariant pool_start "pool_step C" pool_inv for C
  by unfold_locales (simp add: pool_start_def pool_inv_def in_hand_def MAX_CLIENT_WORKERS_def, rule pool_step_inv)

lemma rejected_replies: "(pool_step C)\<^sup>*\<^sup>* p q \<Longrightarrow> set (rejected q) \<subseteq> set (rejected p) \<union> {busy_reply}"
proof (induction rule: rtranclp_induct)
  case (step q r)
  have "set (rejected r) \<subseteq> set (rejected q) \<union> {busy_reply}" using step.hyps(2)
    by (cases rule: pool_step.cases) (auto simp: pool_ops stop_begin_def)
  with step.IH show ?case by auto
qed auto

text \<open>Every connection in the pool is one that arrived.\<close>

definition holds :: "acceptor \<Rightarrow> connection \<Rightarrow> bool" where
  "holds a c \<longleftrightarrow> a = Holding c \<or> a = Rejecting c"

definition clients_in :: "(connection \<Rightarrow> bool) \<Rightarrow> pool \<Rightarrow> bool" where
  "clients_in C p \<longleftrightarrow> (\<forall>c. Serving c \<in> set (workers p) \<or> holds (acceptor p) c \<longrightarrow> C c)"

lemma clients_in_step:
  assumes "clients_in C p" "pool_step C p q"
  shows "clients_in C q"
  using assms(2)
proof (cases rule: pool_step.cases)
  case (accept c)
  then show ?thesis using assms(1) by (auto simp: clients_in_def accept_client_def holds_def)
next
  case (spawn c)
  then show ?thesis using assms(1) by (auto simp: clients_in_def spawn_worker_def holds_def)
qed (use assms(1) in \<open>auto simp: clients_in_def holds_def reject_client_def drop_client_def worker_served_def
      worker_done_def stop_begin_def\<close>)

interpretation pool_clients: inductive_invariant pool_start "pool_step C" "clients_in C" for C
  by unfold_locales (simp add: pool_start_def clients_in_def holds_def, rule clients_in_step)

subsection \<open>Stopping ends if the clients let it\<close>

text \<open>A connection on which a send does not ask for another try for ever.\<close>

definition conn_fair :: "connection \<Rightarrow> bool" where
  "conn_fair c \<longleftrightarrow> fair send_retry (e_dev (conn_env c))"

definition worker_work :: "worker \<Rightarrow> nat" where
  "worker_work w = (case w of Serving c \<Rightarrow> 2 | Closed \<Rightarrow> 1)"

definition stop_work :: "pool \<Rightarrow> nat" where
  "stop_work p = sum_list (map worker_work (workers p)) +
     (case acceptor p of Checking \<Rightarrow> 1 | Accepting \<Rightarrow> 5 | Holding c \<Rightarrow> 4 | Rejecting c \<Rightarrow> 2 | Exited \<Rightarrow> 0) +
     (case stopper p of Idle \<Rightarrow> 3 | Joining \<Rightarrow> 2 | Waiting \<Rightarrow> 1 | Stopped \<Rightarrow> 0)"

text \<open>A worker that has not finished can make its next step if its connection is fair.\<close>

lemma worker_progress:
  assumes "workers p \<noteq> []" "clients_in C p" "\<forall>c. C c \<longrightarrow> conn_fair c"
  shows "\<exists>q. pool_step C p q"
proof (cases "workers p")
  case (Cons w ws)
  show ?thesis
  proof (cases w)
    case (Serving c)
    have "conn_fair c" using assms Cons Serving by (auto simp: clients_in_def)
    then obtain y ks where
      "serve_client (conn_env c) (srv p) (conn_in c) (dispatched p) fresh_wire = Some (y, ks)"
      using serve_client_returns unfolding conn_fair_def by blast
    then show ?thesis using pool_step.serve [of p "[]" c ws] Cons Serving by auto
  next
    case Closed
    then show ?thesis using pool_step.finish [of p "[]" ws] Cons by auto
  qed
qed (use assms(1) in simp)

lemma stop_progress:
  assumes "pool_inv p" "clients_in C p" "\<forall>c. C c \<longrightarrow> conn_fair c" "stopper p \<noteq> Idle" "stopper p \<noteq> Stopped"
  shows "\<exists>q. pool_step C p q"
proof (cases "acceptor p")
  case (Rejecting c)
  then have "conn_fair c" using assms(2,3) by (auto simp: clients_in_def holds_def)
  then obtain w where "send_busy c = Some w"
    unfolding conn_fair_def send_busy_def using send_response_returns by blast
  then show ?thesis using Rejecting pool_step.reject by blast
next
  case Exited
  show ?thesis
  proof (cases "stopper p")
    case Waiting
    show ?thesis
    proof (cases "workers p = []")
      case True
      then show ?thesis using assms(1) Exited Waiting pool_step.stopped [of p] by (auto simp: pool_inv_def in_hand_def)
    next
      case False
      then show ?thesis by (rule worker_progress [OF _ assms(2,3)])
    qed
  qed (use Exited assms pool_step.join in auto)
next
  case Accepting
  then show ?thesis using pool_step.again by blast
next
  case (Holding c)
  then show ?thesis using pool_step.spawn by blast
next
  case Checking
  then show ?thesis using assms pool_step.leave by (auto simp: pool_inv_def)
qed

lemma stop_decreases:
  assumes "pool_inv p" "stopper p \<noteq> Idle" "pool_step C p q"
  shows "stop_work q < stop_work p" "stopper q \<noteq> Idle"
proof -
  have "stop_work q < stop_work p \<and> stopper q \<noteq> Idle" using assms(3)
    by (cases rule: pool_step.cases)
      (use assms(1,2) in \<open>auto simp: pool_inv_def stop_work_def worker_work_def pool_ops\<close>)
  then show "stop_work q < stop_work p" "stopper q \<noteq> Idle" by auto
qed

text \<open>A run that has begun to stop makes at most \<open>stop_work\<close> further steps.\<close>

lemma stop_steps:
  "(pool_step C ^^ n) p q \<Longrightarrow> pool_inv p \<Longrightarrow> stopper p \<noteq> Idle \<Longrightarrow>
     n + stop_work q \<le> stop_work p \<and> stopper q \<noteq> Idle \<and> pool_inv q"
proof (induction n arbitrary: q)
  case (Suc n)
  then obtain r where r: "(pool_step C ^^ n) p r" "pool_step C r q" by auto
  then have "n + stop_work r \<le> stop_work p" "stopper r \<noteq> Idle" "pool_inv r" using Suc by auto
  then show ?case using stop_decreases [of r C q] pool_step_inv [of r C q] r(2) by auto
qed auto

lemma stop_reached:
  assumes C: "\<forall>c. C c \<longrightarrow> conn_fair c"
  shows "pool_inv p \<Longrightarrow> clients_in C p \<Longrightarrow> stopper p \<noteq> Idle \<Longrightarrow> \<exists>q. (pool_step C)\<^sup>*\<^sup>* p q \<and> stopper q = Stopped"
proof (induction "stop_work p" arbitrary: p rule: less_induct)
  case less
  show ?case
  proof (cases "stopper p = Stopped")
    case False
    then obtain q where q: "pool_step C p q" using stop_progress [OF _ _ C] less.prems by blast
    then have "stop_work q < stop_work p" "stopper q \<noteq> Idle" "pool_inv q" "clients_in C q"
      using stop_decreases [OF less.prems(1,3) q] pool_step_inv [OF less.prems(1) q] clients_in_step [OF less.prems(2) q]
      by simp_all
    then obtain r where "(pool_step C)\<^sup>*\<^sup>* q r" "stopper r = Stopped" using less.hyps by blast
    then show ?thesis using converse_rtranclp_into_rtranclp [of "pool_step C", OF q] by blast
  qed auto
qed

subsection \<open>A client that stops reading keeps the server from stopping\<close>

text \<open>A connection that has sent a signal request and on which every send times out.\<close>

definition conn_stalled :: "connection \<Rightarrow> bool" where
  "conn_stalled c \<longleftrightarrow> stalled send_retry (e_dev (conn_env c)) \<and> conn_in c \<noteq> [] \<and>
     route_of (c_str (take (BUFFER_SIZE - 1) (conn_in c))) = Signal"

lemma conn_stalled_waits:
  assumes "conn_stalled c"
  shows "serve_client (conn_env c) s (conn_in c) ks w = None" "send_busy c = None"
proof -
  show "serve_client (conn_env c) s (conn_in c) ks w = None"
    using assms by (intro serve_client_stalled) (simp_all add: conn_stalled_def)
  have "length (fst busy_reply) \<le> 100" "length (snd busy_reply) \<le> 100"
    by (simp_all add: busy_reply_def json_error_def jstr_def)
  then show "send_busy c = None"
    unfolding send_busy_def using assms send_response_stalled unfolding conn_stalled_def by blast
qed

definition stuck_with :: "connection \<Rightarrow> pool \<Rightarrow> bool" where
  "stuck_with c p \<longleftrightarrow> Serving c \<in> set (workers p) \<or> acceptor p = Rejecting c"

lemma stuck_step:
  assumes "conn_stalled c" "stuck_with c p" "pool_step C p q"
  shows "stuck_with c q"
proof (cases "acceptor p = Rejecting c")
  case True
  from assms(3) show ?thesis
    by (cases rule: pool_step.cases)
      (use True conn_stalled_waits(2) [OF assms(1)] in \<open>auto simp: stuck_with_def worker_served_def worker_done_def stop_begin_def\<close>)
next
  case False
  then have w: "Serving c \<in> set (workers p)" using assms(2) by (simp add: stuck_with_def)
  from assms(3) show ?thesis
    by (cases rule: pool_step.cases)
      (use w conn_stalled_waits(1) [OF assms(1)] in \<open>auto simp: stuck_with_def pool_ops stop_begin_def\<close>)
qed

lemma stuck_not_stopped: "pool_inv p \<Longrightarrow> stuck_with c p \<Longrightarrow> stopper p \<noteq> Stopped"
  by (auto simp: pool_inv_def stuck_with_def)

lemma stuck_steps: "(pool_step C)\<^sup>*\<^sup>* p q \<Longrightarrow> conn_stalled c \<Longrightarrow> stuck_with c p \<Longrightarrow> stuck_with c q"
  by (induction rule: rtranclp_induct) (auto intro: stuck_step)

subsection \<open>What stopping leaves\<close>

text \<open>The fields of the server that neither the workers nor a published snapshot change.\<close>

definition server_frame :: "gui_server_t \<Rightarrow> gui_server_t" where
  "server_frame s = s\<lparr>latest_snapshot := None, active_workers := 0\<rparr>"

definition pool_from :: "gui_server_t \<Rightarrow> pool \<Rightarrow> bool" where
  "pool_from s p \<longleftrightarrow> server_frame (srv p) = server_frame
     (case stopper p of Idle \<Rightarrow> s | Stopped \<Rightarrow> stop_end (stop_running s) | _ \<Rightarrow> stop_running s)"

lemma server_frame_simps [simp]:
  "server_frame (s\<lparr>active_workers := n\<rparr>) = server_frame s"
  "server_frame (gui_server_update_snapshot sn s) = server_frame s"
  "server_frame (stop_running s) = stop_running (server_frame s)"
  "server_frame (stop_end s) = stop_end (server_frame s)"
  by (simp_all add: server_frame_def gui_server_update_snapshot_def stop_running_def stop_end_def Let_def
      split: option.split)

lemma pool_from_step:
  assumes "pool_from s p" "pool_step C p q" shows "pool_from s q"
  using assms(2)
proof (cases rule: pool_step.cases)
  case stop
  then show ?thesis using assms(1) by (simp add: pool_from_def stop_begin_def)
next
  case join
  then show ?thesis using assms(1) by (simp add: pool_from_def)
next
  case stopped
  then show ?thesis using assms(1) by (simp add: pool_from_def)
qed (use assms(1) in \<open>simp_all add: pool_from_def pool_ops\<close>)

lemma pool_from_steps: "(pool_step C)\<^sup>*\<^sup>* p q \<Longrightarrow> pool_from s p \<Longrightarrow> pool_from s q"
  by (induction rule: rtranclp_induct) (auto intro: pool_from_step)

lemma pool_from_start: "pool_start p \<Longrightarrow> (pool_step C)\<^sup>*\<^sup>* p q \<Longrightarrow> pool_from (srv p) q"
  by (rule pool_from_steps) (auto simp: pool_from_def pool_start_def)

lemma stopped_server:
  assumes "pool_start p" "(pool_step C)\<^sup>*\<^sup>* p q" "stopper q = Stopped"
  shows "gui_server_stop True (srv p) = (True, srv q)"
proof -
  have "server_frame (srv q) = server_frame (stop_end (stop_running (srv p)))"
    using pool_from_start [OF assms(1,2)] assms(3) by (simp add: pool_from_def)
  moreover have "active_workers (srv q) = 0" "latest_snapshot (srv q) = None"
    using pool_runs.reachable_inv [OF assms(1,2)] assms(3) by (auto simp: pool_inv_def in_hand_def)
  ultimately have "srv q = server_frame (stop_end (stop_running (srv p)))" by (metis (no_types, lifting) gui_server_t.surjective gui_server_t.update_convs(6,7) server_frame_def)
  then show ?thesis using assms(1) by (simp add: pool_start_def gui_server_stop_def server_frame_def stop_end_def stop_running_def Let_def)
qed

lemma waiting_server:
  assumes "pool_start p" "(pool_step C)\<^sup>*\<^sup>* p q" "stopper q \<noteq> Idle" "stopper q \<noteq> Stopped"
  shows "gui_server_stop False (srv p) = (False, stop_running (srv p))"
    "server_frame (srv q) = server_frame (stop_running (srv p))"
  using pool_from_start [OF assms(1,2)] assms(1,3,4)
  by (cases "stopper q"; simp add: pool_from_def pool_start_def gui_server_stop_def)+

end
