(* ===== verification/Server_Theorems.thy ===== *)
theory Server_Theorems
  imports Metrics_Facts Gui_Lifecycle
begin

text \<open>
  The properties of the signal handler and of the request handling of the HTTP server: which
  requests are authorised, which signals a request can cause, what reaches the client.
\<close>

subsection \<open>A server for the examples\<close>

text \<open>The connection refuses every other call and otherwise takes one byte.\<close>

definition demo_device :: device where
  "demo_device k n = (if even k then Failed EAGAIN else Accepted 1)"

definition demo_env :: client_env where
  "demo_env = \<lparr>e_dev = demo_device, e_files = (\<lambda>_. None), e_alloc = (\<lambda>_. True), e_kill = (\<lambda>p g. p = 1234)\<rparr>"

definition demo_server :: gui_server_t where
  "demo_server = zero_server\<lparr>port := 8080, auth_token := ''s3cret'', initialized := True, server_running := True,
     latest_snapshot := Some zero_snapshot\<rparr>"

definition demo_header :: string where
  "demo_header = '' HTTP/1.1'' @ crlf @ ''x-auth-token: s3cret''"

definition demo_request :: string where
  "demo_request = ''POST /api/process/signal'' @ demo_header @ crlf @ crlf @ signal_body (\<lambda>_. []) 1234 ''SIGSTOP''"

definition demo_wire :: wire where
  "demo_wire = \<lparr>sent = [], calls = 0\<rparr>"

lemma demo_good: "good_device demo_device"
proof
  have "\<exists>j\<ge>k. \<forall>n e. demo_device j n = Failed e \<longrightarrow> \<not> send_retry e" for k
    by (intro exI [of _ "2 * k + 1"]) (simp add: demo_device_def)
  then show "fair send_retry demo_device" by (simp add: fair_def)
  show "lossless send_retry demo_device" by (simp add: lossless_def demo_device_def send_retry_def)
qed

lemma demo_fields [simp]:
  "e_dev demo_env = demo_device" "e_files demo_env = (\<lambda>_. None)" "e_alloc demo_env = (\<lambda>_. True)"
  "e_kill demo_env = (\<lambda>p g. p = 1234)" "auth_token demo_server = ''s3cret''"
  "latest_snapshot demo_server = Some zero_snapshot"
  by (simp_all add: demo_env_def demo_server_def)

lemma demo_request_eq:
  "demo_request = ''POST /api/process/signal HTTP/1.1'' @ crlf @ ''x-auth-token: s3cret'' @ crlf @ crlf @
     ''{'' @ [CHR 0x22] @ ''pid'' @ [CHR 0x22] @ '':1234,'' @ [CHR 0x22] @ ''signal'' @ [CHR 0x22] @ '':'' @
     [CHR 0x22] @ ''SIGSTOP'' @ [CHR 0x22] @ ''}''"
  by code_simp

lemma demo_request_facts:
  "header_length demo_request = 24 + length demo_header" "check_auth ''s3cret'' demo_request"
  "length demo_request < BUFFER_SIZE" "NUL \<notin> set demo_request"
proof -
  show "header_length demo_request = 24 + length demo_header"
    by (simp add: demo_request_eq demo_header_def header_length_def crlf_def has_prefix_def)
  show "check_auth ''s3cret'' demo_request" unfolding demo_request_eq by code_simp
  show "length demo_request < BUFFER_SIZE" by (simp add: demo_request_eq BUFFER_SIZE_def crlf_def)
  show "NUL \<notin> set demo_request" by (simp add: demo_request_eq NUL_def crlf_def)
qed

subsection \<open>Signals\<close>

text \<open>
  C23. A signal name is one of the five the server knows, or a decimal number, or no name at all
  (which means \<^verbatim>\<open>SIGTERM\<close>): a number is accepted exactly when it is at most 31, and whatever the
  text, the result is \<^verbatim>\<open>-1\<close> or a number from 0 to 31.
\<close>

theorem signal_parse_name_correct:
  "signal_parse_name None = SIGTERM \<and> signal_parse_name (Some []) = SIGTERM \<and>
   signal_parse_name (Some ''SIGKILL'') = SIGKILL \<and> signal_parse_name (Some ''SIGTERM'') = SIGTERM \<and>
   signal_parse_name (Some ''SIGSTOP'') = SIGSTOP \<and> signal_parse_name (Some ''SIGCONT'') = SIGCONT \<and>
   signal_parse_name (Some ''SIGINT'') = SIGINT \<and>
   signal_parse_name (Some (show_nat n)) = (if n \<le> 31 then int n else - 1) \<and>
   signal_parse_name name \<in> {- 1..31}"
  using signal_parse_number [of n] signal_parse_name_range [of name]
  by (simp add: signal_parse_name_def)

text \<open>
  C24. The header scan decides authorisation: a request is accepted iff no token is configured or
  some line of the header part, lines being separated by CR LF and the header ending at the first
  empty line, is the name \<^verbatim>\<open>X-Auth-Token: \<close> or \<^verbatim>\<open>Authorization: Bearer \<close> in any case followed by
  exactly the token. A token in the body does not count.
\<close>

theorem check_auth_decides:
  "check_auth token buffer \<longleftrightarrow> token = [] \<or> list_ex (auth_line token) (crlf_lines (header_part buffer))"
  by (rule check_auth_iff)

text \<open>
  C25. Whatever bytes a client sends and however the kernel answers, serving it makes at most one
  call of \<^verbatim>\<open>kill\<close>; if there is one, the request carries the token, the target is above 1 and at
  most 4194304, and the signal is between 0 and 31.
\<close>

theorem signal_request_safe:
  assumes "serve_client e server received ks w = Some (w', ks')"
  shows "ks' = ks \<or> (\<exists>p g. ks' = ks @ [(p, g)] \<and> 1 < p \<and> p \<le> 4194304 \<and> 0 \<le> g \<and> g \<le> 31 \<and>
    check_auth (auth_token server) (c_str (take (BUFFER_SIZE - 1) received)) \<and>
    has_prefix ''POST /api/process/signal'' received)"
proof (cases "received \<noteq> [] \<and> route_of (c_str (take (BUFFER_SIZE - 1) received)) = Signal")
  case False
  then show ?thesis using assms by (auto simp: serve_client_def Let_def split: if_splits route.splits)
next
  case True
  let ?b = "c_str (take (BUFFER_SIZE - 1) received)"
  obtain r k1 where d: "decide_signal (e_kill e) (auth_token server) ?b ks = (r, k1)" by fastforce
  have "ks' = k1" using assms True d
    by (auto simp: serve_client_def Let_def handle_process_signal_def split: prod.splits)
  moreover have "has_prefix ''POST /api/process/signal'' ?b" using True by (auto simp: route_of_def split: if_splits)
  then have "has_prefix ''POST /api/process/signal'' received" by (rule has_prefix_c_str)
  ultimately show ?thesis using decide_signal_kills [OF d] by blast
qed

theorem signal_request_safe_witness:
  "\<exists>w' ks'. serve_client demo_env demo_server demo_request [] demo_wire = Some (w', ks') \<and>
     (ks' = [] \<or> (\<exists>p g. ks' = [(p, g)] \<and> 1 < p \<and> p \<le> 4194304 \<and> 0 \<le> g \<and> g \<le> 31 \<and>
        check_auth ''s3cret'' (c_str (take (BUFFER_SIZE - 1) demo_request)) \<and>
        has_prefix ''POST /api/process/signal'' demo_request))"
proof -
  obtain w' ks' where "serve_client demo_env demo_server demo_request [] demo_wire = Some (w', ks')"
    using serve_client_returns [of demo_env demo_server demo_request "[]" demo_wire] demo_good by auto
  from this signal_request_safe [OF this] show ?thesis by auto
qed

text \<open>
  C26. A request that carries the token and a body with a process number and a signal name, with
  any white space between them, is delivered: exactly this signal is sent to exactly this
  process, and the client is told whether the kernel accepted it, on any connection that does
  not fail, whatever it takes per call.
\<close>

theorem signal_request_delivered:
  assumes "good_device (e_dev e)"
    and req: "received = ''POST /api/process/signal'' @ hdr @ crlf @ crlf @ signal_body sp n name"
    and "header_length received = 24 + length hdr" "length received < BUFFER_SIZE" "NUL \<notin> set received"
    and auth: "check_auth (auth_token server) received"
    and sp: "\<And>i. json_spaces (sp i)" and n: "1 < n" "n \<le> 4194304"
    and name: "CHR 0x22 \<notin> set name" "CHR 0x5C \<notin> set name" "name \<noteq> []" "length name \<le> 31"
    and g: "g = signal_parse_name (Some name)" "0 \<le> g"
  shows "\<exists>w'. serve_client e server received ks w = Some (w', ks @ [(int n, g)]) \<and>
    sent w' = sent w @
      (if e_kill e (int n) g then http_reply (reply_text Sent_Signal) else http_reply (reply_text Failed_Signal))"
proof -
  have b: "c_str (take (BUFFER_SIZE - 1) received) = received" using assms(4,5) by (simp add: c_str_id)
  have route: "route_of received = Signal" by (simp add: req route_of_def has_prefix_def)
  let ?r = "if e_kill e (int n) g then Sent_Signal else Failed_Signal"
  have d: "decide_signal (e_kill e) (auth_token server) received ks = (?r, ks @ [(int n, g)])"
    by (rule decide_signal_body [where w = sp and hdr = "''POST /api/process/signal'' @ hdr", OF sp auth _ _ n name g])
      (use assms(3) in \<open>simp_all add: req\<close>)
  obtain w' where w': "send_response (e_dev e) (fst (reply_text ?r)) ''application/json'' (snd (reply_text ?r)) [] w = Some w'"
    "sent w' = sent w @ http_reply (reply_text ?r)"
    using send_reply [OF assms(1)] by blast
  have "received \<noteq> []" by (simp add: req)
  then have "serve_client e server received ks w = Some (w', ks @ [(int n, g)])"
    using b route w'(1) handle_signal_reply [OF d] by (simp add: serve_client_def)
  then show ?thesis using w'(2) by auto
qed

theorem signal_request_delivered_witness:
  "\<exists>w'. serve_client demo_env demo_server demo_request [] demo_wire = Some (w', [(1234, SIGSTOP)]) \<and>
     sent w' = http_reply (reply_text Sent_Signal)"
proof -
  have p: "signal_parse_name (Some ''SIGSTOP'') = SIGSTOP" by (simp add: signal_parse_name_def)
  have "\<exists>w'. serve_client demo_env demo_server demo_request [] demo_wire = Some (w', [] @ [(int 1234, SIGSTOP)]) \<and>
      sent w' = sent demo_wire @ (if e_kill demo_env (int 1234) SIGSTOP
        then http_reply (reply_text Sent_Signal) else http_reply (reply_text Failed_Signal))"
    by (rule signal_request_delivered [where hdr = demo_header and sp = "\<lambda>_. []" and name = "''SIGSTOP''"])
      (use demo_good demo_request_facts p in \<open>simp_all add: demo_request_def json_spaces_def signal_defs\<close>)
  then show ?thesis by (simp add: demo_wire_def)
qed

subsection \<open>JSON text\<close>

text \<open>
  C27. Escaping never overflows the output buffer, and a JSON reader gets back a prefix of the
  string, all of it when the buffer has room for six characters per character: quotes,
  backslashes and control characters included.
\<close>

theorem escape_json_roundtrip:
  assumes "0 < max_out"
  shows "length (escape_json_string s max_out) < max_out \<and>
    (\<exists>k\<le>length s. json_decode (escape_json_string s max_out) = Some (take k s) \<and>
       (6 * length s < max_out \<longrightarrow> k = length s))"
  using decode_escape_loop [of s "[]" max_out] length_escape_loop [of "[]" max_out s] assms
  by (auto simp: escape_json_string_def)

theorem escape_json_roundtrip_witness:
  "escape_json_string [CHR ''a'', CHR 0x22, CHR 0x0A, CHR 0x01] 64 =
     [CHR ''a'', CHR 0x5C, CHR 0x22, CHR 0x5C, CHR ''n'', CHR 0x5C, CHR ''u'', CHR ''0'', CHR ''0'', CHR ''0'', CHR ''1''] \<and>
   json_decode (escape_json_string [CHR ''a'', CHR 0x22, CHR 0x0A, CHR 0x01] 64) =
     Some [CHR ''a'', CHR 0x22, CHR 0x0A, CHR 0x01]"
proof
  show "json_decode (escape_json_string [CHR ''a'', CHR 0x22, CHR 0x0A, CHR 0x01] 64) =
     Some [CHR ''a'', CHR 0x22, CHR 0x0A, CHR 0x01]"
    using escape_json_roundtrip [of 64 "[CHR ''a'', CHR 0x22, CHR 0x0A, CHR 0x01]"] by auto
qed code_simp

subsection \<open>The connection\<close>

text \<open>
  C28. The output loops lose and repeat nothing: \<^verbatim>\<open>send_all\<close> returns 0 after exactly the buffer was
  sent, and \<^verbatim>\<open>-1\<close> only after a proper prefix of it; a log line of the allocator is at most 511
  bytes, and what is written of it is a prefix.
\<close>

theorem output_loops_exact:
  "(send_all dev buf w = Some (r, w') \<longrightarrow>
      r = 0 \<and> sent w' = sent w @ buf \<or> r = - 1 \<and> (\<exists>n<length buf. sent w' = sent w @ take n buf)) \<and>
   (log_error_write dev file line msg w = Some v \<longrightarrow>
      length (log_error_line file line msg) \<le> 511 \<and> (\<exists>n. sent v = sent w @ take n (log_error_line file line msg)))"
proof -
  have "r = 0 \<and> sent w' = sent w @ buf \<or> r = - 1 \<and> (\<exists>n<length buf. sent w' = sent w @ take n buf)"
    if "send_all dev buf w = Some (r, w')"
    using out_loop_sound [of send_retry dev buf w "(r, w')"] that by (auto simp: send_all_def sent_some_def)
  moreover have "length (log_error_line file line msg) \<le> 511" by (simp add: log_error_line_def snprintf_def)
  moreover have "\<exists>n. sent v = sent w @ take n (log_error_line file line msg)" if "log_error_write dev file line msg w = Some v"
    using out_loop_sound [of write_retry dev "log_error_line file line msg" w] that
    by (auto simp: log_error_write_def write_unbuffered_def sent_some_def)
  ultimately show ?thesis by blast
qed

theorem output_loops_exact_witness:
  "\<exists>w'. send_all (\<lambda>k n. if k = 0 then Accepted 2 else Failed EPIPE) ''abcd'' demo_wire = Some (- 1, w') \<and>
     sent w' = ''ab'' \<and> (\<exists>n<length ''abcd''. sent w' = take n ''abcd'')"
proof -
  let ?d = "\<lambda>k n :: nat. if k = 0 then Accepted 2 else Failed EPIPE"
  let ?w = "\<lparr>sent = ''ab'', calls = 2\<rparr>"
  have run: "send_all ?d ''abcd'' demo_wire = Some (- 1, ?w)"
    by (simp add: send_all_def demo_wire_def out_loop.simps send_retry_def)
  then show ?thesis using output_loops_exact [of ?d "''abcd''" demo_wire "- 1" ?w] by (auto simp: demo_wire_def)
qed

text \<open>
  C29. Serving a client ends: whatever the request, the files and the allocations, the handler
  returns on every connection that does not ask for another try forever. The hypothesis is
  needed: when every send of a reply to a signal request exceeds the send timeout, and so
  reports \<^verbatim>\<open>EAGAIN\<close>, the worker does not return.
\<close>

theorem serve_client_terminates:
  "(fair send_retry (e_dev e) \<longrightarrow> (\<exists>w' ks'. serve_client e server received ks w = Some (w', ks'))) \<and>
   (e_dev e = (\<lambda>k n. Failed EAGAIN) \<and> received \<noteq> [] \<and> route_of (c_str (take (BUFFER_SIZE - 1) received)) = Signal \<longrightarrow>
      serve_client e server received ks w = None)"
proof -
  have "stalled send_retry (\<lambda>k n. Failed EAGAIN)" by (simp add: stalled_def send_retry_def)
  then show ?thesis
    using serve_client_returns [of e server received ks w] serve_client_stalled [of e received server ks w] by metis
qed

theorem serve_client_terminates_witness:
  "fair send_retry (e_dev demo_env) \<and> (\<exists>w' ks'. serve_client demo_env demo_server demo_request [] demo_wire = Some (w', ks')) \<and>
   serve_client (demo_env\<lparr>e_dev := \<lambda>k n. Failed EAGAIN\<rparr>) demo_server demo_request [] demo_wire = None"
proof -
  have "c_str (take (BUFFER_SIZE - 1) demo_request) = demo_request" using demo_request_facts(3,4) by (simp add: c_str_id)
  moreover have "demo_request \<noteq> []" "route_of demo_request = Signal" by (simp_all add: demo_request_eq route_of_def has_prefix_def)
  ultimately show ?thesis
    using serve_client_terminates [of demo_env demo_server demo_request "[]" demo_wire] demo_good
      serve_client_terminates [of "demo_env\<lparr>e_dev := \<lambda>k n. Failed EAGAIN\<rparr>" demo_server demo_request "[]" demo_wire] by simp
qed

text \<open>
  C30. Each request gets one message: on a connection that does not fail, what a client
  receives is one header and a body of the length announced in it, or a file under the
  length the file system reports for it.
\<close>

theorem serve_client_framing:
  assumes good: "good_device (e_dev e)" and "received \<noteq> []"
    and count: "case latest_snapshot server of Some sn \<Rightarrow> s_count sn \<le> MAX_PROCS | None \<Rightarrow> True"
    and files: "\<And>path f. e_files e path = Some f \<Longrightarrow> 0 \<le> st_size f \<and> st_size f < 2 ^ 63"
  shows "\<exists>w' ks' msg. serve_client e server received ks w = Some (w', ks') \<and>
    sent w' = sent w @ msg \<and> http_message (e_files e) msg"
proof -
  let ?b = "c_str (take (BUFFER_SIZE - 1) received)"
  obtain r k1 where d: "decide_signal (e_kill e) (auth_token server) ?b ks = (r, k1)" by fastforce
  let ?m = "\<lambda>x. sends_message (e_files e) w x"
  have "\<exists>k x. serve_client e server received ks w = map_option (\<lambda>w1. (w1, k)) x \<and> ?m x"
  proof (cases "route_of ?b")
    case (Page path ct)
    then have "length ct < 50" by (auto simp: route_of_def split: if_splits)
    then have "?m (serve_file (e_dev e) (e_files e) path ct w)" by (rule sends_file [OF good _ files])
    then show ?thesis using Page assms(2) by (auto simp: serve_client_def Let_def)
  next
    case Metrics
    have "?m (serve_metrics_json (e_dev e) (e_alloc e) server w)" by (rule sends_metrics [OF good count])
    then show ?thesis using Metrics assms(2) by (auto simp: serve_client_def Let_def)
  next
    case Signal
    have "?m (send_response (e_dev e) (fst (reply_text r)) ''application/json'' (snd (reply_text r)) [] w)"
      by (rule sends_signal [OF good])
    then show ?thesis using Signal assms(2) handle_signal_reply [OF d] by (auto simp: serve_client_def Let_def)
  next
    case No_Route
    have "?m (send_response (e_dev e) ''404 Not Found'' ''application/json'' (json_error ''Route not found'') [] w)"
      by (rule sends_text [OF good]) (simp_all add: json_error_def jstr_def)
    then show ?thesis using No_Route assms(2) by (auto simp: serve_client_def Let_def)
  next
    case Bad_Method
    have "?m (send_response (e_dev e) ''405 Method Not Allowed'' ''application/json'' (json_error ''Method not allowed'') [] w)"
      by (rule sends_text [OF good]) (simp_all add: json_error_def jstr_def)
    then show ?thesis using Bad_Method assms(2) by (auto simp: serve_client_def Let_def)
  qed
  then show ?thesis by (auto simp: sends_message_def)
qed

theorem serve_client_framing_witness:
  "\<exists>w' ks' msg. serve_client demo_env demo_server ''BREW /'' [] demo_wire = Some (w', ks') \<and>
     sent w' = sent demo_wire @ msg \<and> http_message (e_files demo_env) msg"
  by (rule serve_client_framing) (simp_all add: demo_good[simplified] zero_snapshot_def)

text \<open>
  C31. The metrics document is complete: for every snapshot in the ranges of the C types whose
  command names have at most 128 characters, \<^verbatim>\<open>GET /api/metrics\<close> answers with the header and one
  line for each process, none cut or missing, when the allocations succeed. The kernel's command
  names have at most 63 characters.
\<close>

theorem metrics_document_complete:
  assumes good: "good_device (e_dev e)" and snap: "latest_snapshot server = Some sn"
    and typed: "typed_snapshot sn" "long64 (s_timestamp sn)"
    and short: "list_all (\<lambda>p. length (p_comm p) \<le> 128) (s_procs sn)"
    and alloc: "e_alloc e = (\<lambda>_. True)" and req: "has_prefix ''GET /api/metrics'' received"
    and doc: "doc = metrics_head (Some sn) @ metrics_lines (s_procs sn) @ metrics_tail"
  shows "\<exists>w'. serve_client e server received ks w = Some (w', ks) \<and>
    sent w' = sent w @ response_header ''200 OK'' ''application/json'' (length doc) (''Cache-Control: no-store'' @ crlf) @ doc"
  by (rule metrics_served [OF assms])

theorem metrics_document_complete_witness:
  "\<exists>w'. serve_client demo_env demo_server ''GET /api/metrics HTTP/1.1'' [] demo_wire = Some (w', []) \<and>
     sent w' = response_header ''200 OK'' ''application/json''
         (length (metrics_head (Some zero_snapshot) @ metrics_tail)) (''Cache-Control: no-store'' @ crlf) @
       metrics_head (Some zero_snapshot) @ metrics_tail"
proof -
  have t: "typed_snapshot zero_snapshot" "s_procs zero_snapshot = []" "long64 (s_timestamp zero_snapshot)"
    by (simp_all add: typed_snapshot_def zero_snapshot_def typed_cpu_def typed_mem_def zero_cpu_def zero_mem_def
        pct_def float_range_def int32_def long64_def LONG_MIN_def LONG_MAX_def)
  show ?thesis
    using metrics_document_complete [OF _ _ t(1,3) _ _ _ refl, of demo_env demo_server "''GET /api/metrics HTTP/1.1''" "[]" demo_wire]
      demo_good t(2) by (simp add: demo_wire_def has_prefix_def)
qed

subsection \<open>The workers\<close>











end
