(* ===== verification/Tui.thy ===== *)
theory Tui
  imports Proc_Parser Signal_Handler
begin

text \<open>
  The terminal interface of \<^verbatim>\<open>src/ui/tui.c\<close>. What \<^verbatim>\<open>tui_render\<close> puts on the screen is a frame; the
  terminal's size, the key read by \<^verbatim>\<open>getch\<close> and the readings of the clock are arguments, and so is the
  library's \<^verbatim>\<open>qsort_r\<close>. Sums and differences of C \<^verbatim>\<open>int\<close>s that could leave their range are wrapped
  to 32 bits.
\<close>

subsection \<open>State\<close>

datatype sort_mode_t = SORT_BY_CPU | SORT_BY_MEM | SORT_BY_PID | SORT_BY_NAME

record tui_state_t =
  is_running :: bool
  selected_index :: int
  scroll_offset :: int
  sort_mode :: sort_mode_t
  status_message :: string
  status_message_expiry :: int
  confirm_pending :: bool
  pending_kill_pid :: int

definition tui_initial :: tui_state_t where
  "tui_initial = \<lparr>is_running = True, selected_index = 0, scroll_offset = 0, sort_mode = SORT_BY_CPU,
     status_message = [], status_message_expiry = 0, confirm_pending = False, pending_kill_pid = -1\<rparr>"

subsection \<open>The screen\<close>

text \<open>
  The modes of the terminal that \<^verbatim>\<open>tui_init\<close> sets, and the colour pairs it defines. \<^verbatim>\<open>initscr\<close> saves the
  line modes of the terminal as the shell mode; \<^verbatim>\<open>endwin\<close> restores them, leaves the keypad mode and
  makes the cursor visible.
\<close>

datatype color = COLOR_BLACK | COLOR_RED | COLOR_GREEN | COLOR_YELLOW | COLOR_CYAN | COLOR_WHITE

record screen =
  curses_on :: bool
  cbreak :: bool
  echo :: bool
  keypad :: bool
  nodelay :: bool
  cursor :: nat
  color_pairs :: "(nat \<times> color \<times> color) list"
  shell_mode :: "bool \<times> bool"

definition tui_init :: "bool \<Rightarrow> screen \<Rightarrow> int \<times> screen" where
  "tui_init has_colors s =
     (let s1 = s\<lparr>shell_mode := (cbreak s, echo s), curses_on := True, cbreak := True, echo := False, keypad := True, nodelay := True, cursor := 0\<rparr>
      in (0, if has_colors
             then s1\<lparr>color_pairs := [(1, COLOR_CYAN, COLOR_BLACK), (2, COLOR_GREEN, COLOR_BLACK),
                    (3, COLOR_YELLOW, COLOR_BLACK), (4, COLOR_RED, COLOR_BLACK), (5, COLOR_BLACK, COLOR_WHITE)]\<rparr>
             else s1))"

definition tui_cleanup :: "screen \<Rightarrow> screen" where
  "tui_cleanup s =
     s\<lparr>curses_on := False, cbreak := fst (shell_mode s), echo := snd (shell_mode s), keypad := False, cursor := 1\<rparr>"

subsection \<open>Sorting\<close>

text \<open>The value of a C \<^verbatim>\<open>int\<close> expression: two's complement of 32 bits.\<close>

definition wrap32 :: "int \<Rightarrow> int" where
  "wrap32 x = (x + 2 ^ 31) mod 2 ^ 32 - 2 ^ 31"

fun strcmp :: "string \<Rightarrow> string \<Rightarrow> int" where
  "strcmp [] [] = 0"
| "strcmp [] (d # ds) = - of_char d"
| "strcmp (c # cs) [] = of_char c"
| "strcmp (c # cs) (d # ds) = (if c = d then strcmp cs ds else of_char c - of_char d)"

definition compare_procs :: "sort_mode_t \<Rightarrow> process_info_t \<Rightarrow> process_info_t \<Rightarrow> int" where
  "compare_procs mode p1 p2 =
     (case mode of
        SORT_BY_CPU \<Rightarrow>
          if p_cpu_usage_pct p2 > p_cpu_usage_pct p1 then 1
          else if p_cpu_usage_pct p2 < p_cpu_usage_pct p1 then -1 else 0
      | SORT_BY_MEM \<Rightarrow>
          if p_vm_rss_kb p2 > p_vm_rss_kb p1 then 1
          else if p_vm_rss_kb p2 < p_vm_rss_kb p1 then -1 else 0
      | SORT_BY_PID \<Rightarrow> wrap32 (p_pid p1 - p_pid p2)
      | SORT_BY_NAME \<Rightarrow> strcmp (p_comm p1) (p_comm p2))"

text \<open>The library's sorting function: it gets the comparison and the array.\<close>

type_synonym sorter = "(process_info_t \<Rightarrow> process_info_t \<Rightarrow> int) \<Rightarrow> process_info_t list \<Rightarrow> process_info_t list"

subsection \<open>Rendering\<close>

text \<open>A gauge of the given width; the conversion to \<^verbatim>\<open>int\<close> drops the fraction.\<close>

definition bar_width :: "int \<Rightarrow> nat" where
  "bar_width cols = (if cols > 60 then 30 else 15)"

definition bar_filled :: "rat \<Rightarrow> nat \<Rightarrow> int" where
  "bar_filled p width = \<lfloor>fl32 (fl32 (p / 100) * of_nat width)\<rfloor>"

definition gauge :: "rat \<Rightarrow> nat \<Rightarrow> string" where
  "gauge p width = map (\<lambda>i. if int i < bar_filled p width then CHR ''|'' else CHR '' '') [0..<width]"

definition used_mb :: "mem_metrics_t \<Rightarrow> nat" where
  "used_mb mm = (mem_total_kb mm + (2 ^ 64 - mem_available_kb mm)) mod 2 ^ 64 div 1024"

definition clamp_selection :: "int \<Rightarrow> tui_state_t \<Rightarrow> tui_state_t" where
  "clamp_selection n st =
     (if n \<le> 0 then st\<lparr>selected_index := 0, scroll_offset := 0\<rparr>
      else
        let st1 = (if selected_index st \<ge> n then st\<lparr>selected_index := n - 1\<rparr> else st)
        in if selected_index st1 < 0 then st1\<lparr>selected_index := 0\<rparr> else st1)"

definition max_rows :: "int \<Rightarrow> int" where
  "max_rows rows = (if rows - 5 - 3 < 1 then 1 else rows - 5 - 3)"

definition adjust_scroll :: "int \<Rightarrow> tui_state_t \<Rightarrow> tui_state_t" where
  "adjust_scroll mr st =
     (let st1 = (if selected_index st < scroll_offset st then st\<lparr>scroll_offset := selected_index st\<rparr>
                 else if selected_index st \<ge> wrap32 (scroll_offset st + mr)
                 then st\<lparr>scroll_offset := wrap32 (selected_index st - mr + 1)\<rparr> else st)
      in if scroll_offset st1 < 0 then st1\<lparr>scroll_offset := 0\<rparr> else st1)"

record frame =
  f_cpu_pct :: rat
  f_mem_pct :: rat
  f_cores :: int
  f_cpu_alert :: bool
  f_mem_alert :: bool
  f_cpu_bar :: string
  f_mem_bar :: string
  f_used_mb :: nat
  f_total_mb :: nat
  f_count :: nat
  f_truncated :: bool
  f_rows :: "(process_info_t \<times> bool) list"
  f_status :: "string option"

text \<open>The rows of the table: the processes from the scroll offset on, the selected one marked.\<close>

definition table_rows :: "int \<Rightarrow> process_info_t list \<Rightarrow> tui_state_t \<Rightarrow> (process_info_t \<times> bool) list" where
  "table_rows mr ps st =
     map (\<lambda>idx. (ps ! idx, int idx = selected_index st))
       (filter (\<lambda>idx. scroll_offset st \<le> int idx \<and> int idx < scroll_offset st + mr) [0..<length ps])"

definition tui_render ::
  "sorter \<Rightarrow> int \<Rightarrow> int \<Rightarrow> int \<Rightarrow> system_snapshot_t \<Rightarrow> tui_state_t \<Rightarrow> frame \<times> system_snapshot_t \<times> tui_state_t" where
  "tui_render qsort_r rows cols now sn st =
     (let w = bar_width cols;
          ps = qsort_r (compare_procs (sort_mode st)) (s_procs sn);
          sn1 = sn\<lparr>s_procs := ps\<rparr>;
          st1 = adjust_scroll (max_rows rows) (clamp_selection (int (length ps)) st)
      in (\<lparr>f_cpu_pct = total_usage_pct (s_cpu sn), f_mem_pct = mem_usage_pct (s_mem sn), f_cores = core_count (s_cpu sn),
           f_cpu_alert = (total_usage_pct (s_cpu sn) > 80), f_mem_alert = (mem_usage_pct (s_mem sn) > 80),
           f_cpu_bar = gauge (total_usage_pct (s_cpu sn)) w, f_mem_bar = gauge (mem_usage_pct (s_mem sn)) w,
           f_used_mb = used_mb (s_mem sn), f_total_mb = mem_total_kb (s_mem sn) div 1024,
           f_count = length ps, f_truncated = s_truncated sn,
           f_rows = table_rows (max_rows rows) ps st1,
           f_status = (if status_message st1 \<noteq> [] \<and> now < status_message_expiry st1
                       then Some (status_message st1) else None)\<rparr>, sn1, st1))"

subsection \<open>Input\<close>

definition ERR :: int where
  "ERR = -1"

definition KEY_DOWN :: int where
  "KEY_DOWN = 258"

definition KEY_UP :: int where
  "KEY_UP = 259"

abbreviation key :: "char \<Rightarrow> int" where
  "key c \<equiv> of_char c"

definition set_status :: "string \<Rightarrow> int \<Rightarrow> tui_state_t \<Rightarrow> tui_state_t" where
  "set_status msg expiry st = st\<lparr>status_message := take 255 msg, status_message_expiry := expiry\<rparr>"

text \<open>The answer to a pending confirmation that has not expired.\<close>

definition answer_confirm ::
  "(int \<Rightarrow> int \<Rightarrow> bool) \<Rightarrow> int \<Rightarrow> int \<Rightarrow> system_snapshot_t \<Rightarrow> tui_state_t \<Rightarrow> kill_call list \<Rightarrow> tui_state_t \<times> kill_call list" where
  "answer_confirm kill_ok now ch sn st ks =
     (let (st1, ks1) =
        (if ch = key (CHR ''y'') \<or> ch = key (CHR ''Y'') then
           let target_pid = pending_kill_pid st in
           if target_pid \<in> p_pid ` set (s_procs sn) then
             let (r, ks1) = signal_send_to_process kill_ok target_pid SIGKILL ks
             in if r = 0 then (set_status (''Successfully sent SIGKILL to PID '' @ show_int target_pid) (now + 3) st, ks1)
                else (set_status (''Failed to send SIGKILL to PID '' @ show_int target_pid) (now + 3) st, ks1)
           else (set_status (''PID '' @ show_int target_pid @ '' no longer present in snapshot'') (now + 3) st, ks)
         else (set_status ''SIGKILL cancelled'' (now + 3) st, ks))
      in (st1\<lparr>confirm_pending := False, pending_kill_pid := -1\<rparr>, ks1))"

text \<open>\<^verbatim>\<open>s\<close> and \<^verbatim>\<open>c\<close>: a signal to the selected process.\<close>

definition signal_selected ::
  "(int \<Rightarrow> int \<Rightarrow> bool) \<Rightarrow> int \<Rightarrow> int \<Rightarrow> string \<Rightarrow> system_snapshot_t \<Rightarrow> tui_state_t \<Rightarrow> kill_call list \<Rightarrow> tui_state_t \<times> kill_call list" where
  "signal_selected kill_ok now sig signame sn st ks =
     (if s_count sn > 0 \<and> selected_index st < int (s_count sn) then
        let pid = p_pid (s_procs sn ! nat (selected_index st));
            (r, ks1) = signal_send_to_process kill_ok pid sig ks
        in if r = 0 then (set_status (''Sent '' @ signame @ '' to PID '' @ show_int pid) (now + 3) st, ks1)
           else (set_status (''Failed to send '' @ signame @ '' to PID '' @ show_int pid) (now + 3) st, ks1)
      else (st, ks))"

definition press_key ::
  "(int \<Rightarrow> int \<Rightarrow> bool) \<Rightarrow> int \<Rightarrow> int \<Rightarrow> system_snapshot_t \<Rightarrow> tui_state_t \<Rightarrow> kill_call list \<Rightarrow> bool \<times> tui_state_t \<times> kill_call list" where
  "press_key kill_ok now ch sn st ks =
     (if ch = key (CHR ''q'') \<or> ch = key (CHR ''Q'') then (False, st\<lparr>is_running := False\<rparr>, ks)
      else if ch = KEY_DOWN \<or> ch = key (CHR ''j'') then
        (True, if selected_index st < int (s_count sn) - 1 then st\<lparr>selected_index := selected_index st + 1\<rparr> else st, ks)
      else if ch = KEY_UP \<or> ch = key (CHR ''k'') then
        (True, if selected_index st > 0 then st\<lparr>selected_index := selected_index st - 1\<rparr> else st, ks)
      else if ch = key (CHR ''p'') \<or> ch = key (CHR ''P'') then
        (True, set_status ''Sorting by CPU %'' (now + 3) (st\<lparr>sort_mode := SORT_BY_CPU\<rparr>), ks)
      else if ch = key (CHR ''m'') \<or> ch = key (CHR ''M'') then
        (True, set_status ''Sorting by Memory (RSS)'' (now + 3) (st\<lparr>sort_mode := SORT_BY_MEM\<rparr>), ks)
      else if ch = key (CHR ''s'') \<or> ch = key (CHR ''S'') then
        (True, signal_selected kill_ok now SIGSTOP ''SIGSTOP'' sn st ks)
      else if ch = key (CHR ''c'') \<or> ch = key (CHR ''C'') then
        (True, signal_selected kill_ok now SIGCONT ''SIGCONT'' sn st ks)
      else if ch = key (CHR ''K'') then
        if s_count sn > 0 \<and> selected_index st < int (s_count sn) then
          let pid = p_pid (s_procs sn ! nat (selected_index st))
          in (True, (set_status (''Confirm SIGKILL for PID '' @ show_int pid @ ''? (y/n)'') (now + 10)
                       (st\<lparr>pending_kill_pid := pid\<rparr>))\<lparr>confirm_pending := True\<rparr>, ks)
        else (True, st, ks)
      else (True, st, ks))"

text \<open>
  The successive readings of the clock in one call are \<open>clock 0\<close>, \<open>clock 1\<close> and so on: the test of the
  expiry is one reading, each new expiry another.
\<close>

definition tui_handle_input ::
  "(int \<Rightarrow> int \<Rightarrow> bool) \<Rightarrow> (nat \<Rightarrow> int) \<Rightarrow> int \<Rightarrow> system_snapshot_t \<Rightarrow> tui_state_t \<Rightarrow> kill_call list \<Rightarrow> bool \<times> tui_state_t \<times> kill_call list" where
  "tui_handle_input kill_ok clock ch sn st ks =
     (if ch = ERR then (True, st, ks)
      else if confirm_pending st then
        if clock 0 \<ge> status_message_expiry st then
          press_key kill_ok (clock 2) ch sn
            (set_status ''SIGKILL confirmation expired'' (clock 1 + 3) (st\<lparr>confirm_pending := False, pending_kill_pid := -1\<rparr>)) ks
        else (True, answer_confirm kill_ok (clock 1) ch sn st ks)
      else press_key kill_ok (clock 0) ch sn st ks)"

end
