(* ===== verification/Main_Program.thy ===== *)
theory Main_Program
  imports Gui_Lifecycle Tui
begin

text \<open>
  The program of \<^verbatim>\<open>src/monitor/main.c\<close>: the command line, the access token, and the loops that
  sample the system, publish the snapshot to the HTTP server and drive the terminal interface.
  What the process gets from outside in one round of a loop is a tick; the loop ends when the
  ticks do, which is when a signal clears \<^verbatim>\<open>g_running\<close>. Whether the threads of the server end when it
  is stopped, and so whether the program returns, is part of what it gets from outside.
\<close>

subsection \<open>The command line\<close>

record config =
  c_port :: int
  c_bind_host :: string
  c_auth_token :: string
  c_token_provided :: bool
  c_headless :: bool
  c_output_json :: bool

definition default_config :: config where
  "default_config = \<lparr>c_port = 8080, c_bind_host = ''127.0.0.1'', c_auth_token = [], c_token_provided = False,
     c_headless = False, c_output_json = False\<rparr>"

datatype cli_result = Cli_Exit int | Cli_Run config

fun parse_args :: "string list \<Rightarrow> config \<Rightarrow> cli_result" where
  "parse_args [] c = Cli_Run c"
| "parse_args (a # args) c =
     (if a = ''--headless'' then parse_args args (c\<lparr>c_headless := True\<rparr>)
      else if a = ''--json'' then parse_args args (c\<lparr>c_output_json := True, c_headless := True\<rparr>)
      else if a = ''--help'' \<or> a = ''-h'' then Cli_Exit 0
      else if a = ''--port'' \<or> a = ''--bind'' \<or> a = ''--host'' \<or> a = ''--token'' then
        case args of
          [] \<Rightarrow> Cli_Exit 2
        | val # rest \<Rightarrow>
            if a = ''--port'' then
              (case strtol val of
                 (n, endptr, erange) \<Rightarrow>
                   if erange \<or> endptr \<noteq> [] \<or> n \<le> 0 \<or> n > 65535 then Cli_Exit 2
                   else parse_args rest (c\<lparr>c_port := n\<rparr>))
            else if a = ''--bind'' \<or> a = ''--host'' then
              if length val \<ge> 64 then Cli_Exit 2 else parse_args rest (c\<lparr>c_bind_host := val\<rparr>)
            else
              if length val \<ge> MAX_AUTH_TOKEN_LEN then Cli_Exit 2
              else parse_args rest (c\<lparr>c_auth_token := val, c_token_provided := True\<rparr>)
      else Cli_Exit 2)"

subsection \<open>The token\<close>

text \<open>The loop over the random bytes: two digits are written while two and the terminator fit.\<close>

fun token_loop :: "nat list \<Rightarrow> nat \<Rightarrow> string \<Rightarrow> string" where
  "token_loop [] len out = out"
| "token_loop (b # bs) len out =
     (if length out + 2 < len
      then token_loop bs len (out @ [hex_chars ! (b div 16 mod 16), hex_chars ! (b mod 16)])
      else out)"

text \<open>What one \<^verbatim>\<open>read\<close> of 32 bytes from \<^verbatim>\<open>/dev/urandom\<close> returned, if it could be opened.\<close>

definition generate_random_token :: "nat list option \<Rightarrow> nat \<Rightarrow> bool \<times> string" where
  "generate_random_token urandom len =
     (case urandom of
        Some bytes \<Rightarrow> if length bytes = 32 then (True, token_loop bytes len []) else (False, [])
      | None \<Rightarrow> (False, []))"

subsection \<open>The loops\<close>

record tick =
  t_fs :: proc_fs
  t_dir :: "string list option"
  t_now :: int
  t_clock :: "nat \<Rightarrow> int"
  t_rows :: int
  t_cols :: int
  t_key :: int

fun headless_loop :: "tick list \<Rightarrow> parser_state \<Rightarrow> gui_server_t \<Rightarrow> parser_state \<times> gui_server_t" where
  "headless_loop [] ps sv = (ps, sv)"
| "headless_loop (t # ts) ps sv =
     (case proc_parser_take_snapshot (t_fs t) (t_dir t) (t_now t) ps of
        (r, sn, ps1) \<Rightarrow>
          headless_loop ts ps1 (if r \<noteq> 0 then sv else gui_server_update_snapshot (Some sn) sv))"

text \<open>The readings of the clock in one round: \<open>t_now\<close> for the sample, then those of \<open>t_clock\<close>.\<close>

record session =
  n_parser :: parser_state
  n_server :: gui_server_t
  n_tui :: tui_state_t
  n_kills :: "kill_call list"
  n_frames :: "frame list"

definition tui_round :: "sorter \<Rightarrow> (int \<Rightarrow> int \<Rightarrow> bool) \<Rightarrow> tick \<Rightarrow> session \<Rightarrow> session" where
  "tui_round qsort_r kill_ok t n =
     (case proc_parser_take_snapshot (t_fs t) (t_dir t) (t_now t) (n_parser n) of
        (r, sn, ps1) \<Rightarrow>
          if r \<noteq> 0 then n\<lparr>n_parser := ps1\<rparr>
          else
            let sv1 = gui_server_update_snapshot (Some sn) (n_server n);
                (fr, sn1, st1) = tui_render qsort_r (t_rows t) (t_cols t) (t_clock t 0) sn (n_tui n);
                (go, st2, ks2) = tui_handle_input kill_ok (\<lambda>i. t_clock t (Suc i)) (t_key t) sn1 st1 (n_kills n)
            in n\<lparr>n_parser := ps1, n_server := sv1, n_tui := st2, n_kills := ks2, n_frames := n_frames n @ [fr]\<rparr>)"

fun tui_loop :: "sorter \<Rightarrow> (int \<Rightarrow> int \<Rightarrow> bool) \<Rightarrow> tick list \<Rightarrow> session \<Rightarrow> session" where
  "tui_loop qsort_r kill_ok [] n = n"
| "tui_loop qsort_r kill_ok (t # ts) n =
     (if is_running (n_tui n) then tui_loop qsort_r kill_ok ts (tui_round qsort_r kill_ok t n) else n)"

subsection \<open>The program\<close>

record main_env =
  v_urandom :: "nat list option"
  v_sigaction_ok :: bool
  v_cores :: int
  v_stat :: proc_fs
  v_malloc_ok :: bool
  v_sample :: tick
  v_init :: init_answers
  v_start :: start_answers
  v_ticks :: "tick list"
  v_kill :: "int \<Rightarrow> int \<Rightarrow> bool"
  v_qsort :: sorter
  v_drained :: bool
  v_colors :: bool
  v_screen :: screen

definition json_report :: "system_snapshot_t \<Rightarrow> string" where
  "json_report sn =
     ''{'' @ LF @ ''  '' @ jstr ''cpu'' @ '': {'' @ jstr ''total_usage_pct'' @ '': '' @ show_2f (total_usage_pct (s_cpu sn)) @ '', '' @
       jstr ''core_count'' @ '': '' @ show_int (core_count (s_cpu sn)) @ ''},'' @ LF @
     ''  '' @ jstr ''mem'' @ '': {'' @ jstr ''mem_total_kb'' @ '': '' @ show_nat (mem_total_kb (s_mem sn)) @ '', '' @
       jstr ''mem_available_kb'' @ '': '' @ show_nat (mem_available_kb (s_mem sn)) @ '', '' @
       jstr ''mem_usage_pct'' @ '': '' @ show_2f (mem_usage_pct (s_mem sn)) @ ''},'' @ LF @
     ''  '' @ jstr ''process_count'' @ '': '' @ show_nat (s_count sn) @ LF @ ''}'' @ LF"

text \<open>How the program ended: whether \<^verbatim>\<open>main\<close> returns and with which exit status, the text printed, the
  server if one was initialised, the signals sent from the terminal, and the screen.\<close>

record run_result =
  r_returned :: bool
  r_exit :: int
  r_output :: string
  r_server :: "gui_server_t option"
  r_kills :: "kill_call list"
  r_screen :: screen

abbreviation exits :: "main_env \<Rightarrow> int \<Rightarrow> run_result" where
  "exits v n \<equiv> \<lparr>r_returned = True, r_exit = n, r_output = [], r_server = None, r_kills = [], r_screen = v_screen v\<rparr>"

text \<open>The call of \<^verbatim>\<open>gui_server_stop\<close> on the way to the result \<open>r\<close>.\<close>

definition stop_server :: "main_env \<Rightarrow> gui_server_t \<Rightarrow> run_result \<Rightarrow> run_result" where
  "stop_server v sv r =
     (case gui_server_stop (v_drained v) sv of (ret, sv') \<Rightarrow> r\<lparr>r_server := Some sv', r_returned := ret\<rparr>)"

definition run_server :: "main_env \<Rightarrow> config \<Rightarrow> parser_state \<Rightarrow> gui_server_t \<Rightarrow> run_result" where
  "run_server v c ps sv =
     (if c_headless c then
        let (_, sv1) = headless_loop (v_ticks v) ps sv
        in stop_server v sv1 (exits v 0)
      else
        let (r, scr) = tui_init (v_colors v) (v_screen v) in
        if r \<noteq> 0 then stop_server v sv ((exits v 1)\<lparr>r_screen := scr\<rparr>)
        else
        let n = tui_loop (v_qsort v) (v_kill v) (v_ticks v)
                  \<lparr>n_parser = ps, n_server = sv, n_tui = tui_initial, n_kills = [], n_frames = []\<rparr>
        in stop_server v (n_server n) ((exits v 0)\<lparr>r_kills := n_kills n, r_screen := tui_cleanup scr\<rparr>))"

definition run_config :: "main_env \<Rightarrow> config \<Rightarrow> run_result" where
  "run_config v c =
     (if \<not> v_sigaction_ok v then exits v 1
      else
        case proc_parser_init (v_stat v) (v_cores v) parser_boot of
          (r, ps) \<Rightarrow>
            if r \<noteq> 0 then exits v 1
            else if \<not> v_malloc_ok v then exits v 1
            else if c_output_json c then
              (case proc_parser_take_snapshot (t_fs (v_sample v)) (t_dir (v_sample v)) (t_now (v_sample v)) ps of
                 (r1, sn, ps1) \<Rightarrow> if r1 \<noteq> 0 then exits v 1 else (exits v 0)\<lparr>r_output := json_report sn\<rparr>)
            else
              (case gui_server_init (v_init v) (Some (c_bind_host c)) (c_port c) (Some (c_auth_token c)) zero_server of
                 (r2, sv) \<Rightarrow>
                   if r2 \<noteq> 0 then exits v 1
                   else
                     (case gui_server_start (v_start v) sv of
                        (r3, sv1) \<Rightarrow> if r3 \<noteq> 0 then stop_server v sv1 (exits v 1) else run_server v c ps sv1)))"

definition choose_token :: "main_env \<Rightarrow> config \<Rightarrow> config option" where
  "choose_token v c =
     (if \<not> c_token_provided c \<or> length (c_auth_token c) = 0 then
        case generate_random_token (v_urandom v) MAX_AUTH_TOKEN_LEN of
          (ok, tok) \<Rightarrow> if ok then Some (c\<lparr>c_auth_token := tok\<rparr>) else None
      else Some c)"

definition main_program :: "main_env \<Rightarrow> string list \<Rightarrow> run_result" where
  "main_program v args =
     (case parse_args args default_config of
        Cli_Exit n \<Rightarrow> exits v n
      | Cli_Run c \<Rightarrow> (case choose_token v c of None \<Rightarrow> exits v 1 | Some c1 \<Rightarrow> run_config v c1))"

end
