(* ===== verification/Main_Facts.thy ===== *)
theory Main_Facts
  imports Main_Program Proc_Types
begin

text \<open>
  Facts about the main program: the configuration that a command line gives, the generated token,
  what the loops keep of the server, and the snapshot that is published last.
\<close>

subsection \<open>Configuration\<close>

definition good_config :: "string list \<Rightarrow> config \<Rightarrow> bool" where
  "good_config args c \<longleftrightarrow> 0 < c_port c \<and> c_port c \<le> 65535 \<and> length (c_auth_token c) < MAX_AUTH_TOKEN_LEN \<and>
     length (c_bind_host c) < 64 \<and> (c_token_provided c \<longrightarrow> c_auth_token c \<in> set args)"

text \<open>What one option does to the configuration.\<close>

definition set_flag :: "config \<Rightarrow> config \<Rightarrow> bool" where
  "set_flag c c1 \<longleftrightarrow> c1 = c\<lparr>c_headless := True\<rparr> \<or> c1 = c\<lparr>c_output_json := True, c_headless := True\<rparr>"

definition set_value :: "string \<Rightarrow> config \<Rightarrow> config \<Rightarrow> bool" where
  "set_value val c c1 \<longleftrightarrow> (\<exists>n. 0 < n \<and> n \<le> 65535 \<and> c1 = c\<lparr>c_port := n\<rparr>) \<or>
     length val < 64 \<and> c1 = c\<lparr>c_bind_host := val\<rparr> \<or>
     length val < MAX_AUTH_TOKEN_LEN \<and> c1 = c\<lparr>c_auth_token := val, c_token_provided := True\<rparr>"

lemma parse_args_value:
  assumes "a = ''--port'' \<or> a = ''--bind'' \<or> a = ''--host'' \<or> a = ''--token''"
  shows "parse_args (a # val # rest) c = Cli_Exit 2 \<or>
    (\<exists>c1. set_value val c c1 \<and> parse_args (a # val # rest) c = parse_args rest c1)"
proof -
  consider (p) "a = ''--port''" | (b) "a = ''--bind'' \<or> a = ''--host''" | (t) "a = ''--token''" using assms by blast
  then show ?thesis
  proof cases
    case p
    obtain n e x where "strtol val = (n, e, x)" by (metis prod_cases3)
    with p show ?thesis by (simp add: set_value_def) (metis linorder_not_le)
  next
    case b
    then have "parse_args (a # val # rest) c = (if length val \<ge> 64 then Cli_Exit 2 else parse_args rest (c\<lparr>c_bind_host := val\<rparr>))"
      by (elim disjE) simp_all
    then show ?thesis by (simp add: set_value_def) (metis linorder_not_le)
  next
    case t
    then show ?thesis by (simp add: set_value_def) (metis linorder_not_le)
  qed
qed

lemma parse_args_step:
  obtains (exit) n where "n = 0 \<or> n = 2" "parse_args (a # as) c = Cli_Exit n"
  | (flag) c1 where "set_flag c c1" "parse_args (a # as) c = parse_args as c1"
  | (val) v rest c1 where "as = v # rest" "set_value v c c1" "parse_args (a # as) c = parse_args rest c1"
proof (cases "a = ''--port'' \<or> a = ''--bind'' \<or> a = ''--host'' \<or> a = ''--token''")
  case True
  show ?thesis
  proof (cases as)
    case Nil
    have "parse_args (a # as) c = Cli_Exit 2" unfolding Nil using True by (elim disjE) simp_all
    then show ?thesis using exit by blast
  next
    case (Cons v rest)
    then show ?thesis using parse_args_value [OF True, of v rest c] exit val by blast
  qed
next
  case no_value: False
  show ?thesis
  proof (cases "a = ''--headless'' \<or> a = ''--json''")
    case True
    then show ?thesis
    proof
      assume "a = ''--headless''"
      then show ?thesis using flag [of "c\<lparr>c_headless := True\<rparr>"] by (simp add: set_flag_def)
    next
      assume "a = ''--json''"
      then show ?thesis using flag [of "c\<lparr>c_output_json := True, c_headless := True\<rparr>"] by (simp add: set_flag_def)
    qed
  next
    case False
    then have "parse_args (a # as) c = Cli_Exit (if a = ''--help'' \<or> a = ''-h'' then 0 else 2)"
      using no_value by simp
    then show ?thesis using exit [of "if a = ''--help'' \<or> a = ''-h'' then 0 else 2"] by presburger
  qed
qed

lemma set_config_good:
  "set_flag c c1 \<Longrightarrow> good_config args c \<Longrightarrow> good_config args c1"
  "set_value v c c1 \<Longrightarrow> good_config args c \<Longrightarrow> v \<in> set args \<Longrightarrow> good_config args c1"
  by (auto simp: set_flag_def set_value_def good_config_def)

lemma parse_args_good:
  "parse_args as c = Cli_Run c' \<Longrightarrow> good_config args c \<Longrightarrow> set as \<subseteq> set args \<Longrightarrow> good_config args c'"
proof (induction "length as" arbitrary: as c rule: less_induct)
  case less
  show ?case
  proof (cases as)
    case Nil
    then show ?thesis using less.prems by simp
  next
    case (Cons a bs)
    show ?thesis
    proof (cases rule: parse_args_step [where a = a and as = bs and c = c])
      case (exit n)
      then show ?thesis using less.prems(1) Cons by simp
    next
      case (flag c1)
      show ?thesis by (rule less.hyps [of bs c1]) (use Cons flag less.prems set_config_good(1) in auto)
    next
      case (val v rest c1)
      show ?thesis by (rule less.hyps [of rest c1]) (use Cons val less.prems set_config_good(2) in auto)
    qed
  qed
qed

lemma parse_args_exit: "parse_args as c = Cli_Exit n \<Longrightarrow> n = 0 \<or> n = 2"
proof (induction "length as" arbitrary: as c rule: less_induct)
  case less
  show ?case
  proof (cases as)
    case Nil
    then show ?thesis using less.prems by simp
  next
    case (Cons a bs)
    show ?thesis
    proof (cases rule: parse_args_step [where a = a and as = bs and c = c])
      case (exit m)
      then show ?thesis using less.prems Cons by simp
    next
      case (flag c1)
      show ?thesis by (rule less.hyps [of bs c1]) (use Cons flag less.prems in auto)
    next
      case (val v rest c1)
      show ?thesis by (rule less.hyps [of rest c1]) (use Cons val less.prems in auto)
    qed
  qed
qed

text \<open>The token: two hexadecimal digits for each byte.\<close>

lemma token_loop_digits:
  "length out + 2 * length bs < len \<Longrightarrow> list_all (\<lambda>b. b < 256) bs \<Longrightarrow> set out \<subseteq> set hex_chars \<Longrightarrow>
     length (token_loop bs len out) = length out + 2 * length bs \<and> set (token_loop bs len out) \<subseteq> set hex_chars"
proof (induction bs len out rule: token_loop.induct)
  case (2 b bs len out)
  have "length hex_chars = 16" by (simp add: hex_chars_def)
  then have "hex_chars ! (b div 16 mod 16) \<in> set hex_chars" "hex_chars ! (b mod 16) \<in> set hex_chars"
    by (metis mod_less_divisor nth_mem zero_less_numeral)+
  with 2 show ?case by auto
qed simp

definition hex_token :: "string \<Rightarrow> bool" where
  "hex_token t \<longleftrightarrow> length t = 64 \<and> set t \<subseteq> set hex_chars"

lemma generated_token:
  "generate_random_token (Some bytes) MAX_AUTH_TOKEN_LEN = (True, t) \<Longrightarrow> list_all (\<lambda>b. b < 256) bytes \<Longrightarrow> hex_token t"
  using token_loop_digits [of "[]" bytes MAX_AUTH_TOKEN_LEN]
  by (auto simp: generate_random_token_def hex_token_def MAX_AUTH_TOKEN_LEN_def split: if_splits)

abbreviation good_bytes :: "main_env \<Rightarrow> bool" where
  "good_bytes v \<equiv> (case v_urandom v of Some bytes \<Rightarrow> list_all (\<lambda>b. b < 256) bytes | None \<Rightarrow> True)"

definition token_ok :: "string list \<Rightarrow> string \<Rightarrow> bool" where
  "token_ok args t \<longleftrightarrow> t \<noteq> [] \<and> length t < MAX_AUTH_TOKEN_LEN \<and> (t \<in> set args \<or> hex_token t)"

lemma choose_token_good:
  assumes "choose_token v c = Some c1" "good_config args c" "good_bytes v"
  shows "token_ok args (c_auth_token c1)" "c_port c1 = c_port c" "c_bind_host c1 = c_bind_host c"
proof -
  have h: "t \<noteq> [] \<and> length t < MAX_AUTH_TOKEN_LEN" if "hex_token t" for t
    using that by (auto simp: hex_token_def MAX_AUTH_TOKEN_LEN_def)
  have "token_ok args (c_auth_token c1) \<and> c_port c1 = c_port c \<and> c_bind_host c1 = c_bind_host c"
  proof (cases "\<not> c_token_provided c \<or> length (c_auth_token c) = 0")
    case True
    then obtain t where t: "generate_random_token (v_urandom v) MAX_AUTH_TOKEN_LEN = (True, t)" "c1 = c\<lparr>c_auth_token := t\<rparr>"
      using assms(1) by (auto simp: choose_token_def split: prod.splits if_splits)
    then obtain bytes where b: "v_urandom v = Some bytes" by (auto simp: generate_random_token_def split: option.splits)
    then have "hex_token t" using generated_token t(1) assms(3) by auto
    then show ?thesis using t(2) h [of t] by (simp add: token_ok_def)
  next
    case False
    then show ?thesis using assms(1,2) by (auto simp: choose_token_def token_ok_def good_config_def)
  qed
  then show "token_ok args (c_auth_token c1)" "c_port c1 = c_port c" "c_bind_host c1 = c_bind_host c" by auto
qed

subsection \<open>The loops\<close>

lemma headless_loop_frame: "server_frame (snd (headless_loop ts ps sv)) = server_frame sv"
  by (induction ts ps sv rule: headless_loop.induct) (auto split: prod.splits)

lemma tui_round_frame: "server_frame (n_server (tui_round q ko t n)) = server_frame (n_server n)"
  by (auto simp: tui_round_def Let_def split: prod.splits)

lemma tui_loop_frame: "server_frame (n_server (tui_loop q ko ts n)) = server_frame (n_server n)"
  by (induction ts arbitrary: n) (simp_all add: tui_round_frame)

lemma server_frame_eq:
  assumes "server_frame a = server_frame b"
  shows "auth_token a = auth_token b" "port a = port b" "server_running a = server_running b"
proof -
  have "auth_token (server_frame a) = auth_token (server_frame b)" "port (server_frame a) = port (server_frame b)"
    "server_running (server_frame a) = server_running (server_frame b)" using assms by simp_all
  then show "auth_token a = auth_token b" "port a = port b" "server_running a = server_running b"
    by (simp_all add: server_frame_def)
qed

text \<open>The server as the main program leaves it, or as it is while the program waits for its threads.\<close>

definition left_server :: "string list \<Rightarrow> bool \<Rightarrow> gui_server_t \<Rightarrow> bool" where
  "left_server args ret s \<longleftrightarrow> token_ok args (auth_token s) \<and> 0 < port s \<and> port s \<le> 65535 \<and> \<not> server_running s \<and>
     (ret \<longrightarrow> \<not> initialized s \<and> latest_snapshot s = None)"

lemma gui_server_init_fields:
  assumes "gui_server_init a (Some h) prt (Some t) zero_server = (0, sv)"
  shows "auth_token sv = t" "port sv = prt" "0 < prt" "prt \<le> 65535" "\<not> server_running sv" "initialized sv"
    "latest_snapshot sv = Some zero_snapshot"
  using assms by (auto simp: gui_server_init_def Let_def zero_server_def split: if_splits)

lemma gui_server_start_fields:
  assumes "gui_server_start a sv = (r, sv')" "initialized sv" "\<not> server_running sv"
  shows "auth_token sv' = auth_token sv" "port sv' = port sv" "initialized sv'" "server_running sv' \<longleftrightarrow> r = 0"
  using assms by (auto simp: gui_server_start_def Let_def split: if_splits)

definition good_result :: "string list \<Rightarrow> main_env \<Rightarrow> run_result \<Rightarrow> bool" where
  "good_result args v r \<longleftrightarrow>
     (case r_server r of Some s \<Rightarrow> left_server args (r_returned r) s | None \<Rightarrow> r_returned r) \<and>
     (v_drained v \<longrightarrow> r_returned r) \<and> r_exit r \<in> {0, 1, 2} \<and>
     cbreak (r_screen r) = cbreak (v_screen v) \<and> echo (r_screen r) = echo (v_screen v) \<and>
     (r_screen r = v_screen v \<or> \<not> curses_on (r_screen r) \<and> \<not> keypad (r_screen r) \<and> cursor (r_screen r) = 1)"

lemma stop_server_good:
  assumes "server_frame sv = server_frame s0" "token_ok args (auth_token s0)" "0 < port s0" "port s0 \<le> 65535" "initialized s0"
    and r: "good_result args v r"
  shows "good_result args v (stop_server v sv r)"
proof -
  have "initialized (server_frame sv) = initialized (server_frame s0)" using assms(1) by simp
  then have "initialized sv" using assms(5) by (simp add: server_frame_def)
  then show ?thesis using assms(2-4) r server_frame_eq [OF assms(1)]
    by (simp add: good_result_def stop_server_def left_server_def gui_server_stop_def stop_end_def stop_running_def Let_def)
qed

lemma exits_good: "n \<in> {0, 1, 2} \<Longrightarrow> good_result args v (exits v n)"
  by (auto simp: good_result_def)

lemma run_server_good:
  assumes "token_ok args (auth_token sv)" "0 < port sv" "port sv \<le> 65535" "initialized sv"
  shows "good_result args v (run_server v c ps sv)"
proof -
  note G = stop_server_good [OF _ assms]
  have h: "good_result args v (stop_server v (snd (headless_loop (v_ticks v) ps sv)) (exits v 0))"
    by (rule G [OF headless_loop_frame exits_good]) simp
  let ?n = "\<lparr>n_parser = ps, n_server = sv, n_tui = tui_initial, n_kills = [], n_frames = []\<rparr>"
  let ?m = "tui_loop (v_qsort v) (v_kill v) (v_ticks v) ?n"
  have "server_frame (n_server ?m) = server_frame sv" using tui_loop_frame [of _ _ _ ?n] by simp
  moreover have "good_result args v ((exits v 0)\<lparr>r_kills := n_kills ?m,
      r_screen := tui_cleanup (snd (tui_init (v_colors v) (v_screen v)))\<rparr>)"
    by (simp add: good_result_def tui_init_def tui_cleanup_def Let_def)
  ultimately have "good_result args v (stop_server v (n_server ?m) ((exits v 0)\<lparr>r_kills := n_kills ?m,
      r_screen := tui_cleanup (snd (tui_init (v_colors v) (v_screen v)))\<rparr>))" by (rule G)
  with h show ?thesis by (auto simp: run_server_def Let_def tui_init_def split: prod.splits)
qed

lemma start_and_run_good:
  assumes "gui_server_init a (Some h) prt (Some t) zero_server = (0, sv)" "token_ok args t"
    "gui_server_start b sv = (r3, sv1)"
  shows "good_result args v (if r3 \<noteq> 0 then stop_server v sv1 (exits v 1) else run_server v c ps sv1)"
proof -
  note I = gui_server_init_fields [OF assms(1)]
  note S = gui_server_start_fields [OF assms(3) I(6,5)]
  have f: "token_ok args (auth_token sv1)" "0 < port sv1" "port sv1 \<le> 65535" "initialized sv1" using I S assms(2) by simp_all
  show ?thesis using stop_server_good [OF refl f exits_good] run_server_good [OF f] by auto
qed

lemma run_config_good:
  assumes "token_ok args (c_auth_token c)" shows "good_result args v (run_config v c)"
proof (cases "v_sigaction_ok v")
  case True
  obtain r ps where i: "proc_parser_init (v_stat v) (v_cores v) parser_boot = (r, ps)" by fastforce
  obtain r1 sn ps1 where t: "proc_parser_take_snapshot (t_fs (v_sample v)) (t_dir (v_sample v)) (t_now (v_sample v)) ps = (r1, sn, ps1)"
    by (metis prod_cases3)
  obtain r2 sv where n: "gui_server_init (v_init v) (Some (c_bind_host c)) (c_port c) (Some (c_auth_token c)) zero_server = (r2, sv)"
    by fastforce
  obtain r3 sv1 where b: "gui_server_start (v_start v) sv = (r3, sv1)" by fastforce
  have j: "good_result args v ((exits v 0)\<lparr>r_output := json_report sn\<rparr>)" by (simp add: good_result_def)
  show ?thesis
  proof (cases "r = 0 \<and> v_malloc_ok v \<and> \<not> c_output_json c \<and> r2 = 0")
    case False
    then show ?thesis using True j exits_good [of 1] by (auto simp: run_config_def i t n)
  next
    case run: True
    then have "good_result args v (if r3 \<noteq> 0 then stop_server v sv1 (exits v 1) else run_server v c ps sv1)"
      using start_and_run_good [OF _ assms b] n by simp
    then show ?thesis using True run by (simp add: run_config_def i n b)
  qed
qed (simp add: run_config_def exits_good)

lemma main_program_good:
  assumes "good_bytes v" shows "good_result args v (main_program v args)"
proof (cases "parse_args args default_config")
  case (Cli_Exit n)
  then show ?thesis using parse_args_exit [OF Cli_Exit] exits_good by (auto simp: main_program_def)
next
  case (Cli_Run c)
  have "good_config args default_config" by (simp add: good_config_def default_config_def MAX_AUTH_TOKEN_LEN_def)
  then have g: "good_config args c" using parse_args_good [OF Cli_Run] by simp
  show ?thesis
  proof (cases "choose_token v c")
    case None
    then show ?thesis using Cli_Run exits_good by (simp add: main_program_def)
  next
    case (Some c1)
    then show ?thesis using Cli_Run run_config_good [OF choose_token_good(1) [OF Some g assms]] by (simp add: main_program_def)
  qed
qed

subsection \<open>Sampling and publishing\<close>

lemma headless_loop_typed: "headless_loop ts ps sv = (ps', sv') \<Longrightarrow> typed_parser ps \<Longrightarrow> typed_parser ps'"
proof (induction ts ps sv rule: headless_loop.induct)
  case (2 t ts ps sv)
  obtain r sn ps1 where s: "proc_parser_take_snapshot (t_fs t) (t_dir t) (t_now t) ps = (r, sn, ps1)" by (metis prod_cases3)
  with 2 take_snapshot_typed(1) [OF s] show ?case by simp
qed simp

lemma headless_loop_snapshot: "headless_loop ts ps sv = (ps', sv') \<Longrightarrow> latest_snapshot sv \<noteq> None \<Longrightarrow> latest_snapshot sv' \<noteq> None"
  by (induction ts ps sv rule: headless_loop.induct)
    (auto simp: gui_server_update_snapshot_def split: prod.splits if_splits)

lemma headless_loop_append:
  "headless_loop (ts @ us) ps sv = (let (ps', sv') = headless_loop ts ps sv in headless_loop us ps' sv')"
  by (induction ts ps sv rule: headless_loop.induct) (auto split: prod.split)

text \<open>After a successful sample the server holds exactly it.\<close>

lemma headless_loop_publishes:
  assumes "headless_loop ts ps sv = (ps1, sv1)" "latest_snapshot sv \<noteq> None"
    "proc_parser_take_snapshot (t_fs t) (t_dir t) (t_now t) ps1 = (0, sn, ps2)"
  shows "latest_snapshot (snd (headless_loop (ts @ [t]) ps sv)) = Some sn"
  using assms headless_loop_snapshot [OF assms(1,2)]
  by (auto simp: headless_loop_append gui_server_update_snapshot_def)

end
