(* ===== verification/Tui_Facts.thy ===== *)
theory Tui_Facts
  imports Tui Machines "HOL-Library.Multiset" "HOL-Library.List_Lexorder"
begin

text \<open>
  Facts about the terminal interface: the comparison is one that \<^verbatim>\<open>qsort_r\<close> accepts, the selection is
  always visible after rendering, and a process is killed only after a confirmation for it.
\<close>

subsection \<open>Sorting\<close>

text \<open>
  What the documentation of \<^verbatim>\<open>qsort_r\<close> asks of a comparison on the elements of an array, and what it
  promises in return: the array is permuted into ascending order.
\<close>

definition consistent :: "('a \<Rightarrow> 'a \<Rightarrow> int) \<Rightarrow> 'a set \<Rightarrow> bool" where
  "consistent cmp A \<longleftrightarrow> (\<forall>x\<in>A. \<forall>y\<in>A. sgn (cmp y x) = - sgn (cmp x y)) \<and>
     (\<forall>x\<in>A. \<forall>y\<in>A. \<forall>z\<in>A. cmp x y \<le> 0 \<longrightarrow> cmp y z \<le> 0 \<longrightarrow> cmp x z \<le> 0)"

definition sorts :: "(('a \<Rightarrow> 'a \<Rightarrow> int) \<Rightarrow> 'a list \<Rightarrow> 'a list) \<Rightarrow> bool" where
  "sorts q \<longleftrightarrow> (\<forall>cmp xs. consistent cmp (set xs) \<longrightarrow>
     mset (q cmp xs) = mset xs \<and> sorted_wrt (\<lambda>a b. cmp a b \<le> 0) (q cmp xs))"

text \<open>A comparison function that is consistent on the acceptable elements, and any sorter at work on it.\<close>

locale comparator =
  fixes cmp :: "'a \<Rightarrow> 'a \<Rightarrow> int" and ok :: "'a \<Rightarrow> bool"
  assumes anti: "ok x \<Longrightarrow> ok y \<Longrightarrow> sgn (cmp y x) = - sgn (cmp x y)"
    and trans: "ok x \<Longrightarrow> ok y \<Longrightarrow> ok z \<Longrightarrow> cmp x y \<le> 0 \<Longrightarrow> cmp y z \<le> 0 \<Longrightarrow> cmp x z \<le> 0"
begin

lemma total: "ok x \<Longrightarrow> ok y \<Longrightarrow> cmp x y \<le> 0 \<or> cmp y x \<le> 0"
  using anti [of x y] by (auto simp: sgn_if split: if_splits)

lemma sorter_works:
  assumes "sorts q" "\<forall>x\<in>set xs. ok x"
  shows "mset (q cmp xs) = mset xs" "sorted_wrt (\<lambda>a b. cmp a b \<le> 0) (q cmp xs)"
proof -
  have "consistent cmp (set xs)" using assms(2) anti trans unfolding consistent_def by blast
  then show "mset (q cmp xs) = mset xs" "sorted_wrt (\<lambda>a b. cmp a b \<le> 0) (q cmp xs)"
    using assms(1) by (simp_all add: sorts_def)
qed

end

text \<open>Such a function exists: sorting by insertion.\<close>

fun insert_by :: "('a \<Rightarrow> 'a \<Rightarrow> int) \<Rightarrow> 'a \<Rightarrow> 'a list \<Rightarrow> 'a list" where
  "insert_by cmp x [] = [x]"
| "insert_by cmp x (y # ys) = (if cmp x y \<le> 0 then x # y # ys else y # insert_by cmp x ys)"

definition insertion_sort :: "('a \<Rightarrow> 'a \<Rightarrow> int) \<Rightarrow> 'a list \<Rightarrow> 'a list" where
  "insertion_sort cmp xs = foldr (insert_by cmp) xs []"

lemma mset_insert_by: "mset (insert_by cmp x ys) = add_mset x (mset ys)"
  by (induction ys) auto

lemma set_insert_by: "set (insert_by cmp x ys) = insert x (set ys)"
  by (metis mset_insert_by set_mset_add_mset_insert set_mset_mset)

lemma mset_insertion_sort: "mset (insertion_sort cmp xs) = mset xs"
  unfolding insertion_sort_def by (induction xs) (simp_all add: mset_insert_by)

context comparator
begin

lemma sorted_insert_by:
  "ok x \<Longrightarrow> \<forall>y\<in>set ys. ok y \<Longrightarrow> sorted_wrt (\<lambda>a b. cmp a b \<le> 0) ys \<Longrightarrow> sorted_wrt (\<lambda>a b. cmp a b \<le> 0) (insert_by cmp x ys)"
proof (induction ys)
  case (Cons y ys)
  show ?case
  proof (cases "cmp x y \<le> 0")
    case True
    have "cmp x z \<le> 0" if "z \<in> set ys" for z
      using trans [of x y z] True Cons.prems that by simp
    with True Cons.prems show ?thesis by simp
  next
    case False
    then have "cmp y x \<le> 0" using total Cons.prems by auto
    then show ?thesis using Cons False by (auto simp: set_insert_by)
  qed
qed simp

lemma sorted_insertion_sort:
  "\<forall>x\<in>set xs. ok x \<Longrightarrow> sorted_wrt (\<lambda>a b. cmp a b \<le> 0) (insertion_sort cmp xs)"
proof (induction xs)
  case (Cons x xs)
  have "set (insertion_sort cmp xs) = set xs" by (metis mset_insertion_sort set_mset_mset)
  with Cons show ?case by (simp add: insertion_sort_def sorted_insert_by)
qed (simp add: insertion_sort_def)

end

lemma insertion_sort_sorts: "sorts insertion_sort"
proof -
  have "sorted_wrt (\<lambda>a b. cmp a b \<le> 0) (insertion_sort cmp xs)" if "consistent cmp (set xs)"
    for cmp :: "'a \<Rightarrow> 'a \<Rightarrow> int" and xs
  proof -
    have "comparator cmp (\<lambda>x. x \<in> set xs)" unfolding comparator_def using that unfolding consistent_def by blast
    then show ?thesis by (rule comparator.sorted_insertion_sort) simp
  qed
  then show ?thesis by (auto simp: sorts_def mset_insertion_sort)
qed

text \<open>On strings without zero bytes \<^verbatim>\<open>strcmp\<close> is the lexicographic order of the bytes.\<close>

lemma strcmp_le:
  "NUL \<notin> set a \<Longrightarrow> NUL \<notin> set b \<Longrightarrow>
     strcmp a b \<le> 0 \<longleftrightarrow> (map of_char a :: nat list) \<le> map of_char b"
proof (induction a b rule: strcmp.induct)
  case (3 c cs)
  have "(of_char c :: nat) \<noteq> 0" 
  proof
    have z: "char_of (0::nat) = NUL" by (simp add: NUL_def char_of_def)
    assume "(of_char c :: nat) = 0"
    then have "c = NUL" using char_of_char [of c] z by metis
    then show False using 3 by simp
  qed
  moreover have "(of_char c :: int) = int (of_char c)" by (simp add: of_nat_of_char)
  ultimately show ?case by simp
next
  case (4 c cs d ds)
  have i: "(of_char x :: int) = int (of_char x)" for x by (simp add: of_nat_of_char)
  show ?case
  proof (cases "c = d")
    case True
    with 4 show ?thesis by simp
  next
    case False
    then have "(of_char c :: nat) \<noteq> of_char d" by simp
    then show ?thesis using False by (auto simp: i le_less)
  qed
next
  case (2 d ds)
  have "(of_char d :: int) = int (of_char d)" by (simp add: of_nat_of_char)
  then show ?case by simp
qed simp

lemma strcmp_swap: "strcmp b a = - strcmp a b"
  by (induction a b rule: strcmp.induct) auto

lemma wrap32_id: "- (2 ^ 31) \<le> x \<Longrightarrow> x < 2 ^ 31 \<Longrightarrow> wrap32 x = x"
  by (simp add: wrap32_def)

text \<open>The processes on which the comparison orders: no zero byte in the name, a process number that the
  kernel can give. The difference of two such numbers does not wrap.\<close>

definition sortable :: "process_info_t \<Rightarrow> bool" where
  "sortable pr \<longleftrightarrow> NUL \<notin> set (p_comm pr) \<and> 0 \<le> p_pid pr \<and> p_pid pr < 2 ^ 31"

lemma pid_difference:
  "sortable x \<Longrightarrow> sortable y \<Longrightarrow> compare_procs SORT_BY_PID x y = p_pid x - p_pid y"
  by (simp add: compare_procs_def sortable_def wrap32_id)

interpretation procs: comparator "compare_procs mode" sortable for mode
proof (unfold_locales, goal_cases)
  case (1 x y)
  then show ?case
    by (cases mode) (auto simp: pid_difference strcmp_swap [of "p_comm y" "p_comm x"] sgn_minus, auto simp: compare_procs_def sgn_if strcmp_swap [of "p_comm y" "p_comm x"])
next
  case (2 x y z)
  then show ?case
    by (cases mode) (auto simp: pid_difference, auto simp: compare_procs_def strcmp_le sortable_def split: if_splits)
qed

subsection \<open>The selection\<close>

lemma clamp_selection_range:
  "0 < n \<Longrightarrow> 0 \<le> selected_index (clamp_selection n st) \<and> selected_index (clamp_selection n st) < n"
  by (auto simp: clamp_selection_def Let_def)

text \<open>With the terminal's rows and the scroll offset in their ranges no sum wraps.\<close>

lemma adjust_scroll_visible:
  assumes "0 \<le> selected_index st" "0 < mr" "selected_index st < 2 ^ 30" "mr < 2 ^ 30"
    "0 \<le> scroll_offset st" "scroll_offset st < 2 ^ 30"
  shows "selected_index (adjust_scroll mr st) = selected_index st"
    "0 \<le> scroll_offset (adjust_scroll mr st)" "scroll_offset (adjust_scroll mr st) \<le> selected_index st"
    "selected_index st < scroll_offset (adjust_scroll mr st) + mr"
  using assms by (auto simp: adjust_scroll_def Let_def wrap32_id)

lemma max_rows_pos: "0 < max_rows rows" "rows < n \<Longrightarrow> 1 < n \<Longrightarrow> max_rows rows < n"
  by (simp_all add: max_rows_def)

lemma selected_row_only:
  assumes "0 \<le> selected_index st" "selected_index st < int (length ps)"
    "scroll_offset st \<le> selected_index st" "selected_index st < scroll_offset st + mr"
  shows "filter snd (table_rows mr ps st) = [(ps ! nat (selected_index st), True)]"
proof -
  let ?i = "nat (selected_index st)"
  have *: "filter (\<lambda>idx. int idx = selected_index st) [0..<n] = (if ?i < n then [?i] else [])" for n
    using assms(1) by (induction n) auto
  have "filter snd (table_rows mr ps st) =
      map (\<lambda>idx. (ps ! idx, int idx = selected_index st)) (filter (\<lambda>idx. int idx = selected_index st)
        (filter (\<lambda>idx. scroll_offset st \<le> int idx \<and> int idx < scroll_offset st + mr) [0..<length ps]))"
    by (simp add: table_rows_def filter_map comp_def)
  also have "filter (\<lambda>idx. int idx = selected_index st)
        (filter (\<lambda>idx. scroll_offset st \<le> int idx \<and> int idx < scroll_offset st + mr) [0..<length ps]) =
      filter (\<lambda>idx. int idx = selected_index st) [0..<length ps]"
    unfolding filter_filter using assms(3,4) by (intro filter_cong) auto
  also have "\<dots> = [?i]" using assms(1,2) by (simp add: *)
  finally show ?thesis using assms(1) by simp
qed

lemma length_table_rows: "int (length (table_rows mr ps st)) \<le> max 0 mr"
proof -
  let ?f = "filter (\<lambda>idx. scroll_offset st \<le> int idx \<and> int idx < scroll_offset st + mr) [0..<length ps]"
  have "int ` set ?f \<subseteq> {scroll_offset st..<scroll_offset st + mr}" by auto
  then have "card (int ` set ?f) \<le> card {scroll_offset st..<scroll_offset st + mr}" by (intro card_mono) auto
  moreover have "card (int ` set ?f) = card (set ?f)" by (rule card_image) simp
  moreover have "card (set ?f) = length ?f" by (rule distinct_card) simp
  ultimately show ?thesis by (simp add: table_rows_def)
qed

text \<open>The used memory is an unsigned difference: it wraps when more is available than there is.\<close>

lemma used_mb_wraps:
  assumes "mem_total_kb mm < mem_available_kb mm" "mem_available_kb mm < 2 ^ 63"
  shows "2 ^ 53 \<le> used_mb mm"
proof -
  have "mem_total_kb mm + (2 ^ 64 - mem_available_kb mm) < 2 ^ 64" "2 ^ 63 \<le> mem_total_kb mm + (2 ^ 64 - mem_available_kb mm)"
    using assms by simp_all
  then have "2 ^ 63 \<le> (mem_total_kb mm + (2 ^ 64 - mem_available_kb mm)) mod 2 ^ 64" by (simp only: mod_less)
  then have "2 ^ 63 div 1024 \<le> used_mb mm" unfolding used_mb_def by (rule div_le_mono)
  then show ?thesis by simp
qed

subsection \<open>Confirmations\<close>

text \<open>
  A step of the interface: a frame is rendered or a key is handled, with any snapshot, terminal
  size, clock and kernel. The machine also records, in \<open>asked\<close>, what the user asked for, read off the
  screen and not off the program's variables: each time \<^verbatim>\<open>K\<close> is pressed with no live confirmation to
  answer, the process in the selected line of the table, if there is one.
\<close>

record tui_machine =
  tui :: tui_state_t
  killed :: "kill_call list"
  asked :: "int list"

definition kill_request :: "int \<Rightarrow> int \<Rightarrow> system_snapshot_t \<Rightarrow> tui_state_t \<Rightarrow> int list" where
  "kill_request now ch sn st =
     (if ch = key (CHR ''K'') \<and> \<not> (confirm_pending st \<and> now < status_message_expiry st) \<and>
         nat (selected_index st) < length (s_procs sn)
      then [p_pid (s_procs sn ! nat (selected_index st))] else [])"

inductive tui_step :: "tui_machine \<Rightarrow> tui_machine \<Rightarrow> bool" where
  render: "tui_render q rows cols now sn (tui m) = (fr, sn', st') \<Longrightarrow> tui_step m (m\<lparr>tui := st'\<rparr>)"
| input: "tui_handle_input kill_ok clock ch sn (tui m) (killed m) = (go, st', ks') \<Longrightarrow>
    tui_step m (m\<lparr>tui := st', killed := ks', asked := asked m @ kill_request (clock 0) ch sn (tui m)\<rparr>)"

inductive_cases tui_stepE: "tui_step m m'"

abbreviation sigkills :: "kill_call list \<Rightarrow> kill_call list" where
  "sigkills ks \<equiv> filter (\<lambda>(p, g). g = SIGKILL) ks"

definition tui_inv :: "tui_machine \<Rightarrow> bool" where
  "tui_inv m \<longleftrightarrow> 0 \<le> selected_index (tui m) \<and>
     (confirm_pending (tui m) \<longrightarrow> asked m \<noteq> [] \<and> pending_kill_pid (tui m) = last (asked m)) \<and>
     (\<forall>(p, g)\<in>set (killed m). 1 < p \<and> (g = SIGKILL \<longrightarrow> p \<in> set (asked m))) \<and>
     length (sigkills (killed m)) + (if confirm_pending (tui m) then 1 else 0) \<le> length (asked m)"

lemma render_state:
  assumes "tui_render q rows cols now sn st = (fr, sn', st')"
  shows "confirm_pending st' = confirm_pending st" "pending_kill_pid st' = pending_kill_pid st"
    "0 \<le> selected_index st \<Longrightarrow> 0 \<le> selected_index st'"
  using assms by (auto simp: tui_render_def Let_def clamp_selection_def adjust_scroll_def split: if_splits)

lemma set_status_same [simp]:
  "confirm_pending (set_status msg e st) = confirm_pending st" "pending_kill_pid (set_status msg e st) = pending_kill_pid st"
  "selected_index (set_status msg e st) = selected_index st"
  by (simp_all add: set_status_def)

text \<open>The keys outside a confirmation send at most a stop or a continue signal.\<close>

lemma signal_selected_state:
  assumes "signal_selected kill_ok now sig signame sn st ks = (st', ks')"
  shows "confirm_pending st' = confirm_pending st" "selected_index st' = selected_index st"
    "ks' = ks \<or> (\<exists>p. 1 < p \<and> ks' = ks @ [(p, sig)])"
  using assms
  by (auto simp: signal_selected_def signal_send_to_process_def Let_def split: if_splits)

lemma press_key_state:
  assumes "press_key kill_ok now ch sn st ks = (go, st', ks')" "\<not> confirm_pending st" "0 \<le> selected_index st"
  shows "0 \<le> selected_index st'"
    "confirm_pending st' \<Longrightarrow> ch = key (CHR ''K'') \<and> nat (selected_index st) < length (s_procs sn) \<and>
       pending_kill_pid st' = p_pid (s_procs sn ! nat (selected_index st))"
    "ks' = ks \<or> (\<exists>p g. 1 < p \<and> g \<noteq> SIGKILL \<and> ks' = ks @ [(p, g)])"
proof -
  have "0 \<le> selected_index st' \<and> (confirm_pending st' \<longrightarrow> ch = key (CHR ''K'') \<and>
      nat (selected_index st) < length (s_procs sn) \<and>
      pending_kill_pid st' = p_pid (s_procs sn ! nat (selected_index st))) \<and>
    (ks' = ks \<or> (\<exists>p g. 1 < p \<and> g \<noteq> SIGKILL \<and> ks' = ks @ [(p, g)]))"
  proof (cases "ch = key (CHR ''s'') \<or> ch = key (CHR ''S'') \<or> ch = key (CHR ''c'') \<or> ch = key (CHR ''C'')")
    case True
    then obtain sig nm where g: "signal_selected kill_ok now sig nm sn st ks = (st', ks')" "sig = SIGSTOP \<or> sig = SIGCONT"
      using assms(1) by (auto simp: press_key_def KEY_DOWN_def KEY_UP_def)
    then show ?thesis using signal_selected_state [OF g(1)] assms(2,3) by (auto simp: signal_defs)
  next
    case False
    then show ?thesis using assms by (auto simp: press_key_def Let_def split: if_splits)
  qed
  then show "0 \<le> selected_index st'"
    "confirm_pending st' \<Longrightarrow> ch = key (CHR ''K'') \<and> nat (selected_index st) < length (s_procs sn) \<and>
       pending_kill_pid st' = p_pid (s_procs sn ! nat (selected_index st))"
    "ks' = ks \<or> (\<exists>p g. 1 < p \<and> g \<noteq> SIGKILL \<and> ks' = ks @ [(p, g)])" by auto
qed

text \<open>The answer sends at most one kill, to the pending process, which is in the snapshot.\<close>

lemma answer_confirm_state:
  assumes "answer_confirm kill_ok now ch sn st ks = (st', ks')"
  shows "selected_index st' = selected_index st" "\<not> confirm_pending st'"
    "ks' = ks \<or> 1 < pending_kill_pid st \<and> ks' = ks @ [(pending_kill_pid st, SIGKILL)] \<and>
       (ch = key (CHR ''y'') \<or> ch = key (CHR ''Y'')) \<and> pending_kill_pid st \<in> p_pid ` set (s_procs sn)"
proof -
  have "selected_index st' = selected_index st \<and> \<not> confirm_pending st' \<and>
    (ks' = ks \<or> 1 < pending_kill_pid st \<and> ks' = ks @ [(pending_kill_pid st, SIGKILL)] \<and>
       (ch = key (CHR ''y'') \<or> ch = key (CHR ''Y'')) \<and> pending_kill_pid st \<in> p_pid ` set (s_procs sn))"
  proof (cases "(ch = key (CHR ''y'') \<or> ch = key (CHR ''Y'')) \<and> pending_kill_pid st \<in> p_pid ` set (s_procs sn)")
    case True
    then show ?thesis using assms
      by (auto simp: answer_confirm_def Let_def signal_send_to_process_def split: if_splits)
  next
    case False
    then show ?thesis using assms by (auto simp: answer_confirm_def Let_def split: if_splits)
  qed
  then show "selected_index st' = selected_index st" "\<not> confirm_pending st'"
    "ks' = ks \<or> 1 < pending_kill_pid st \<and> ks' = ks @ [(pending_kill_pid st, SIGKILL)] \<and>
       (ch = key (CHR ''y'') \<or> ch = key (CHR ''Y'')) \<and> pending_kill_pid st \<in> p_pid ` set (s_procs sn)" by auto
qed

text \<open>The two ways a key can be handled.\<close>

lemma handle_input_cases:
  assumes "tui_handle_input kill_ok clock ch sn st ks = (go, st', ks')"
  obtains (none) "st' = st" "ks' = ks" "ch = ERR"
  | (answer) "confirm_pending st" "clock 0 < status_message_expiry st"
      "answer_confirm kill_ok (clock 1) ch sn st ks = (st', ks')"
  | (press) st0 now where "press_key kill_ok now ch sn st0 ks = (go, st', ks')" "\<not> confirm_pending st0"
      "selected_index st0 = selected_index st" "\<not> (confirm_pending st \<and> clock 0 < status_message_expiry st)"
proof (cases "ch = ERR")
  case True
  then show ?thesis using assms none by (simp add: tui_handle_input_def)
next
  case ch: False
  show ?thesis
  proof (cases "confirm_pending st \<and> clock 0 < status_message_expiry st")
    case True
    then show ?thesis using assms ch answer by (simp add: tui_handle_input_def)
  next
    case False
    then show ?thesis using assms ch press
      by (cases "confirm_pending st") (auto simp: tui_handle_input_def)
  qed
qed

lemma tui_step_inv:
  assumes "tui_inv m" "tui_step m m'"
  shows "tui_inv m'"
  using assms(2)
proof (cases rule: tui_step.cases)
  case (render q rows cols now sn fr sn' st')
  then show ?thesis using assms(1) render_state [OF render(2)] by (auto simp: tui_inv_def)
next
  case (input kill_ok clock ch sn go st' ks')
  let ?a = "kill_request (clock 0) ch sn (tui m)"
  have inv: "0 \<le> selected_index (tui m)"
    "confirm_pending (tui m) \<Longrightarrow> asked m \<noteq> [] \<and> pending_kill_pid (tui m) = last (asked m)"
    "\<forall>(p, g)\<in>set (killed m). 1 < p \<and> (g = SIGKILL \<longrightarrow> p \<in> set (asked m))"
    "length (sigkills (killed m)) + (if confirm_pending (tui m) then 1 else 0) \<le> length (asked m)"
    using assms(1) by (auto simp: tui_inv_def)
  from input(2) show ?thesis
  proof (cases rule: handle_input_cases)
    case none
    then have "?a = []" by (simp add: kill_request_def ERR_def)
    then show ?thesis using assms(1) none input(1) by (simp add: tui_inv_def)
  next
    case answer
    note A = answer_confirm_state [OF answer(3)]
    have "?a = []" using answer(1,2) by (simp add: kill_request_def)
    moreover have "pending_kill_pid (tui m) \<in> set (asked m)" using inv(2) [OF answer(1)] by simp
    ultimately show ?thesis using A inv(1,3,4) answer(1) input(1) by (auto simp: tui_inv_def)
  next
    case (press st0 now)
    have sel: "0 \<le> selected_index st0" using press(3) inv(1) by simp
    note P = press_key_state [OF press(1,2) sel]
    have "confirm_pending st' \<Longrightarrow> ?a = [pending_kill_pid st']"
      using P(2) press(3,4) by (auto simp: kill_request_def)
    moreover have "length (sigkills ks') = length (sigkills (killed m))" using P(3) by auto
    moreover have "\<forall>(p, g)\<in>set ks'. 1 < p \<and> (g = SIGKILL \<longrightarrow> p \<in> set (asked m))" using P(3) inv(3) by auto
    ultimately show ?thesis using P(1) inv(4) input(1) by (auto simp: tui_inv_def split: if_splits)
  qed
qed

definition tui_start :: "tui_machine \<Rightarrow> bool" where
  "tui_start m \<longleftrightarrow> m = \<lparr>tui = tui_initial, killed = [], asked = []\<rparr>"

interpretation tui_runs: inductive_invariant tui_start tui_step tui_inv
  by unfold_locales (simp add: tui_start_def tui_initial_def tui_inv_def, rule tui_step_inv)

end
