(* ===== verification/Monitor_Theorems.thy ===== *)
theory Monitor_Theorems
  imports Metrics_Facts Main_Facts Tui_Facts
begin

text \<open>
  The properties of the sampler, of the terminal interface and of the main program.
\<close>

subsection \<open>A system for the examples\<close>

definition demo_fs :: proc_fs where
  "demo_fs path =
     (if path = ''/proc/stat'' then Some ''cpu  10 0 5 100 2 0 1 0''
      else if path = ''/proc/meminfo'' then Some (''MemTotal: 1000 kB'' @ LF @ ''MemAvailable: 250 kB'' @ LF)
      else if path = ''/proc/7/stat'' then
        Some (stat_line 7 ''sh) x'' (CHR ''S'') [1, 7, 7, 0, -1, 4, 5, 6, 7, 8, 9, 10, 11, 12, 20, -5, 3, 0, 77, 5])
      else None)"

subsection \<open>The sampler\<close>

text \<open>
  C34. When no counter of \<^verbatim>\<open>/proc/stat\<close> has gone back and their sums have not overflowed since the
  last sample, the four processor percentages are between 0 and 100, although they are computed
  with two roundings each, and the elapsed total is the difference of the sums.
\<close>

theorem cpu_percentages:
  assumes "proc_parser_read_cpu fs st = (0, c, st')" "advances (prev_cpu_jiffies st) (prev_cpu_jiffies st')"
  shows "pct (total_usage_pct c) \<and> pct (user_pct c) \<and> pct (system_pct c) \<and> pct (idle_pct c) \<and>
    j_total (prev_cpu_jiffies st) + last_system_jiffies_delta st' = jiffies_sum (prev_cpu_jiffies st')"
proof -
  let ?a = "prev_cpu_jiffies st" and ?b = "prev_cpu_jiffies st'"
  have c: "c = cpu_metrics_of (sys_core_count st) (delta (j_total ?b) (j_total ?a)) (delta (j_idle ?b) (j_idle ?a))
      (delta (j_user ?b) (j_user ?a)) (delta (j_system ?b) (j_system ?a))"
    and d: "last_system_jiffies_delta st' = delta (j_total ?b) (j_total ?a)"
    using assms(1) by (auto simp: proc_parser_read_cpu_def Let_def split: option.splits if_splits)
  have "j_total ?a + delta (j_total ?b) (j_total ?a) = jiffies_sum ?b"
    using assms(2) by (auto simp: advances_def delta_def jiffies_sum_def)
  then show ?thesis using cpu_metrics_pct advances_deltas [OF assms(2)] by (simp add: c d)
qed

lemma demo_stat:
  "read_file demo_fs ''/proc/stat'' 4095 = Some ''cpu  10 0 5 100 2 0 1 0''"
  "c_str ''cpu  10 0 5 100 2 0 1 0'' = ''cpu  10 0 5 100 2 0 1 0''"
  "scan_ints 8 ''  10 0 5 100 2 0 1 0'' = [10, 0, 5, 100, 2, 0, 1, 0]"
proof -
  show "read_file demo_fs ''/proc/stat'' 4095 = Some ''cpu  10 0 5 100 2 0 1 0''" by (simp add: read_file_def demo_fs_def)
  show "c_str ''cpu  10 0 5 100 2 0 1 0'' = ''cpu  10 0 5 100 2 0 1 0''" by (simp add: c_str_def NUL_def)
  show "scan_ints 8 ''  10 0 5 100 2 0 1 0'' = [10, 0, 5, 100, 2, 0, 1, 0]" by code_simp
qed

lemma demo_read_cpu:
  "\<exists>c st'. proc_parser_read_cpu demo_fs st = (0, c, st') \<and>
     prev_cpu_jiffies st' = \<lparr>j_user = 10, j_nice = 0, j_system = 5, j_idle = 100, j_iowait = 2, j_irq = 0, j_softirq = 1,
       j_steal = 0, j_total = 118\<rparr>"
  by (simp add: proc_parser_read_cpu_def demo_stat has_prefix_def jiffies_of_def Let_def to_ull_def add_ull_def)

lemma demo_init: "\<exists>ps. proc_parser_init demo_fs 4 parser_boot = (0, ps)"
  using demo_read_cpu [of "parser_boot\<lparr>sys_core_count := 4\<rparr>"] by (auto simp: proc_parser_init_def)

lemma demo_take: "\<exists>sn ps'. proc_parser_take_snapshot demo_fs (Some names) now ps = (0, sn, ps')"
proof -
  obtain c st where "proc_parser_read_cpu demo_fs ps = (0, c, st)" using demo_read_cpu by blast
  moreover have "fst (proc_parser_read_mem demo_fs) = 0"
    by (simp add: proc_parser_read_mem_def read_file_def demo_fs_def)
  ultimately show ?thesis by (cases "proc_parser_read_mem demo_fs") (simp add: proc_parser_take_snapshot_def Let_def case_prod_unfold)
qed

lemma demo_comm:
  assumes "proc_parser_read_process demo_fs 7 = Some pr" shows "p_comm pr = ''sh) x''"
proof -
  let ?vs = "[1, 7, 7, 0, -1, 4, 5, 6, 7, 8, 9, 10, 11, 12, 20, -5, 3, 0, 77, 5] :: int list"
  let ?l = "stat_line 7 ''sh) x'' (CHR ''S'') ?vs"
  have path: "proc_path 7 ''stat'' = ''/proc/7/stat''" by code_simp
  have len: "length ?l \<le> 4095" by code_simp
  have ne: "?l \<noteq> []" by (simp add: stat_line_def)
  have "read_file demo_fs (proc_path 7 ''stat'') 4095 = Some ?l"
    using len ne by (simp add: path read_file_def demo_fs_def)
  then obtain pr0 where pr0: "parse_stat 7 ?l = Some pr0" "p_comm pr = p_comm pr0"
    using assms by (auto simp: proc_parser_read_process_def foldl_status_same split: option.splits)
  have "stat_fields (zero_process\<lparr>p_pid := 7, p_comm := take (MAX_COMM_LEN - 1) ''sh) x''\<rparr>) (CHR ''S'' # number_fields ?vs @ [CHR 0x0A]) = Some pr0"
    using parse_stat_line [of "''sh) x''" "CHR ''S''" ?vs 7] pr0(1) by (simp add: NUL_def)
  then have "p_comm pr0 = take (MAX_COMM_LEN - 1) ''sh) x''" by (auto simp: stat_fields_def Let_def split: if_splits)
  then show ?thesis by (simp add: pr0(2) MAX_COMM_LEN_def)
qed

theorem cpu_percentages_witness:
  "\<exists>c st'. proc_parser_read_cpu demo_fs parser_boot = (0, c, st') \<and> pct (total_usage_pct c) \<and> pct (idle_pct c) \<and>
     last_system_jiffies_delta st' = 118"
proof -
  obtain c st' where r: "proc_parser_read_cpu demo_fs parser_boot = (0, c, st')"
    and j: "prev_cpu_jiffies st' = \<lparr>j_user = 10, j_nice = 0, j_system = 5, j_idle = 100, j_iowait = 2, j_irq = 0, j_softirq = 1,
       j_steal = 0, j_total = 118\<rparr>" using demo_read_cpu by blast
  have "advances (prev_cpu_jiffies parser_boot) (prev_cpu_jiffies st')"
    by (simp add: j advances_def jiffies_sum_def parser_boot_def zero_jiffies_def)
  from cpu_percentages [OF r this] show ?thesis using r
    by (auto simp: j jiffies_sum_def parser_boot_def zero_jiffies_def)
qed

text \<open>
  C35. Everything the sampler stores fits the C types of its records: the static variables after
  initialisation and after every snapshot, and the snapshot itself, with at most 2048 processes,
  command names that end within their buffer and memory percentages between 0 and 100. A
  successful snapshot is marked truncated only when the table is full, and the history kept for
  the next one is that of its processes, each read from an entry of the directory.
\<close>

theorem snapshot_well_typed:
  "(proc_parser_init fs cores parser_boot = (r, st) \<longrightarrow> typed_parser st) \<and>
   (typed_parser st \<and> proc_parser_take_snapshot fs dir now st = (r', sn, st') \<longrightarrow>
      typed_parser st' \<and> typed_snapshot sn \<and>
      (r' = 0 \<longrightarrow> (s_truncated sn \<longrightarrow> s_count sn = MAX_PROCS) \<and>
         prev_processes st' = map (\<lambda>pr. (p_pid pr, p_total_time pr)) (s_procs sn) \<and>
         list_all (\<lambda>pr. \<exists>names name pr0. dir = Some names \<and> name \<in> set names \<and>
           proc_parser_read_process fs (atoi name) = Some pr0 \<and> p_pid pr = atoi name \<and> p_comm pr = p_comm pr0) (s_procs sn)))"
proof -
  have "typed_parser st" if "proc_parser_init fs cores parser_boot = (r, st)" using init_typed [OF that] .
  moreover have "typed_parser st' \<and> typed_snapshot sn" if "typed_parser st" "proc_parser_take_snapshot fs dir now st = (r', sn, st')"
    using take_snapshot_typed [OF that(2,1)] by simp
  moreover have "(s_truncated sn \<longrightarrow> s_count sn = MAX_PROCS) \<and>
         prev_processes st' = map (\<lambda>pr. (p_pid pr, p_total_time pr)) (s_procs sn) \<and>
         list_all (\<lambda>pr. \<exists>names name pr0. dir = Some names \<and> name \<in> set names \<and>
           proc_parser_read_process fs (atoi name) = Some pr0 \<and> p_pid pr = atoi name \<and> p_comm pr = p_comm pr0) (s_procs sn)"
    if "proc_parser_take_snapshot fs dir now st = (0, sn, st')"
    using take_snapshot_procs [OF that] by blast
  ultimately show ?thesis by blast
qed

theorem snapshot_well_typed_witness:
  "\<exists>r sn st'. proc_parser_take_snapshot demo_fs (Some [''7'']) 0 parser_boot = (r, sn, st') \<and> typed_parser st' \<and> typed_snapshot sn"
proof -
  obtain r sn st' where s: "proc_parser_take_snapshot demo_fs (Some [''7'']) 0 parser_boot = (r, sn, st')" by (metis prod_cases3)
  have "typed_parser parser_boot"
    by (simp add: typed_parser_def parser_boot_def typed_jiffies_def zero_jiffies_def int32_def)
  then show ?thesis using snapshot_well_typed
      [where fs = demo_fs and st = parser_boot and dir = "Some [''7'']" and now = 0 and r' = r and sn = sn and st' = st'] s by blast
qed

text \<open>
  C36. A line of \<^verbatim>\<open>/proc/PID/stat\<close> as the kernel prints it is read back: the command name, whatever
  spaces and parentheses it contains, the state and the eight numbers the monitor keeps.
\<close>

theorem stat_line_roundtrip:
  assumes comm: "NUL \<notin> set comm" "length comm < MAX_COMM_LEN" and st: "st \<noteq> NUL" "st \<noteq> CHR '')''"
    and vs: "19 \<le> length vs" "int32 (vs ! 0)" "list_all (\<lambda>i. 0 \<le> vs ! i \<and> vs ! i < 2 ^ 64) [10, 11, 18]"
      "list_all (\<lambda>i. long64 (vs ! i)) [14, 15, 16]"
  shows "parse_stat pid (stat_line pid comm st vs) = Some (zero_process\<lparr>p_pid := pid, p_comm := comm, p_state := st,
    p_ppid := vs ! 0, p_utime := nat (vs ! 10), p_stime := nat (vs ! 11),
    p_total_time := (nat (vs ! 10) + nat (vs ! 11)) mod 2 ^ 64,
    p_priority := vs ! 14, p_nice := vs ! 15, p_num_threads := vs ! 16, p_starttime_ticks := nat (vs ! 18)\<rparr>)"
proof -
  have sc: "scan_ints 19 (number_fields vs @ [CHR 0x0A]) = take 19 vs"
    using scan_ints_fields [OF _ vs(1), of "[CHR 0x0A]"] by (simp add: isdigit_def)
  have u: "to_ull v = nat v" if "0 \<le> v" "v < 2 ^ 64" for v using that by (simp add: to_ull_def)
  have l: "to_long v = v" if "long64 v" for v using that by (simp add: to_long_def long64_def)
  have i: "to_int v = v" if "int32 v" for v
    using that by (simp add: to_int_def to_long_def int32_def LONG_MAX_def LONG_MIN_def)
  have "take (MAX_COMM_LEN - 1) comm = comm" using comm(2) by simp
  then show ?thesis using parse_stat_line [OF comm(1) st vs(1), of pid] vs sc
    by (simp add: stat_fields_def Let_def u l i add_ull_def)
qed

theorem stat_line_roundtrip_witness:
  "parse_stat 7 (stat_line 7 ''sh) x'' (CHR ''S'') [1, 7, 7, 0, -1, 4, 5, 6, 7, 8, 9, 10, 11, 12, 20, -5, 3, 0, 77, 5]) =
     Some (zero_process\<lparr>p_pid := 7, p_comm := ''sh) x'', p_state := CHR ''S'', p_ppid := 1, p_utime := 9, p_stime := 10,
       p_total_time := 19, p_priority := 20, p_nice := - 5, p_num_threads := 3, p_starttime_ticks := 77\<rparr>)"
  using stat_line_roundtrip [of "''sh) x''" "CHR ''S''" "[1, 7, 7, 0, -1, 4, 5, 6, 7, 8, 9, 10, 11, 12, 20, -5, 3, 0, 77, 5]" 7]
  by (simp add: NUL_def MAX_COMM_LEN_def int32_def long64_def LONG_MIN_def LONG_MAX_def)

subsection \<open>The terminal interface\<close>

text \<open>
  C37. Rendering sorts the table, losing no process, and keeps the selection visible: the selected
  index is inside the table, its row is among the rows drawn and is the only one marked, and no
  more rows are drawn than the terminal has room for. This holds for every \<^verbatim>\<open>qsort_r\<close> that sorts by
  comparisons consistent on the array, at most 2048 processes with numbers the kernel can give and
  names without zero bytes, a terminal of at most 32767 rows, and a scroll offset between 0 and 2048;
  the new scroll offset is again in that range. Within these bounds the 32-bit difference of two
  process numbers and the sums with the scroll offset do not wrap.
\<close>

theorem render_shows_selection:
  assumes "tui_render q rows cols now sn st = (fr, sn', st')" "sorts q"
    and "list_all (\<lambda>pr. NUL \<notin> set (p_comm pr) \<and> 0 \<le> p_pid pr \<and> p_pid pr < 2 ^ 31) (s_procs sn)"
    and "s_count sn \<le> MAX_PROCS" "rows \<le> 32767" "0 \<le> scroll_offset st" "scroll_offset st \<le> int MAX_PROCS"
  shows "mset (s_procs sn') = mset (s_procs sn) \<and>
    sorted_wrt (\<lambda>p q. compare_procs (sort_mode st) p q \<le> 0) (s_procs sn') \<and>
    int (length (f_rows fr)) \<le> max_rows rows \<and> 0 \<le> scroll_offset st' \<and> scroll_offset st' \<le> int MAX_PROCS \<and>
    (s_procs sn = [] \<or> 0 \<le> selected_index st' \<and> selected_index st' < int (s_count sn') \<and>
       filter snd (f_rows fr) = [(s_procs sn' ! nat (selected_index st'), True)])"
proof -
  let ?ps = "q (compare_procs (sort_mode st)) (s_procs sn)" and ?mr = "max_rows rows"
  let ?c = "clamp_selection (int (length ?ps)) st"
  have eq: "s_procs sn' = ?ps" "f_rows fr = table_rows ?mr ?ps st'" "st' = adjust_scroll ?mr ?c"
    using assms(1) by (auto simp: tui_render_def Let_def)
  have "\<forall>pr\<in>set (s_procs sn). sortable pr" using assms(3) by (simp add: list_all_iff sortable_def)
  note srt = procs.sorter_works [OF assms(2) this, of "sort_mode st"]
  have len: "length ?ps = s_count sn" using srt(1) by (metis size_mset)
  have mr: "0 < ?mr" "?mr < 2 ^ 30" using max_rows_pos(1) max_rows_pos(2) [of rows "2 ^ 30"] assms(5) by simp_all
  have rows: "int (length (table_rows ?mr ?ps st')) \<le> ?mr" using length_table_rows [of ?mr ?ps st'] mr by simp
  have off: "0 \<le> scroll_offset ?c" "scroll_offset ?c \<le> int MAX_PROCS"
    using assms(6,7) by (auto simp: clamp_selection_def Let_def)
  have sel: "0 \<le> selected_index ?c" "selected_index ?c \<le> int MAX_PROCS"
    using clamp_selection_range [of "int (length ?ps)" st] assms(4) len
    by (cases "length ?ps = 0"; auto simp: clamp_selection_def)+
  have "selected_index ?c < 2 ^ 30" "scroll_offset ?c < 2 ^ 30" using sel off by (simp_all add: MAX_PROCS_def)
  note a = adjust_scroll_visible [OF sel(1) mr(1) this(1) mr(2) off(1) this(2), folded eq(3)]
  have "selected_index st' < int (length ?ps) \<and>
      filter snd (table_rows ?mr ?ps st') = [(?ps ! nat (selected_index st'), True)]" if "s_procs sn \<noteq> []"
  proof -
    have "0 < int (length ?ps)" using that len by simp
    from clamp_selection_range [OF this, of st] show ?thesis using a sel(1) selected_row_only [of st' ?ps ?mr] by simp
  qed
  then show ?thesis using srt rows a sel by (auto simp: eq(1,2))
qed

definition demo_proc :: "int \<Rightarrow> nat \<Rightarrow> process_info_t" where
  "demo_proc n rss = zero_process\<lparr>p_pid := n, p_vm_rss_kb := rss\<rparr>"

definition demo_snapshot :: system_snapshot_t where
  "demo_snapshot = zero_snapshot\<lparr>s_procs := [demo_proc 4 10, demo_proc 5 30, demo_proc 6 20]\<rparr>"

theorem render_shows_selection_witness:
  "\<exists>fr sn' st'. tui_render insertion_sort 24 80 0 demo_snapshot (tui_initial\<lparr>sort_mode := SORT_BY_MEM, selected_index := 9\<rparr>) = (fr, sn', st') \<and>
     mset (s_procs sn') = mset (s_procs demo_snapshot) \<and> selected_index st' < int (s_count sn') \<and>
     filter snd (f_rows fr) = [(s_procs sn' ! nat (selected_index st'), True)]"
proof -
  let ?st = "tui_initial\<lparr>sort_mode := SORT_BY_MEM, selected_index := 9\<rparr>"
  obtain fr sn' st' where r: "tui_render insertion_sort 24 80 0 demo_snapshot ?st = (fr, sn', st')" by (metis prod_cases3)
  have "list_all (\<lambda>pr. NUL \<notin> set (p_comm pr) \<and> 0 \<le> p_pid pr \<and> p_pid pr < 2 ^ 31) (s_procs demo_snapshot)"
    "s_procs demo_snapshot \<noteq> []" "s_count demo_snapshot \<le> MAX_PROCS"
    by (simp_all add: demo_snapshot_def demo_proc_def zero_process_def MAX_PROCS_def)
  then show ?thesis using render_shows_selection [OF r insertion_sort_sorts] r by (auto simp: tui_initial_def)
qed

text \<open>
  C38. In every run of the terminal interface a key sends at most one signal, never to a process
  number below 2. \<^verbatim>\<open>SIGKILL\<close> is sent only by the key \<^verbatim>\<open>y\<close> or \<^verbatim>\<open>Y\<close> while a confirmation is pending and
  has not expired, to the process that was in the selected line of the table when \<^verbatim>\<open>K\<close> was last pressed
  outside a confirmation, and only if it is still in the snapshot; the confirmation is then used up,
  and there are never more kills than requests.
\<close>

theorem kill_confirmed:
  assumes "tui_start m0" "tui_step\<^sup>*\<^sup>* m0 m" "tui_handle_input kill_ok clock ch sn (tui m) (killed m) = (go, st', ks')"
  shows "length (sigkills (killed m)) \<le> length (asked m) \<and>
    (ks' = killed m \<or> (\<exists>p g. ks' = killed m @ [(p, g)] \<and> 1 < p \<and>
      (g = SIGKILL \<longrightarrow> confirm_pending (tui m) \<and> clock 0 < status_message_expiry (tui m) \<and>
         (ch = key (CHR ''y'') \<or> ch = key (CHR ''Y'')) \<and> asked m \<noteq> [] \<and> p = last (asked m) \<and>
         p \<in> p_pid ` set (s_procs sn) \<and> \<not> confirm_pending st')))"
proof -
  have inv: "tui_inv m" by (rule tui_runs.reachable_inv [OF assms(1,2)])
  have n: "length (sigkills (killed m)) \<le> length (asked m)" using inv by (auto simp: tui_inv_def split: if_splits)
  from assms(3) show ?thesis
  proof (cases rule: handle_input_cases)
    case none
    then show ?thesis using n by simp
  next
    case answer
    have "asked m \<noteq> [] \<and> pending_kill_pid (tui m) = last (asked m)" using inv answer(1) by (simp add: tui_inv_def)
    then show ?thesis using answer_confirm_state [OF answer(3)] answer(1,2) n by auto
  next
    case (press st0 now)
    have "0 \<le> selected_index st0" using inv press(3) by (simp add: tui_inv_def)
    then show ?thesis using press_key_state [OF press(1,2)] n by auto
  qed
qed

text \<open>The interface after \<^verbatim>\<open>K\<close> on the first process of the example.\<close>

definition demo_asked :: tui_machine where
  "demo_asked = \<lparr>tui = (set_status (''Confirm SIGKILL for PID '' @ show_int 4 @ ''? (y/n)'') 110 (tui_initial\<lparr>pending_kill_pid := 4\<rparr>))\<lparr>confirm_pending := True\<rparr>,
     killed = [], asked = [4]\<rparr>"

lemma demo_asked_run: "tui_step \<lparr>tui = tui_initial, killed = [], asked = []\<rparr> demo_asked"
proof -
  let ?m = "\<lparr>tui = tui_initial, killed = [], asked = []\<rparr>"
  have r: "tui_handle_input (\<lambda>p g. True) (\<lambda>i. 100) (key (CHR ''K'')) demo_snapshot (tui ?m) (killed ?m) =
      (True, tui demo_asked, [])"
    by (simp add: tui_handle_input_def press_key_def tui_initial_def ERR_def KEY_DOWN_def KEY_UP_def demo_snapshot_def
        demo_proc_def set_status_def Let_def demo_asked_def)
  have "kill_request 100 (key (CHR ''K'')) demo_snapshot (tui ?m) = [4]"
    by (simp add: kill_request_def tui_initial_def demo_snapshot_def demo_proc_def)
  then show ?thesis using tui_step.input [OF r] by (simp add: demo_asked_def)
qed

theorem kill_confirmed_witness:
  "\<exists>go st'. tui_handle_input (\<lambda>p g. True) (\<lambda>i. 105) (key (CHR ''y'')) demo_snapshot (tui demo_asked) (killed demo_asked) =
       (go, st', [(4, SIGKILL)]) \<and> 4 = last (asked demo_asked) \<and> \<not> confirm_pending st'"
proof -
  let ?r = "tui_handle_input (\<lambda>p g. True) (\<lambda>i. 105) (key (CHR ''y'')) demo_snapshot (tui demo_asked) (killed demo_asked)"
  obtain go st' ks' where r: "?r = (go, st', ks')" by (metis prod_cases3)
  have k: "snd (snd ?r) = [(4, SIGKILL)]"
    by (simp add: tui_handle_input_def answer_confirm_def demo_asked_def set_status_def ERR_def demo_snapshot_def
        demo_proc_def signal_send_to_process_def Let_def)
  have s: "tui_start \<lparr>tui = tui_initial, killed = [], asked = []\<rparr>" by (simp add: tui_start_def)
  have "killed demo_asked = []" by (simp add: demo_asked_def)
  with kill_confirmed [OF s r_into_rtranclp [of tui_step, OF demo_asked_run] r] r k show ?thesis by auto
qed

subsection \<open>The main program\<close>

text \<open>
  C39. The program never runs a server without a token: whatever the command line and the answers
  of the system, a server that was initialised has a non-empty token of fewer than 128
  characters, which is an argument of the command line or 64 hexadecimal digits from the random
  device, and a port between 1 and 65535. At the end it is told to stop; if the threads of the server
  end, the program returns, with exit status 0, 1 or 2, and when it returns the server has been taken
  down. The line modes of the terminal are those from before the start, in either case; and the
  screen was never touched, or the full-screen mode and the keypad mode are off and the cursor is visible.
\<close>

theorem server_protected:
  assumes "good_bytes v"
  shows "(case r_server (main_program v args) of
      Some s \<Rightarrow> auth_token s \<noteq> [] \<and> length (auth_token s) < MAX_AUTH_TOKEN_LEN \<and>
        (auth_token s \<in> set args \<or> length (auth_token s) = 64 \<and> set (auth_token s) \<subseteq> set hex_chars) \<and>
        0 < port s \<and> port s \<le> 65535 \<and> \<not> server_running s \<and>
        (r_returned (main_program v args) \<longrightarrow> \<not> initialized s \<and> latest_snapshot s = None)
    | None \<Rightarrow> r_returned (main_program v args)) \<and>
    (v_drained v \<longrightarrow> r_returned (main_program v args)) \<and>
    r_exit (main_program v args) \<in> {0, 1, 2} \<and>
    cbreak (r_screen (main_program v args)) = cbreak (v_screen v) \<and>
    echo (r_screen (main_program v args)) = echo (v_screen v) \<and>
    (r_screen (main_program v args) = v_screen v \<or>
     \<not> curses_on (r_screen (main_program v args)) \<and> \<not> keypad (r_screen (main_program v args)) \<and>
     cursor (r_screen (main_program v args)) = 1)"
  using main_program_good [OF assms, of args]
  by (auto simp: good_result_def left_server_def token_ok_def hex_token_def split: option.splits)

definition demo_main :: main_env where
  "demo_main = \<lparr>v_urandom = Some (replicate 32 171), v_sigaction_ok = True, v_cores = 4, v_stat = demo_fs, v_malloc_ok = True,
     v_sample = \<lparr>t_fs = demo_fs, t_dir = Some [], t_now = 0, t_clock = (\<lambda>i. 0), t_rows = 24, t_cols = 80, t_key = ERR\<rparr>,
     v_init = \<lparr>mutex_init_ok = True, cond_init_ok = True, snapshot_malloc_ok = True, rwlock_init_ok = True\<rparr>,
     v_start = \<lparr>socket_fd = 3, inet_pton_ok = (\<lambda>h. True), bind_ok = True, listen_ok = True, thread_ok = True\<rparr>,
     v_ticks = [], v_kill = (\<lambda>p g. True), v_qsort = insertion_sort, v_drained = True, v_colors = True,
     v_screen = \<lparr>curses_on = False, cbreak = False, echo = True, keypad = False, nodelay = False, cursor = 1, color_pairs = [], shell_mode = (False, True)\<rparr>\<rparr>"

lemma demo_bytes: "list_all (\<lambda>b. b < 256) (replicate 32 (171 :: nat))"
  by (simp add: list_all_iff)

lemma demo_main_server: "\<exists>s. r_server (main_program demo_main []) = Some s"
proof -
  let ?t = "token_loop (replicate 32 171) MAX_AUTH_TOKEN_LEN []"
  have t: "choose_token demo_main default_config = Some (default_config\<lparr>c_auth_token := ?t\<rparr>)"
    by (simp add: choose_token_def default_config_def generate_random_token_def demo_main_def)
  have "length ?t < MAX_AUTH_TOKEN_LEN" using token_loop_digits [OF _ demo_bytes, of "[]" MAX_AUTH_TOKEN_LEN]
    by (simp add: MAX_AUTH_TOKEN_LEN_def)
  moreover obtain ps where "proc_parser_init demo_fs 4 parser_boot = (0, ps)" using demo_init by blast
  ultimately show ?thesis
    by (simp add: main_program_def t)
      (simp add: run_config_def demo_main_def default_config_def gui_server_init_def gui_server_start_def Let_def
        zero_server_def run_server_def tui_init_def stop_server_def split: prod.split)
qed

theorem server_protected_witness:
  "\<exists>s. r_server (main_program demo_main []) = Some s \<and> length (auth_token s) = 64 \<and>
     set (auth_token s) \<subseteq> set hex_chars \<and> \<not> server_running s \<and> \<not> initialized s \<and>
     r_returned (main_program demo_main []) \<and> echo (r_screen (main_program demo_main []))"
proof -
  obtain s where s: "r_server (main_program demo_main []) = Some s" using demo_main_server by blast
  have g: "good_bytes demo_main" using demo_bytes by (simp add: demo_main_def)
  have "v_drained demo_main" "echo (v_screen demo_main)" by (simp_all add: demo_main_def)
  with server_protected [OF g, of "[]"] show ?thesis using s by auto
qed

end
