(* ===== verification/Spec2Isabelle.thy ===== *)
theory Spec2Isabelle
  imports Allocator_Theorems Shim_Theorems Server_Theorems Monitor_Theorems
begin

text \<open>
  Verification of the Linux dynamic memory allocation and monitoring system.

  \<^bold>\<open>The program.\<close> Two programs share one repository. \<^verbatim>\<open>libmyalloc.so\<close> is a memory allocator:
  \<^verbatim>\<open>include/allocator.h\<close> and \<^verbatim>\<open>include/common.h\<close> fix the block layout, \<^verbatim>\<open>src/allocator/free_list.c\<close>
  keeps segregated free lists, \<^verbatim>\<open>src/allocator/allocator.c\<close> is the allocator proper and
  \<^verbatim>\<open>src/allocator/preload_shim.c\<close> puts it behind the C library's entry points. \<^verbatim>\<open>mem_monitor\<close> is a task
  manager: \<^verbatim>\<open>src/monitor/proc_parser.c\<close> samples \<^verbatim>\<open>/proc\<close>, \<^verbatim>\<open>src/ui/tui.c\<close> shows the sample on the terminal,
  \<^verbatim>\<open>src/monitor/gui_server.c\<close> serves it over HTTP and accepts requests to signal processes,
  \<^verbatim>\<open>src/monitor/signal_handler.c\<close> sends the signals and \<^verbatim>\<open>src/monitor/main.c\<close> drives them all. The sample
  passes from the sampler through the main loop into the server's snapshot and from there to the
  clients; the terminal and the server meet again in the signal handler.

  \<^bold>\<open>Allocator.\<close> \<open>Prelude\<close>: 64-bit arithmetic written out with wrap-around, the byte memory, generic
  lemmas. \<open>Block_Layout\<close>: headers and footers at their offsets, the statistics and global
  variables as one record. \<open>Free_List\<close> and \<open>Allocator\<close>: one definition per function, the kernel
  (\<^verbatim>\<open>sbrk\<close>, \<^verbatim>\<open>mmap\<close>, \<^verbatim>\<open>munmap\<close>, \<^verbatim>\<open>mremap\<close>) a parameter whose documented behaviour is \<open>kernel_ok\<close>. A call
  that the source ends by \<^verbatim>\<open>fatal_abort\<close> is an abort value with its message. \<open>Heap_Invariant\<close>,
  \<open>Free_List_Correct\<close>, \<open>Heap_Steps\<close>, \<open>Heap_View\<close>: the invariant (regions tiled by blocks, tags in
  agreement, no two adjacent free blocks, each free block in the list of its class) and the
  abstract view, a map from addresses to payloads. \<open>Malloc_Correct\<close>, \<open>Free_Correct\<close>,
  \<open>Realloc_Correct\<close>: every operation keeps the invariant and implements its abstract effect.
  \<open>Heap_Client\<close>: the contract of an allocator as a locale, with clients that run arbitrary
  sequences of requests; it is interpreted on the allocator here and on the shim in
  \<open>Shim_Correct\<close>. \<open>Allocator_Theorems\<close> (C1 to C16): correctness of the four entry points, that
  stored bytes survive any run of other requests, the invariant of all runs, disjoint results of
  \<^verbatim>\<open>my_malloc\<close>, best fit, detection of double frees with the exact message, detection of damaged tags,
  initialisation and destruction, sizes and classes.

  \<^bold>\<open>Shim.\<close> \<open>Preload_Shim\<close>: the interposed functions, the bootstrap buffer and the aligned
  allocations. \<open>Kernel_Frame\<close>, \<open>Shim_Correct\<close>, \<open>Shim_Aligned\<close>, \<open>Bootstrap\<close>, \<open>Shim_Theorems\<close> (C17 to
  C22): the shim keeps the allocator's contract, aligned pointers are aligned, usable and freed
  correctly, bad arguments and overflowing sizes give the documented errors, bootstrap chunks are
  disjoint and recognised. The static bootstrap buffer may lie below the data segment or, as in a
  preloaded shared object, above the break; \<open>reserves\<close> says that the kernel maps nothing over it and
  does not grow the break into it, and \<open>Shim_Theorems\<close> builds such a kernel from any other.

  \<^bold>\<open>Text and numbers.\<close> \<open>C_Text\<close>: the string functions and decimal conversions used by the monitor.
  \<open>Float32\<close>: a \<^verbatim>\<open>float\<close> is the rational number it stands for and every operation rounds to 24 bits,
  half to even. \<open>Output_Loop\<close>: \<^verbatim>\<open>send_all\<close>, \<^verbatim>\<open>write_unbuffered\<close> and the log lines of the allocator over
  a device that accepts part of a buffer or fails; a loop that retries forever has the value
  \<open>None\<close>.

  \<^bold>\<open>Server.\<close> \<open>Signal_Handler\<close>; \<open>Gui_Request\<close>: escaping, authentication, JSON fields; \<open>Gui_Server\<close>: the
  responses, files, the metrics document, the routes; \<open>Gui_Lifecycle\<close>: \<^verbatim>\<open>gui_server_init\<close>, \<^verbatim>\<open>start\<close>,
  \<^verbatim>\<open>stop\<close>, \<^verbatim>\<open>update_snapshot\<close> and the interleaving of the accepting thread, the workers and the main
  thread as a step relation, in which a thread that sends to a client goes on only if the send returns
  on that client's connection. \<open>Gui_Request_Facts\<close>, \<open>Json_Facts\<close>, \<open>Gui_Facts\<close>, \<open>Metrics_Facts\<close> hold the
  lemmas, \<open>Server_Theorems\<close> the properties C23 to C33: signal names, authentication as a statement
  about header lines, safety and delivery of signal requests, the JSON round trip, exact output,
  termination of every handler, one message per request, completeness of the metrics document,
  the bound on the workers, and that stopping ends if the clients let the sends make progress and never
  if one of them has stopped reading.

  \<^bold>\<open>Sampler, terminal, main program.\<close> \<open>Proc_Parser\<close>: the records of \<^verbatim>\<open>include/proc_parser.h\<close>, the
  \<^verbatim>\<open>sscanf\<close> conversions with their widths, the sampler with its static variables as state; \<open>Tui\<close>: the
  state, the frame drawn, the keys; \<open>Main_Program\<close>: the command line, the token, the loops.
  \<open>Proc_Facts\<close>, \<open>Proc_Types\<close>, \<open>Tui_Facts\<close>, \<open>Main_Facts\<close> hold the lemmas, \<open>Monitor_Theorems\<close> the
  properties C34 to C39: percentages, ranges of everything the sampler stores, reading a process
  line back, sorting and the visible selection, kills only after confirmation, a server only with
  a token. C40, below, spans the sampler, the main loop and the server.

  \<^bold>\<open>Interfaces.\<close> \<open>heap_allocator\<close> (what clients rely on of an allocator), \<open>inductive_invariant\<close>
  (\<open>Machines\<close>: clients of the allocator, the worker pool and its clients, the terminal), \<open>comparator\<close>
  (what \<^verbatim>\<open>qsort_r\<close> relies on, met by \<^verbatim>\<open>compare_procs\<close> on process numbers from 0 to \<open>2 ^ 31 - 1\<close> and names
  without zero bytes).

  \<^bold>\<open>Loops and bounds.\<close> No definition uses fuel. Loops that advance are functions with a measure (the walk
  over the heap, the header scan, the key search); loops whose end depends on memory or on the
  kernel (the traversal of a free list, the output loops) are partial functions with the value
  \<open>None\<close> for a run that does not end, and it is shown when they end. Bootstrap requests are fewer
  than \<open>2 ^ 46\<close> where a sum of them must not wrap. The loops of the main program run over
  the list of rounds that happen before a signal clears \<^verbatim>\<open>g_running\<close>.

  \<^bold>\<open>Assumptions.\<close> \<open>kernel_ok\<close> and \<open>reserves\<close> for the memory calls; \<open>sorts\<close> for \<^verbatim>\<open>qsort_r\<close>, a parameter; \<open>fair\<close> (a device does not ask for another
  try forever) where a handler is shown to end and \<open>lossless\<close> (it does not fail) where a client
  is shown to receive something. Each property that has a hypothesis has a witness, a concrete
  input at which it is applied. The allocator's critical sections run under one mutex and a call is
  modelled without interference by other threads. For \<^verbatim>\<open>my_realloc\<close> this is more than the mutex
  gives: its copying path (\<open>my_realloc_move\<close>) releases the mutex between its check, the call of
  \<^verbatim>\<open>my_malloc\<close>, the copy and the call of \<^verbatim>\<open>my_free\<close>, and what other threads do in between is not modelled;
  likewise \<^verbatim>\<open>my_calloc\<close> clears the memory after \<^verbatim>\<open>my_malloc\<close> has released it. The server's critical
  sections are the steps of its pool. Every reading of the clock by the terminal interface is a
  value of its own. Differences and sums of C \<^verbatim>\<open>int\<close>s in the terminal interface wrap at 32 bits in the
  model. Memory allocation by the monitor itself is an answer of the environment, and so is whether
  the threads of the server end when the program stops it.

  \<^bold>\<open>Not modelled.\<close> The text of the monitor's log messages (\<^verbatim>\<open>LOG_INFO\<close> and its relatives, \<^verbatim>\<open>print_usage\<close>), colours and
  cursor positions of single characters on the terminal, socket options, and the mutexes themselves:
  none of them is read by the program. The scripts, the tests, the build and the web page are not
  part of the two programs.
\<close>

section \<open>From the process file system to a client\<close>

text \<open>
  C40. What a client reads is what was sampled: after the sampler and the server have been
  started and the main loop has run for any number of rounds, with failed samples among them, the
  round that takes a successful sample makes \<^verbatim>\<open>GET /api/metrics\<close> answer with the document of exactly
  this sample, every process of it included, when the command names have at most 128 characters,
  the allocations succeed and the connection does not fail.
\<close>

theorem sampled_metrics_served:
  assumes init: "proc_parser_init fs cores parser_boot = (0, ps0)"
    and server: "gui_server_init a (Some host) prt (Some token) zero_server = (0, sv0)" "gui_server_start b sv0 = (0, sv)"
    and loop: "headless_loop ts ps0 sv = (ps, sv1)"
    and sample: "proc_parser_take_snapshot (t_fs t) (t_dir t) (t_now t) ps = (0, sn, ps')" "long64 (t_now t)"
    and short: "list_all (\<lambda>p. length (p_comm p) \<le> 128) (s_procs sn)"
    and client: "good_device (e_dev e)" "e_alloc e = (\<lambda>_. True)" "has_prefix ''GET /api/metrics'' received"
    and doc: "doc = metrics_head (Some sn) @ metrics_lines (s_procs sn) @ metrics_tail"
  shows "\<exists>w'. serve_client e (snd (headless_loop (ts @ [t]) ps0 sv)) received ks w = Some (w', ks) \<and>
    sent w' = sent w @ response_header ''200 OK'' ''application/json'' (length doc) (''Cache-Control: no-store'' @ crlf) @ doc"
proof (rule metrics_served [OF client(1) _ _ _ short client(2,3) doc])
  have "latest_snapshot sv \<noteq> None"
    using gui_server_init_fields(7) [OF server(1)] server(2) by (auto simp: gui_server_start_def Let_def split: if_splits)
  then show "latest_snapshot (snd (headless_loop (ts @ [t]) ps0 sv)) = Some sn"
    by (rule headless_loop_publishes [OF loop _ sample(1)])
  have "typed_parser ps" using headless_loop_typed [OF loop init_typed [OF init]] .
  then show "typed_snapshot sn" by (rule take_snapshot_typed(2) [OF sample(1)])
  show "long64 (s_timestamp sn)" using take_snapshot_time [OF sample(1)] sample(2) by simp
qed

theorem sampled_metrics_served_witness:
  "\<exists>ps0 sn ps' sv w'. proc_parser_init demo_fs 4 parser_boot = (0, ps0) \<and>
     proc_parser_take_snapshot demo_fs (Some [''7'']) 100 ps0 = (0, sn, ps') \<and>
     serve_client demo_env (snd (headless_loop [\<lparr>t_fs = demo_fs, t_dir = Some [''7''], t_now = 100, t_clock = (\<lambda>i. 100), t_rows = 24, t_cols = 80, t_key = ERR\<rparr>] ps0 sv))
       ''GET /api/metrics HTTP/1.1'' [] demo_wire = Some (w', []) \<and>
     sent w' = response_header ''200 OK'' ''application/json''
         (length (metrics_head (Some sn) @ metrics_lines (s_procs sn) @ metrics_tail)) (''Cache-Control: no-store'' @ crlf) @
       metrics_head (Some sn) @ metrics_lines (s_procs sn) @ metrics_tail"
proof -
  let ?t = "\<lparr>t_fs = demo_fs, t_dir = Some [''7''], t_now = 100, t_clock = (\<lambda>i. 100), t_rows = 24, t_cols = 80, t_key = ERR\<rparr>"
  let ?s = "zero_server\<lparr>bind_host := ''127.0.0.1'', port := 8080, auth_token := ''s3cret'', server_fd := - 1,
    latest_snapshot := Some zero_snapshot, initialized := True\<rparr>"
  let ?r = "?s\<lparr>server_fd := 3, server_running := True\<rparr>"
  obtain ps0 where i: "proc_parser_init demo_fs 4 parser_boot = (0, ps0)" using demo_init by blast
  obtain sn ps' where s: "proc_parser_take_snapshot demo_fs (Some [''7'']) 100 ps0 = (0, sn, ps')" using demo_take by blast
  have si: "gui_server_init (v_init demo_main) (Some ''127.0.0.1'') 8080 (Some ''s3cret'') zero_server = (0, ?s)"
    by (simp add: gui_server_init_def demo_main_def MAX_AUTH_TOKEN_LEN_def zero_server_def)
  have ss: "gui_server_start (v_start demo_main) ?s = (0, ?r)" by (simp add: gui_server_start_def demo_main_def zero_server_def)
  have "atoi ''7'' = 7" by code_simp
  then have short: "list_all (\<lambda>p. length (p_comm p) \<le> 128) (s_procs sn)"
    using take_snapshot_procs [OF s] demo_comm by (fastforce simp: list_all_iff)
  have "\<exists>w'. serve_client demo_env (snd (headless_loop ([] @ [?t]) ps0 ?r)) ''GET /api/metrics HTTP/1.1'' [] demo_wire = Some (w', []) \<and>
      sent w' = sent demo_wire @ response_header ''200 OK'' ''application/json''
         (length (metrics_head (Some sn) @ metrics_lines (s_procs sn) @ metrics_tail)) (''Cache-Control: no-store'' @ crlf) @
       metrics_head (Some sn) @ metrics_lines (s_procs sn) @ metrics_tail"
    by (rule sampled_metrics_served [OF i si ss headless_loop.simps(1) _ _ short _ _ _ refl])
      (use s demo_good in \<open>simp_all add: long64_def LONG_MIN_def LONG_MAX_def has_prefix_def\<close>)
  then show ?thesis using i s by (auto simp: demo_wire_def)
qed

end
